(* ===== verification/Prelude.thy ===== *)
theory Prelude
  imports Main "HOL-Library.Mapping"
begin

text \<open>
  Shared vocabulary of the development: the collections of simplification and
  preservation rules the component theories add to, and the generic facts on lists,
  options and mappings that more than one of them uses.

  \<^item> \<open>go_simps\<close> collects the equations of the Go library functions and of the small
    state-passing helpers, for \<open>simp add: go_simps\<close>.
  \<^item> \<open>go_inv\<close> collects the preservation lemmas of the component invariants.
  \<^item> \<open>nub_by\<close> is the reference form of the code's recurring "append unless the
    identifier was seen" loops.
\<close>

named_theorems go_simps "equations of Go library functions and state helpers"
named_theorems go_inv "preservation lemmas of component invariants"

section \<open>First occurrences by an identifier\<close>

fun nub_by :: "('a \<Rightarrow> 'k) \<Rightarrow> 'k list \<Rightarrow> 'a list \<Rightarrow> 'a list" where
  "nub_by f seen [] = []"
| "nub_by f seen (x # xs) =
     (if f x \<in> set seen then nub_by f seen xs else x # nub_by f (f x # seen) xs)"

lemma nub_by_seen_cong:
  "set seen = set seen' \<Longrightarrow> nub_by f seen xs = nub_by f seen' xs"
proof (induction xs arbitrary: seen seen')
  case (Cons x xs)
  from Cons.prems have "set (f x # seen) = set (f x # seen')" by simp
  then have "nub_by f (f x # seen) xs = nub_by f (f x # seen') xs" by (rule Cons.IH)
  then show ?case using Cons.IH [OF Cons.prems] by (simp add: Cons.prems)
qed simp

lemma nub_by_append:
  "nub_by f seen (xs @ ys) = nub_by f seen xs @ nub_by f (map f xs @ seen) ys"
proof (induction xs arbitrary: seen)
  case Nil
  then show ?case by simp
next
  case (Cons x xs)
  have *: "set (map f xs @ f x # seen) = set (f x # map f xs @ seen)" by auto
  show ?case
  proof (cases "f x \<in> set seen")
    case True
    then have "set (map f xs @ seen) = set (map f (x # xs) @ seen)" by auto
    then have "nub_by f (map f xs @ seen) ys = nub_by f (map f (x # xs) @ seen) ys"
      by (rule nub_by_seen_cong)
    with True Cons.IH show ?thesis by simp
  next
    case False
    with Cons.IH[of "f x # seen"] nub_by_seen_cong[OF *, of f ys] show ?thesis by simp
  qed
qed

lemma set_nub_by_subset: "set (nub_by f seen xs) \<subseteq> set xs"
  by (induction xs arbitrary: seen) auto

lemma image_nub_by: "f ` set (nub_by f seen xs) = f ` set xs - set seen"
  by (induction xs arbitrary: seen) (auto split: if_splits)

lemma distinct_nub_by: "distinct (map f (nub_by f seen xs))"
proof (induction xs arbitrary: seen)
  case (Cons x xs)
  have "f x \<notin> f ` set (nub_by f (f x # seen) xs)" by (simp add: image_nub_by)
  with Cons show ?case by simp
qed simp

lemma nub_by_distinct_id:
  "distinct (map f xs) \<Longrightarrow> f ` set xs \<inter> set seen = {} \<Longrightarrow> nub_by f seen xs = xs"
proof (induction xs arbitrary: seen)
  case (Cons x xs)
  then have "f ` set xs \<inter> set (f x # seen) = {}" by auto
  with Cons show ?case by auto
qed simp

section \<open>Options, lists and mappings\<close>

lemma lookup_default_False_insert [go_simps]:
  "Mapping.lookup (Mapping.update k v m) k' = (if k = k' then Some v else Mapping.lookup m k')"
  by (simp add: Mapping.lookup_update')

lemma lookup_empty_None [go_simps]: "Mapping.lookup Mapping.empty k = None"
  by (rule Mapping.lookup_empty)

lemma list_all_conv_set: "list_all P xs \<longleftrightarrow> set xs \<subseteq> {x. P x}"
  by (auto simp: list_all_iff)

lemma distinct_map_filter_nth:
  "distinct (map f (filter P xs)) \<Longrightarrow> i < length xs \<Longrightarrow> j < length xs \<Longrightarrow> i \<noteq> j \<Longrightarrow>
   P (xs ! i) \<Longrightarrow> P (xs ! j) \<Longrightarrow> f (xs ! i) \<noteq> f (xs ! j)"
proof (induction xs arbitrary: i j)
  case (Cons x xs)
  have later: "f x \<noteq> f (xs ! k)" if "P x" "k < length xs" "P (xs ! k)" for k
    using Cons.prems(1) that by (auto simp: image_iff)
  show ?case
  proof (cases i)
    case 0
    with Cons.prems obtain k where "j = Suc k" by (cases j) auto
    with 0 Cons.prems later [of k] show ?thesis by simp
  next
    case (Suc k)
    show ?thesis
    proof (cases j)
      case 0
      with Suc Cons.prems later [of k] show ?thesis by (auto dest: sym)
    next
      case (Suc l)
      with \<open>i = Suc k\<close> Cons.prems Cons.IH [of k l] show ?thesis by (auto split: if_splits)
    qed
  qed
qed simp

lemma nth_append_last [simp]: "(xs @ [x]) ! length xs = x"
  by simp

lemma nth_list_update_if: "j < length xs \<Longrightarrow> xs[i := x] ! j = (if i = j then x else xs ! j)"
  by (cases "i = j") simp_all

end
