(* ===== verification/GoStrings.thy ===== *)
theory GoStrings
  imports Prelude
begin

text \<open>
  The functions of Go's \<open>strings\<close> package the program uses, on Go strings as byte lists.
  \<open>ToLower\<close> is exact on ASCII, where Go takes a byte-wise path; the Unicode case tables
  of the other path are the parameter \<open>ulower\<close>. White space is exact on every byte
  string: UTF-8 is self-synchronising, so \<open>unicode.IsSpace\<close> holds of the next rune exactly
  when one of the encodings of \<open>space_runes\<close> is a prefix of what is left.
\<close>

definition has_prefix :: "string \<Rightarrow> string \<Rightarrow> bool" where
  "has_prefix p s \<longleftrightarrow> take (length p) s = p"

definition trim_prefix :: "string \<Rightarrow> string \<Rightarrow> string" where
  "trim_prefix p s = (if has_prefix p s then drop (length p) s else s)"

definition cut_prefix :: "string \<Rightarrow> string \<Rightarrow> string option" where
  "cut_prefix p s = (if has_prefix p s then Some (drop (length p) s) else None)"

lemma has_prefix_append [simp]: "has_prefix p (p @ s)"
  by (simp add: has_prefix_def)

lemma has_prefix_iff: "has_prefix p s \<longleftrightarrow> (\<exists>t. s = p @ t)"
  by (metis append_take_drop_id has_prefix_append has_prefix_def)

lemma trim_prefix_append [simp]: "trim_prefix p (p @ s) = s"
  by (simp add: trim_prefix_def)

lemma trim_prefix_id: "\<not> has_prefix p s \<Longrightarrow> trim_prefix p s = s"
  by (simp add: trim_prefix_def)

lemma cut_prefix_Some_iff: "cut_prefix p s = Some t \<longleftrightarrow> s = p @ t"
  by (auto simp: cut_prefix_def has_prefix_iff)

section \<open>Lower case\<close>

definition is_ascii :: "char \<Rightarrow> bool" where
  "is_ascii c \<longleftrightarrow> (of_char c :: nat) < 128"

definition ascii_lower :: "char \<Rightarrow> char" where
  "ascii_lower c =
     (let n = (of_char c :: nat) in if 65 \<le> n \<and> n \<le> 90 then char_of (n + 32) else c)"

definition to_lower :: "(string \<Rightarrow> string) \<Rightarrow> string \<Rightarrow> string" where
  "to_lower ulower s = (if list_all is_ascii s then map ascii_lower s else ulower s)"

section \<open>White space\<close>

definition space_runes :: "string list" where
  "space_runes =
     [[CHR 0x09], [CHR 0x0A], [CHR 0x0B], [CHR 0x0C], [CHR 0x0D], [CHR 0x20],
      [CHR 0xC2, CHR 0x85], [CHR 0xC2, CHR 0xA0], [CHR 0xE1, CHR 0x9A, CHR 0x80],
      [CHR 0xE2, CHR 0x80, CHR 0x80], [CHR 0xE2, CHR 0x80, CHR 0x81],
      [CHR 0xE2, CHR 0x80, CHR 0x82], [CHR 0xE2, CHR 0x80, CHR 0x83],
      [CHR 0xE2, CHR 0x80, CHR 0x84], [CHR 0xE2, CHR 0x80, CHR 0x85],
      [CHR 0xE2, CHR 0x80, CHR 0x86], [CHR 0xE2, CHR 0x80, CHR 0x87],
      [CHR 0xE2, CHR 0x80, CHR 0x88], [CHR 0xE2, CHR 0x80, CHR 0x89],
      [CHR 0xE2, CHR 0x80, CHR 0x8A], [CHR 0xE2, CHR 0x80, CHR 0xA8],
      [CHR 0xE2, CHR 0x80, CHR 0xA9], [CHR 0xE2, CHR 0x80, CHR 0xAF],
      [CHR 0xE2, CHR 0x81, CHR 0x9F], [CHR 0xE3, CHR 0x80, CHR 0x80]]"

text \<open>\<open>drop_space\<close> removes one leading white-space rune, if there is one.\<close>

definition drop_space :: "string list \<Rightarrow> string \<Rightarrow> string option" where
  "drop_space runes s = map_option (\<lambda>r. drop (length r) s) (find (\<lambda>r. has_prefix r s) runes)"

lemma drop_space_shorter:
  assumes "drop_space runes s = Some t" and "[] \<notin> set runes"
  shows "length t < length s"
proof -
  from assms obtain r where r: "find (\<lambda>r. has_prefix r s) runes = Some r" "t = drop (length r) s"
    by (auto simp: drop_space_def)
  then have "r \<in> set runes" "has_prefix r s" by (auto simp: find_Some_iff)
  with assms(2) have "r \<noteq> []" "length r \<le> length s" by (auto simp: has_prefix_iff)
  with r show ?thesis by (cases s) auto
qed

lemma space_runes_nonempty: "[] \<notin> set space_runes"
  by (simp add: space_runes_def)

function trim_left_runes :: "string list \<Rightarrow> string \<Rightarrow> string" where
  "trim_left_runes runes s =
     (if [] \<in> set runes then s
      else case drop_space runes s of None \<Rightarrow> s | Some t \<Rightarrow> trim_left_runes runes t)"
  by pat_completeness auto
termination
  by (relation "measure (\<lambda>(_, s). length s)") (auto dest: drop_space_shorter)

declare trim_left_runes.simps [simp del]

definition trim_left_space :: "string \<Rightarrow> string" where
  "trim_left_space s = trim_left_runes space_runes s"

definition trim_right_space :: "string \<Rightarrow> string" where
  "trim_right_space s = rev (trim_left_runes (map rev space_runes) (rev s))"

definition trim_space :: "string \<Rightarrow> string" where
  "trim_space s = trim_right_space (trim_left_space s)"

text \<open>\<open>strings.TrimSpace(s) == ""\<close>: the string holds nothing but white space.\<close>

definition is_blank :: "string \<Rightarrow> bool" where
  "is_blank s \<longleftrightarrow> trim_space s = ''''"

lemma drop_space_Nil: "[] \<notin> set runes \<Longrightarrow> drop_space runes [] = None"
  using drop_space_shorter [of runes "[]"] by (cases "drop_space runes []") auto

lemma trim_left_runes_Nil [simp]: "trim_left_runes runes [] = []"
  by (simp add: trim_left_runes.simps [of runes "[]"] drop_space_Nil)

lemma trim_space_Nil [simp]: "trim_space [] = []"
  by (simp add: trim_space_def trim_left_space_def trim_right_space_def)

lemma is_blank_Nil [simp]: "is_blank []"
  by (simp add: is_blank_def)

lemma space_runes_hd:
  "r \<in> set space_runes \<Longrightarrow> r \<noteq> [] \<and> ((of_char (hd r) :: nat) \<le> 32 \<or> 128 \<le> (of_char (hd r) :: nat))"
  by (force simp: space_runes_def)

lemma has_prefix_hd: "has_prefix r (c # s) \<Longrightarrow> r \<noteq> [] \<Longrightarrow> hd r = c"
  by (cases r) (auto simp: has_prefix_def)

lemma drop_space_None_Cons:
  assumes "is_ascii c" and "(of_char c :: nat) > 32"
  shows "drop_space space_runes (c # s) = None"
proof -
  have "\<not> has_prefix r (c # s)" if "r \<in> set space_runes" for r
    using space_runes_hd [OF that] has_prefix_hd [of r c s] assms by (auto simp: is_ascii_def)
  then show ?thesis by (simp add: drop_space_def find_None_iff)
qed

lemma trim_left_space_id: "drop_space space_runes s = None \<Longrightarrow> trim_left_space s = s"
  by (simp add: trim_left_space_def trim_left_runes.simps [of _ s])

lemma drop_space_keeps:
  assumes "drop_space runes s = Some t" and "c \<in> set s" and "c \<notin> \<Union> (set ` set runes)"
  shows "c \<in> set t"
proof -
  from assms(1) obtain r where "find (\<lambda>r. has_prefix r s) runes = Some r" "t = drop (length r) s"
    by (auto simp: drop_space_def)
  then have "r \<in> set runes" "s = r @ t" by (auto simp: find_Some_iff has_prefix_iff)
  with assms show ?thesis by auto
qed

lemma trim_left_runes_keeps:
  "c \<notin> \<Union> (set ` set runes) \<Longrightarrow> c \<in> set s \<Longrightarrow> c \<in> set (trim_left_runes runes s)"
proof (induction runes s rule: trim_left_runes.induct)
  case (1 runes s)
  then show ?case
    by (cases "drop_space runes s")
      (auto simp: trim_left_runes.simps [of runes s] dest: drop_space_keeps)
qed

lemma trim_space_keeps:
  "c \<notin> \<Union> (set ` set space_runes) \<Longrightarrow> c \<in> set s \<Longrightarrow> c \<in> set (trim_space s)"
  by (simp add: trim_space_def trim_left_space_def trim_right_space_def trim_left_runes_keeps)

lemma not_blank_letter:
  assumes "is_ascii c" and "(of_char c :: nat) > 32"
  shows "\<not> is_blank (c # s)"
proof -
  have "c \<notin> set r" if "r \<in> set space_runes" for r
    using that assms by (auto simp: space_runes_def is_ascii_def)
  then have "c \<in> set (trim_space (c # s))" by (intro trim_space_keeps) auto
  then show ?thesis by (auto simp: is_blank_def)
qed

end
