(* ===== verification/Keys.thy ===== *)
theory Keys
  imports GoStrings
begin

text \<open>
  The package \<open>internal/keys\<close>: match criteria, the filter that selects a group's keys
  in configuration order, and the allow set that guards signing.

  A public key is used only through \<open>Marshal()\<close>, so an \<open>ssh.PublicKey\<close> is its wire
  blob, and an \<open>agent.Key\<close> (whose \<open>Marshal\<close> returns its \<open>Blob\<close>) is a record of its
  three fields. The two fingerprint functions of \<open>golang.org/x/crypto/ssh\<close> are the
  parameter \<open>fingerprints\<close>; the Unicode lower-case tables are the parameter \<open>ulower\<close>.
\<close>

section \<open>Keys, match criteria and their parameters\<close>

type_synonym blob = string

record agent_key =
  k_Format :: string
  k_Blob :: blob
  k_Comment :: string

record fingerprints =
  FingerprintLegacyMD5 :: "blob \<Rightarrow> string"
  FingerprintSHA256 :: "blob \<Rightarrow> string"

type_synonym match_type = string

definition MatchComment :: match_type where "MatchComment = ''comment''"
definition MatchMD5 :: match_type where "MatchMD5 = ''md5''"
definition MatchSHA256 :: match_type where "MatchSHA256 = ''sha256''"

lemmas match_type_defs = MatchComment_def MatchMD5_def MatchSHA256_def

record matcher =
  m_Type :: match_type
  m_value :: string

datatype matcher_error = EmptyMatchValue | UnknownMatchType string

section \<open>Building a matcher\<close>

definition NewMatcher :: "(string \<Rightarrow> string) \<Rightarrow> string \<Rightarrow> string \<Rightarrow> matcher_error + matcher" where
  "NewMatcher ulower typ value =
     (if value = '''' then Inl EmptyMatchValue
      else if typ = MatchComment then Inr \<lparr>m_Type = MatchComment, m_value = value\<rparr>
      else if typ = MatchMD5 then
        (let v = trim_prefix ''MD5:'' value;
             v = trim_prefix ''md5:'' v
         in Inr \<lparr>m_Type = MatchMD5, m_value = to_lower ulower v\<rparr>)
      else if typ = MatchSHA256 then
        (let v = value;
             v = (if \<not> has_prefix ''SHA256:'' v then ''SHA256:'' @ trim_prefix ''sha256:'' v else v)
         in Inr \<lparr>m_Type = MatchSHA256, m_value = v\<rparr>)
      else Inl (UnknownMatchType typ))"

definition Matches :: "fingerprints \<Rightarrow> matcher \<Rightarrow> agent_key \<Rightarrow> bool" where
  "Matches fp m k =
     (if m_Type m = MatchComment then k_Comment k = m_value m
      else if m_Type m = MatchMD5 then FingerprintLegacyMD5 fp (k_Blob k) = m_value m
      else if m_Type m = MatchSHA256 then FingerprintSHA256 fp (k_Blob k) = m_value m
      else False)"

section \<open>Resolving a group's view\<close>

text \<open>
  The two nested loops of \<open>Resolve\<close>. The inner one carries the output list, the match
  count of the current matcher and the map of blobs seen so far.
\<close>

fun resolve_keys :: "fingerprints \<Rightarrow> matcher \<Rightarrow> agent_key list
    \<Rightarrow> agent_key list \<Rightarrow> nat \<Rightarrow> (blob, bool) mapping
    \<Rightarrow> agent_key list \<times> nat \<times> (blob, bool) mapping" where
  "resolve_keys fp m [] out count seen = (out, count, seen)"
| "resolve_keys fp m (k # ks) out count seen =
     (if \<not> Matches fp m k then resolve_keys fp m ks out count seen
      else if Mapping.lookup seen (k_Blob k) = Some True
           then resolve_keys fp m ks out (Suc count) seen
           else resolve_keys fp m ks (out @ [k]) (Suc count)
                  (Mapping.update (k_Blob k) True seen))"

fun resolve_matchers :: "fingerprints \<Rightarrow> agent_key list \<Rightarrow> matcher list
    \<Rightarrow> agent_key list \<Rightarrow> nat list \<Rightarrow> (blob, bool) mapping \<Rightarrow> agent_key list \<times> nat list" where
  "resolve_matchers fp upstream [] out counts seen = (out, counts)"
| "resolve_matchers fp upstream (m # ms) out counts seen =
     (case resolve_keys fp m upstream out 0 seen of
        (out', count, seen') \<Rightarrow> resolve_matchers fp upstream ms out' (counts @ [count]) seen')"

definition Resolve :: "fingerprints \<Rightarrow> agent_key list \<Rightarrow> matcher list \<Rightarrow> agent_key list \<times> nat list" where
  "Resolve fp upstream matchers = resolve_matchers fp upstream matchers [] [] Mapping.empty"

definition Filter :: "fingerprints \<Rightarrow> agent_key list \<Rightarrow> matcher list \<Rightarrow> agent_key list" where
  "Filter fp upstream matchers = fst (Resolve fp upstream matchers)"

section \<open>The allow set\<close>

record allow_set =
  blobs :: "(blob, bool) mapping"

definition NewAllowSet :: "agent_key list \<Rightarrow> allow_set" where
  "NewAllowSet allowedKeys =
     \<lparr>blobs = fold (\<lambda>key. Mapping.update (k_Blob key) True) allowedKeys Mapping.empty\<rparr>"

definition BuildAllowSet :: "fingerprints \<Rightarrow> agent_key list \<Rightarrow> matcher list \<Rightarrow> allow_set" where
  "BuildAllowSet fp upstream matchers = NewAllowSet (Filter fp upstream matchers)"

definition Allowed :: "allow_set \<Rightarrow> blob \<Rightarrow> bool" where
  "Allowed s pub = (case Mapping.lookup (blobs s) pub of Some b \<Rightarrow> b | None \<Rightarrow> False)"

definition Len :: "allow_set \<Rightarrow> nat" where
  "Len s = Mapping.size (blobs s)"

section \<open>The loops against their specification\<close>

text \<open>
  \<open>matched\<close> lists, matcher by matcher, every upstream key the matcher selects; the code's
  output is its first occurrences by blob.
\<close>

definition matched :: "fingerprints \<Rightarrow> agent_key list \<Rightarrow> matcher list \<Rightarrow> agent_key list" where
  "matched fp upstream matchers = concat (map (\<lambda>m. filter (Matches fp m) upstream) matchers)"

lemma set_matched [simp]:
  "set (matched fp upstream ms) = {k \<in> set upstream. \<exists>m \<in> set ms. Matches fp m k}"
  by (auto simp: matched_def)

text \<open>The invariant of both loops: \<open>seen\<close> holds \<open>True\<close> for exactly the listed blobs.\<close>

definition seen_is :: "(blob, bool) mapping \<Rightarrow> blob list \<Rightarrow> bool" where
  "seen_is seen bs \<longleftrightarrow> (\<forall>b. Mapping.lookup seen b = (if b \<in> set bs then Some True else None))"

lemma seen_is_empty [simp]: "seen_is Mapping.empty []"
  by (simp add: seen_is_def go_simps)

lemma seen_is_update [simp]: "seen_is seen bs \<Longrightarrow> seen_is (Mapping.update b True seen) (b # bs)"
  by (simp add: seen_is_def go_simps)

lemma seen_is_dup [simp]: "seen_is seen bs \<Longrightarrow> b \<in> set bs \<Longrightarrow> seen_is seen (b # bs)"
  by (auto simp: seen_is_def)

lemma seen_is_lookup [simp]:
  "seen_is seen bs \<Longrightarrow> Mapping.lookup seen b = Some True \<longleftrightarrow> b \<in> set bs"
  by (simp add: seen_is_def)

lemma seen_is_perm: "seen_is seen bs \<Longrightarrow> set bs = set cs \<Longrightarrow> seen_is seen cs"
  by (simp add: seen_is_def)

lemma resolve_keys_spec:
  "seen_is seen bs \<Longrightarrow>
   \<exists>seen'. resolve_keys fp m ks out count seen =
       (out @ nub_by k_Blob bs (filter (Matches fp m) ks),
        count + length (filter (Matches fp m) ks), seen') \<and>
     seen_is seen' (map k_Blob (filter (Matches fp m) ks) @ bs)"
proof (induction ks arbitrary: out count seen bs)
  case Nil
  then show ?case by simp
next
  case (Cons k ks)
  let ?f = "filter (Matches fp m) ks"
  consider (skip) "\<not> Matches fp m k"
    | (dup) "Matches fp m k" "k_Blob k \<in> set bs"
    | (new) "Matches fp m k" "k_Blob k \<notin> set bs"
    by blast
  then show ?case
  proof cases
    case skip
    with Cons show ?thesis by simp
  next
    case dup
    from Cons.IH [OF Cons.prems, of out "Suc count"] obtain seen' where
      "resolve_keys fp m ks out (Suc count) seen =
         (out @ nub_by k_Blob bs ?f, Suc count + length ?f, seen')"
      "seen_is seen' (map k_Blob ?f @ bs)" by blast
    with dup Cons.prems show ?thesis by (auto intro: seen_is_perm)
  next
    case new
    from Cons.IH [OF seen_is_update [OF Cons.prems], of "out @ [k]" "Suc count" "k_Blob k"]
    obtain seen' where
      "resolve_keys fp m ks (out @ [k]) (Suc count) (Mapping.update (k_Blob k) True seen) =
         ((out @ [k]) @ nub_by k_Blob (k_Blob k # bs) ?f, Suc count + length ?f, seen')"
      "seen_is seen' (map k_Blob ?f @ k_Blob k # bs)" by blast
    with new Cons.prems show ?thesis by (auto intro: seen_is_perm)
  qed
qed

lemma resolve_matchers_spec:
  "seen_is seen bs \<Longrightarrow>
   resolve_matchers fp upstream ms out counts seen =
     (out @ nub_by k_Blob bs (matched fp upstream ms),
      counts @ map (\<lambda>m. length (filter (Matches fp m) upstream)) ms)"
proof (induction ms arbitrary: out counts seen bs)
  case Nil
  then show ?case by (simp add: matched_def)
next
  case (Cons m ms)
  let ?f = "filter (Matches fp m) upstream"
  from resolve_keys_spec [OF Cons.prems] obtain seen' where
    "resolve_keys fp m upstream out 0 seen =
       (out @ nub_by k_Blob bs ?f, 0 + length ?f, seen')"
    and inv: "seen_is seen' (map k_Blob ?f @ bs)" by blast
  with Cons.IH [OF inv] show ?case by (simp add: matched_def nub_by_append)
qed

lemma Resolve_spec:
  "Resolve fp upstream ms =
     (nub_by k_Blob [] (matched fp upstream ms),
      map (\<lambda>m. length (filter (Matches fp m) upstream)) ms)"
  by (simp add: Resolve_def resolve_matchers_spec [OF seen_is_empty])

lemma Filter_spec: "Filter fp upstream ms = nub_by k_Blob [] (matched fp upstream ms)"
  by (simp add: Filter_def Resolve_spec)

lemma blobs_Filter: "k_Blob ` set (Filter fp upstream ms) = k_Blob ` set (matched fp upstream ms)"
  by (simp add: Filter_spec image_nub_by)

lemma set_Filter_subset: "set (Filter fp upstream ms) \<subseteq> set (matched fp upstream ms)"
  by (simp only: Filter_spec set_nub_by_subset)

lemma lookup_fold_update:
  "Mapping.lookup (fold (\<lambda>key. Mapping.update (k_Blob key) True) ks m) b =
     (if b \<in> k_Blob ` set ks then Some True else Mapping.lookup m b)"
  by (induction ks arbitrary: m) (auto simp: go_simps)

lemma Allowed_NewAllowSet [simp]: "Allowed (NewAllowSet ks) b \<longleftrightarrow> b \<in> k_Blob ` set ks"
  by (simp add: Allowed_def NewAllowSet_def lookup_fold_update go_simps)

lemma keys_NewAllowSet: "Mapping.keys (blobs (NewAllowSet ks)) = k_Blob ` set ks"
  by (auto simp: NewAllowSet_def keys_dom_lookup lookup_fold_update go_simps split: if_splits)

lemma Len_NewAllowSet: "Len (NewAllowSet ks) = card (k_Blob ` set ks)"
  by (simp add: Len_def Mapping.size_def keys_NewAllowSet)

section \<open>Properties\<close>

lemma length_matched_counts:
  "sum_list (map (\<lambda>m. length (filter (Matches fp m) upstream)) ms) = length (matched fp upstream ms)"
  by (simp add: matched_def length_concat comp_def)

text \<open>
  Property C13. The loops of \<open>Resolve\<close> compute the specified view: the keys matched in
  configuration order, upstream order within a matcher, first occurrence of each blob only;
  and, per matcher, the number of upstream keys it selects before deduplication.
\<close>

theorem resolve_reference:
  "Resolve fp upstream ms =
     (nub_by k_Blob [] (concat (map (\<lambda>m. filter (Matches fp m) upstream) ms)),
      map (\<lambda>m. length (filter (Matches fp m) upstream)) ms)"
  by (simp add: Resolve_spec matched_def)

text \<open>
  Property C14. A group's view is exact: it lists upstream keys only, each blob once, and
  its blobs are those of the upstream keys that some matcher of the group selects.
\<close>

theorem group_view_exact:
  "set (Filter fp upstream ms) \<subseteq> {k \<in> set upstream. \<exists>m \<in> set ms. Matches fp m k} \<and>
   distinct (map k_Blob (Filter fp upstream ms)) \<and>
   k_Blob ` set (Filter fp upstream ms) =
     {b. \<exists>k m. k \<in> set upstream \<and> m \<in> set ms \<and> Matches fp m k \<and> b = k_Blob k}"
proof -
  have "set (Filter fp upstream ms) \<subseteq> {k \<in> set upstream. \<exists>m \<in> set ms. Matches fp m k}"
    using set_Filter_subset [of fp upstream ms] by simp
  moreover have "distinct (map k_Blob (Filter fp upstream ms))"
    by (simp add: Filter_spec distinct_nub_by)
  ultimately show ?thesis by (auto simp: blobs_Filter)
qed

text \<open>
  The allow set built from a group's view admits exactly the public keys some
  matcher selects upstream, and has one entry per listed key.
\<close>

theorem allow_set_exact:
  "(Allowed (BuildAllowSet fp upstream ms) pub \<longleftrightarrow>
      (\<exists>k m. k \<in> set upstream \<and> m \<in> set ms \<and> Matches fp m k \<and> k_Blob k = pub)) \<and>
   Len (BuildAllowSet fp upstream ms) = length (Filter fp upstream ms)"
proof -
  have "card (k_Blob ` set (Filter fp upstream ms)) = length (Filter fp upstream ms)"
    using distinct_card [OF distinct_nub_by [of k_Blob "[]" "matched fp upstream ms"]]
    by (simp add: Filter_spec)
  then show ?thesis
    by (auto simp: BuildAllowSet_def Len_NewAllowSet blobs_Filter)
qed

lemma NewMatcher_sha256:
  "b64 \<noteq> [] \<Longrightarrow> \<not> has_prefix ''sha256:'' b64 \<Longrightarrow> \<not> has_prefix ''SHA256:'' b64 \<Longrightarrow>
   NewMatcher ulower ''sha256'' b64 = Inr \<lparr>m_Type = MatchSHA256, m_value = ''SHA256:'' @ b64\<rparr>"
  by (simp only: NewMatcher_def match_type_defs trim_prefix_id Let_def) (simp add: trim_prefix_id)

lemma NewMatcher_sha256_prefixed:
  "NewMatcher ulower ''sha256'' (''SHA256:'' @ b64) =
     Inr \<lparr>m_Type = MatchSHA256, m_value = ''SHA256:'' @ b64\<rparr>"
  by (simp only: NewMatcher_def match_type_defs Let_def has_prefix_append) (simp add: trim_prefix_id)

lemma NewMatcher_md5:
  "hex \<noteq> [] \<Longrightarrow> \<not> has_prefix ''MD5:'' hex \<Longrightarrow> \<not> has_prefix ''md5:'' hex \<Longrightarrow>
   list_all is_ascii hex \<Longrightarrow>
   NewMatcher ulower ''md5'' hex = Inr \<lparr>m_Type = MatchMD5, m_value = map ascii_lower hex\<rparr>"
  by (simp only: NewMatcher_def match_type_defs trim_prefix_id Let_def to_lower_def) (simp add: trim_prefix_id)

lemma NewMatcher_md5_prefixed:
  "\<not> has_prefix ''md5:'' hex \<Longrightarrow> list_all is_ascii hex \<Longrightarrow>
   NewMatcher ulower ''md5'' (''MD5:'' @ hex) = Inr \<lparr>m_Type = MatchMD5, m_value = map ascii_lower hex\<rparr>"
  by (simp only: NewMatcher_def match_type_defs trim_prefix_append trim_prefix_id Let_def to_lower_def)
    (simp add: trim_prefix_id)

lemma Matches_sha256:
  "Matches fp \<lparr>m_Type = MatchSHA256, m_value = v\<rparr> k \<longleftrightarrow> FingerprintSHA256 fp (k_Blob k) = v"
  by (simp add: Matches_def match_type_defs)

lemma Matches_md5:
  "Matches fp \<lparr>m_Type = MatchMD5, m_value = v\<rparr> k \<longleftrightarrow> FingerprintLegacyMD5 fp (k_Blob k) = v"
  by (simp add: Matches_def match_type_defs)

text \<open>
  The entries that \<open>-list\<close> prints for a key select that key: its SHA256
  fingerprint with the documented \<open>SHA256:\<close> prefix or without it, and its legacy MD5
  fingerprint (lower-case hexadecimal with colons) with the \<open>MD5:\<close> prefix or without it.
\<close>

theorem printed_fingerprints_match:
  assumes sha: "FingerprintSHA256 fp (k_Blob k) = ''SHA256:'' @ b64" "b64 \<noteq> ''''"
      "\<not> has_prefix ''sha256:'' b64" "\<not> has_prefix ''SHA256:'' b64"
    and md5: "FingerprintLegacyMD5 fp (k_Blob k) = hex" "hex \<noteq> ''''" "list_all is_ascii hex"
      "map ascii_lower hex = hex" "\<not> has_prefix ''md5:'' hex" "\<not> has_prefix ''MD5:'' hex"
    and entry: "(typ, v) \<in> {(''sha256'', ''SHA256:'' @ b64), (''sha256'', b64),
      (''md5'', ''MD5:'' @ hex), (''md5'', hex)}"
  shows "\<exists>m. NewMatcher ulower typ v = Inr m \<and> Matches fp m k"
proof -
  have s: "Matches fp \<lparr>m_Type = MatchSHA256, m_value = ''SHA256:'' @ b64\<rparr> k"
    using sha(1) by (simp only: Matches_sha256)
  have m: "Matches fp \<lparr>m_Type = MatchMD5, m_value = map ascii_lower hex\<rparr> k"
    using md5(1,4) by (simp only: Matches_md5)
  from entry consider "typ = ''sha256''" "v = ''SHA256:'' @ b64" | "typ = ''sha256''" "v = b64"
    | "typ = ''md5''" "v = ''MD5:'' @ hex" | "typ = ''md5''" "v = hex" by blast
  then show ?thesis
    using s m NewMatcher_sha256 [OF sha(2-4)] NewMatcher_sha256_prefixed
      NewMatcher_md5 [OF md5(2,6,5,3)] NewMatcher_md5_prefixed [OF md5(5,3)]
    by cases blast+
qed

text \<open>A fingerprint function with the documented formats, for the witness.\<close>

definition sample_fps :: fingerprints where
  "sample_fps = \<lparr>FingerprintLegacyMD5 = (\<lambda>b. ''aa:bb''), FingerprintSHA256 = (\<lambda>b. ''SHA256:Qx'')\<rparr>"

definition sample_key :: agent_key where
  "sample_key = \<lparr>k_Format = ''ssh-ed25519'', k_Blob = ''blob'', k_Comment = ''laptop''\<rparr>"

theorem printed_fingerprints_match_witness:
  "\<exists>m. NewMatcher id ''md5'' ''MD5:aa:bb'' = Inr m \<and> Matches sample_fps m sample_key"
  by (rule printed_fingerprints_match [of sample_fps sample_key "''Qx''" "''aa:bb''"])
    (simp_all add: sample_fps_def has_prefix_def is_ascii_def ascii_lower_def)

end
