(* ===== verification/GoPath.thy ===== *)
theory GoPath
  imports Prelude
begin

text \<open>
  Go's \<open>path/filepath\<close> on Unix, as the program uses it: \<open>Clean\<close>, \<open>Dir\<close>, \<open>Base\<close>,
  \<open>Join\<close>, \<open>IsAbs\<close>. \<open>Clean\<close> is written over the elements between slashes, which is how
  its documentation states it: empty and \<open>.\<close> elements are dropped, \<open>..\<close> removes the
  element before it, and at the root \<open>..\<close> is dropped.
\<close>

definition slash :: char where "slash = CHR ''/''"

section \<open>Elements of a path\<close>

fun split_on :: "char \<Rightarrow> string \<Rightarrow> string list" where
  "split_on d [] = [[]]"
| "split_on d (c # cs) =
     (if c = d then [] # split_on d cs
      else (case split_on d cs of [] \<Rightarrow> [[c]] | e # es \<Rightarrow> (c # e) # es))"

fun join_with :: "string \<Rightarrow> string list \<Rightarrow> string" where
  "join_with sep [] = []"
| "join_with sep [e] = e"
| "join_with sep (e # e' # es) = e @ sep @ join_with sep (e' # es)"

lemma split_on_nonempty [simp]: "split_on d s \<noteq> []"
  by (induction s) (auto split: list.splits)

lemma split_on_no_sep: "d \<notin> set e \<Longrightarrow> split_on d e = [e]"
  by (induction e) auto

lemma split_on_append_sep: "d \<notin> set e \<Longrightarrow> split_on d (e @ d # s) = e # split_on d s"
  by (induction e) auto

lemma split_on_elems: "e \<in> set (split_on d s) \<Longrightarrow> d \<notin> set e"
proof (induction s arbitrary: e)
  case (Cons c s)
  then show ?case by (cases "split_on d s") (auto split: if_splits)
qed simp

lemma split_on_join:
  "es \<noteq> [] \<Longrightarrow> \<forall>e \<in> set es. d \<notin> set e \<Longrightarrow> split_on d (join_with [d] es) = es"
  by (induction "[d]" es rule: join_with.induct) (auto simp: split_on_no_sep split_on_append_sep)

lemma join_split_on: "join_with [d] (split_on d s) = s"
proof (induction s)
  case (Cons c s)
  obtain e es where "split_on d s = e # es" by (cases "split_on d s") auto
  with Cons show ?case by (cases es) auto
qed simp

lemma split_on_snoc_sep: "split_on d (s @ [d]) = split_on d s @ [[]]"
proof (induction s)
  case (Cons c s)
  then show ?case by (cases "split_on d s") auto
qed simp

section \<open>Clean\<close>

fun clean_elems :: "bool \<Rightarrow> string list \<Rightarrow> string list \<Rightarrow> string list" where
  "clean_elems rooted stack [] = rev stack"
| "clean_elems rooted stack (e # es) =
     (if e = '''' \<or> e = ''.'' then clean_elems rooted stack es
      else if e = ''..'' then
        (case stack of
           [] \<Rightarrow> clean_elems rooted (if rooted then [] else [''..'']) es
         | el # rest \<Rightarrow>
             if el = ''..'' then clean_elems rooted (''..'' # stack) es
             else clean_elems rooted rest es)
      else clean_elems rooted (e # stack) es)"

definition IsAbs :: "string \<Rightarrow> bool" where
  "IsAbs p \<longleftrightarrow> p \<noteq> [] \<and> hd p = slash"

definition Clean :: "string \<Rightarrow> string" where
  "Clean p =
     (if p = '''' then ''.''
      else if IsAbs p then slash # join_with [slash] (clean_elems True [] (split_on slash (tl p)))
      else (case clean_elems False [] (split_on slash p) of
              [] \<Rightarrow> ''.'' | es \<Rightarrow> join_with [slash] es))"

text \<open>The part of a path up to and including the last slash, and the rest.\<close>

definition dir_part :: "string \<Rightarrow> string" where
  "dir_part p = rev (dropWhile (\<lambda>c. c \<noteq> slash) (rev p))"

definition base_part :: "string \<Rightarrow> string" where
  "base_part p = rev (takeWhile (\<lambda>c. c \<noteq> slash) (rev p))"

definition Dir :: "string \<Rightarrow> string" where
  "Dir p = Clean (dir_part p)"

definition Base :: "string \<Rightarrow> string" where
  "Base p =
     (if p = '''' then ''.''
      else let q = base_part (rev (dropWhile (\<lambda>c. c = slash) (rev p)))
           in if q = '''' then [slash] else q)"

definition Join :: "string list \<Rightarrow> string" where
  "Join elems =
     (case dropWhile (\<lambda>e. e = '''') elems of
        [] \<Rightarrow> '''' | es \<Rightarrow> Clean (join_with [slash] es))"

section \<open>Clean is idempotent\<close>

text \<open>
  The shape of a cleaned element list: proper elements, after a run of \<open>..\<close> that only a
  relative path can have.
\<close>

definition proper :: "string \<Rightarrow> bool" where
  "proper e \<longleftrightarrow> e \<noteq> '''' \<and> e \<noteq> ''.'' \<and> e \<noteq> ''..''"

definition clean_list :: "bool \<Rightarrow> string list \<Rightarrow> bool" where
  "clean_list rooted es \<longleftrightarrow>
     (\<exists>n ps. es = replicate n ''..'' @ ps \<and> (\<forall>p \<in> set ps. proper p) \<and> (rooted \<longrightarrow> n = 0))"

lemma clean_list_Nil [simp]: "clean_list rooted []"
  by (simp add: clean_list_def)

lemma clean_list_snoc: "clean_list rooted es \<Longrightarrow> proper e \<Longrightarrow> clean_list rooted (es @ [e])"
proof -
  assume "clean_list rooted es" and e: "proper e"
  then obtain n ps where "es = replicate n ''..'' @ ps"
    "\<forall>p \<in> set ps. proper p" "rooted \<longrightarrow> n = 0" by (auto simp: clean_list_def)
  with e show ?thesis unfolding clean_list_def
    by (intro exI [of _ n] exI [of _ "ps @ [e]"]) auto
qed

lemma clean_list_butlast: "clean_list rooted (es @ [e]) \<Longrightarrow> clean_list rooted es"
proof -
  assume "clean_list rooted (es @ [e])"
  then obtain n ps where *: "es @ [e] = replicate n ''..'' @ ps"
    "\<forall>p \<in> set ps. proper p" "rooted \<longrightarrow> n = 0" by (auto simp: clean_list_def)
  show ?thesis
  proof (cases ps rule: rev_cases)
    case Nil
    with * have "es @ [e] = replicate n ''..''" by simp
    then have "es = replicate (n - 1) ''..''"
      by (cases n) (auto simp: replicate_append_same [symmetric])
    with * Nil show ?thesis unfolding clean_list_def
      by (intro exI [of _ "n - 1"] exI [of _ "[]"]) auto
  next
    case (snoc qs q)
    with * have "es = replicate n ''..'' @ qs" by simp
    with * snoc show ?thesis unfolding clean_list_def by auto
  qed
qed

lemma clean_list_dotdot:
  "clean_list False (es @ [''..'']) \<Longrightarrow> clean_list False (es @ [''..'', ''..''])"
proof -
  assume "clean_list False (es @ [''..''])"
  then obtain n ps where *: "es @ [''..''] = replicate n ''..'' @ ps"
    "\<forall>p \<in> set ps. proper p" by (auto simp: clean_list_def)
  then have "ps = []" by (cases ps rule: rev_cases) (auto simp: proper_def)
  with * have "es @ [''..'', ''..''] = replicate (Suc n) ''..''"
    by (metis append.assoc append_Cons append_Nil append_Nil2 replicate_Suc replicate_append_same)
  then show ?thesis unfolding clean_list_def
    by (intro exI [of _ "Suc n"] exI [of _ "[]"]) simp
qed

lemma clean_list_rooted_last: "clean_list True (es @ [e]) \<Longrightarrow> e \<noteq> ''..''"
  by (auto simp: clean_list_def proper_def)

lemma clean_elems_clean: "clean_list rooted (rev stack) \<Longrightarrow> clean_list rooted (clean_elems rooted stack es)"
proof (induction rooted stack es rule: clean_elems.induct)
  case (2 rooted stack e es)
  show ?case
  proof (cases "e = ''..''")
    case True
    show ?thesis
    proof (cases stack)
      case Nil
      have "clean_list False [''..'']"
        unfolding clean_list_def by (intro exI [of _ 1] exI [of _ "[]"]) simp
      with 2 True Nil show ?thesis by simp
    next
      case (Cons el rest)
      with "2.prems" have el: "clean_list rooted (rev rest @ [el])" by simp
      show ?thesis
      proof (cases "el = ''..''")
        case True': True
        with el have "\<not> rooted" by (cases rooted) (auto dest: clean_list_rooted_last)
        with el True' have "clean_list rooted (rev (''..'' # stack))"
          using Cons clean_list_dotdot by simp
        with 2 True True' Cons show ?thesis by simp
      next
        case False
        with 2 True Cons clean_list_butlast [OF el] show ?thesis by simp
      qed
    qed
  next
    case False
    show ?thesis
    proof (cases "e = '''' \<or> e = ''.''")
      case True
      with 2 show ?thesis by auto
    next
      case False': False
      with False have "clean_list rooted (rev (e # stack))"
        using clean_list_snoc [OF "2.prems", of e] by (simp add: proper_def)
      with 2 False False' show ?thesis by auto
    qed
  qed
qed simp

lemma clean_elems_proper:
  "\<forall>p \<in> set ps. proper p \<Longrightarrow> clean_elems rooted stack ps = rev stack @ ps"
  by (induction ps arbitrary: stack) (auto simp: proper_def)

lemma clean_elems_dotdots:
  "clean_elems False (replicate m ''..'') (replicate n ''..'' @ ps) =
   clean_elems False (replicate (m + n) ''..'') ps"
proof (induction n arbitrary: m)
  case (Suc n)
  have "clean_elems False (replicate m ''..'') (''..'' # replicate n ''..'' @ ps) =
        clean_elems False (replicate (Suc m) ''..'') (replicate n ''..'' @ ps)"
    by (cases m) simp_all
  with Suc [of "Suc m"] show ?case by simp
qed simp

lemma clean_elems_id: "clean_list rooted es \<Longrightarrow> clean_elems rooted [] es = es"
proof -
  assume "clean_list rooted es"
  then obtain n ps where *: "es = replicate n ''..'' @ ps"
    "\<forall>p \<in> set ps. proper p" "rooted \<longrightarrow> n = 0" by (auto simp: clean_list_def)
  show ?thesis
  proof (cases n)
    case 0
    with * show ?thesis by (simp add: clean_elems_proper)
  next
    case Suc
    with * have "\<not> rooted" by auto
    with * clean_elems_dotdots [of 0 n ps] show ?thesis by (simp add: clean_elems_proper)
  qed
qed

lemma clean_elems_subset: "set (clean_elems rooted stack es) \<subseteq> set stack \<union> set es \<union> {''..''}"
proof (induction rooted stack es rule: clean_elems.induct)
  case (2 rooted stack e es)
  then show ?case by (cases stack) (auto split: if_splits)
qed auto

lemma clean_elems_no_slash:
  "e \<in> set (clean_elems rooted [] (split_on slash p)) \<Longrightarrow> slash \<notin> set e"
proof -
  assume "e \<in> set (clean_elems rooted [] (split_on slash p))"
  then have "e \<in> set (split_on slash p) \<or> e = ''..''"
    using clean_elems_subset [of rooted "[]" "split_on slash p"] by auto
  then show ?thesis
  proof
    assume "e \<in> set (split_on slash p)"
    then show ?thesis by (rule split_on_elems)
  qed (simp add: slash_def)
qed

lemma clean_list_elems: "clean_list rooted es \<Longrightarrow> e \<in> set es \<Longrightarrow> e \<noteq> '''' \<and> e \<noteq> ''.''"
proof -
  assume "clean_list rooted es" and e: "e \<in> set es"
  then obtain n ps where "es = replicate n ''..'' @ ps" "\<forall>p \<in> set ps. proper p"
    by (auto simp: clean_list_def)
  with e have "e = ''..'' \<or> proper e" by auto
  then show ?thesis by (auto simp: proper_def)
qed

lemma join_with_hd:
  "es \<noteq> [] \<Longrightarrow> hd es \<noteq> [] \<Longrightarrow> join_with sep es \<noteq> [] \<and> hd (join_with sep es) = hd (hd es)"
  by (cases "(sep, es)" rule: join_with.cases) simp_all

lemma Clean_nonempty [simp]: "Clean p \<noteq> []"
proof (cases "clean_elems False [] (split_on slash p)")
  case (Cons e es)
  have "clean_list False (clean_elems False [] (split_on slash p))"
    by (rule clean_elems_clean) simp
  with Cons have "e \<noteq> []" using clean_list_elems [of False "e # es" e] by simp
  with Cons join_with_hd [of "e # es" "[slash]"] show ?thesis by (simp add: Clean_def)
qed (simp add: Clean_def)

lemma IsAbs_Clean [simp]: "IsAbs (Clean p) \<longleftrightarrow> IsAbs p"
proof (cases "p = [] \<or> IsAbs p")
  case True
  then show ?thesis by (auto simp: Clean_def IsAbs_def slash_def)
next
  case False
  show ?thesis
  proof (cases "clean_elems False [] (split_on slash p)")
    case Nil
    with False show ?thesis by (simp add: Clean_def IsAbs_def slash_def)
  next
    case (Cons e es)
    have "clean_list False (clean_elems False [] (split_on slash p))"
      by (rule clean_elems_clean) simp
    with Cons have e: "e \<noteq> []" using clean_list_elems [of False "e # es" e] by simp
    moreover have "slash \<notin> set e" using Cons clean_elems_no_slash [of e False p] by simp
    ultimately have "hd e \<noteq> slash" by (cases e) auto
    with False Cons e join_with_hd [of "e # es" "[slash]"] show ?thesis
      by (simp add: Clean_def IsAbs_def)
  qed
qed

lemma Clean_idem [simp]: "Clean (Clean p) = Clean p"
proof (cases "p = []")
  case True
  then show ?thesis by (simp add: Clean_def IsAbs_def slash_def)
next
  case ne: False
  let ?es = "clean_elems (IsAbs p) [] (split_on slash (if IsAbs p then tl p else p))"
  have cl: "clean_list (IsAbs p) ?es" by (rule clean_elems_clean) simp
  have ns: "\<forall>e \<in> set ?es. slash \<notin> set e" by (auto dest: clean_elems_no_slash)
  show ?thesis
  proof (cases "?es = []")
    case True
    with ne show ?thesis by (auto simp: Clean_def IsAbs_def slash_def split: if_splits)
  next
    case False
    have id: "clean_elems (IsAbs p) [] (split_on slash (join_with [slash] ?es)) = ?es"
      using split_on_join [OF False ns] clean_elems_id [OF cl] by simp
    show ?thesis
    proof (cases "IsAbs p")
      case True
      with ne id have c: "Clean p = slash # join_with [slash] ?es" by (simp add: Clean_def)
      have "IsAbs (Clean p)" using True by simp
      with c id True show ?thesis by (simp add: Clean_def)
    next
      case nabs: False
      with ne False have c: "Clean p = join_with [slash] ?es"
        by (cases ?es) (simp_all add: Clean_def)
      have "\<not> IsAbs (Clean p)" "Clean p \<noteq> []" using nabs by simp_all
      with c id nabs False show ?thesis by (simp add: Clean_def split: list.splits)
    qed
  qed
qed

section \<open>Walking up a path terminates\<close>

definition weight :: "string list \<Rightarrow> nat" where
  "weight es = sum_list (map (\<lambda>e. Suc (length e)) es)"

lemma weight_simps [simp]:
  "weight [] = 0" "weight (e # es) = Suc (length e) + weight es"
  "weight (es @ es') = weight es + weight es'" "weight (rev es) = weight es"
  by (simp_all add: weight_def rev_map [symmetric])

lemma weight_split_on: "weight (split_on d s) = Suc (length s)"
proof (induction s)
  case (Cons c s)
  then show ?case by (cases "split_on d s") auto
qed simp

lemma length_join: "es \<noteq> [] \<Longrightarrow> Suc (length (join_with [d] es)) = weight es"
  by (induction "[d]" es rule: join_with.induct) auto

lemma weight_clean_elems: "weight (clean_elems rooted stack es) \<le> weight stack + weight es"
proof (induction rooted stack es rule: clean_elems.induct)
  case (2 rooted stack e es)
  then show ?case by (cases stack) (auto split: if_splits)
qed simp

lemma clean_elems_snoc_empty: "clean_elems rooted stack (es @ [[]]) = clean_elems rooted stack es"
  by (induction rooted stack es rule: clean_elems.induct) (auto split: list.splits)

lemma length_Clean_slash:
  assumes "s \<noteq> []"
  shows "length (Clean (s @ [slash])) \<le> length s"
proof (cases "IsAbs s")
  case True
  then obtain u where s: "s = slash # u" by (cases s) (auto simp: IsAbs_def)
  let ?es = "clean_elems True [] (split_on slash u)"
  have "weight ?es \<le> Suc (length u)"
    using weight_clean_elems [of True "[]" "split_on slash u"] by (simp add: weight_split_on)
  moreover have "length (Clean (s @ [slash])) = Suc (length (join_with [slash] ?es))"
    using s by (simp add: Clean_def IsAbs_def split_on_snoc_sep clean_elems_snoc_empty)
  ultimately show ?thesis using s length_join [of ?es slash] by (cases "?es = []") auto
next
  case False
  let ?es = "clean_elems False [] (split_on slash s)"
  have w: "weight ?es \<le> Suc (length s)"
    using weight_clean_elems [of False "[]" "split_on slash s"] by (simp add: weight_split_on)
  have "\<not> IsAbs (s @ [slash])" using False assms by (simp add: IsAbs_def)
  then have c: "Clean (s @ [slash]) = (case ?es of [] \<Rightarrow> ''.'' | es \<Rightarrow> join_with [slash] es)"
    by (simp add: Clean_def split_on_snoc_sep clean_elems_snoc_empty)
  show ?thesis
  proof (cases ?es)
    case Nil
    with c assms show ?thesis by (cases s) auto
  next
    case (Cons e es)
    with c w length_join [of ?es slash] show ?thesis by simp
  qed
qed

text \<open>
  The measure of the walk towards the root: \<open>Dir\<close> shortens every path that it changes,
  except a bare name, which it turns into \<open>.\<close>.
\<close>

definition up_measure :: "string \<Rightarrow> nat" where
  "up_measure p = (if p = ''.'' then 0 else Suc (length p))"

lemma dir_part_cases: "dir_part p = [] \<or> (\<exists>s t. dir_part p = s @ [slash] \<and> p = s @ slash # t)"
proof (cases "dropWhile (\<lambda>c. c \<noteq> slash) (rev p)")
  case (Cons c cs)
  then have "c = slash" using hd_dropWhile [of "\<lambda>c. c \<noteq> slash" "rev p"] by simp
  moreover have "rev p = takeWhile (\<lambda>c. c \<noteq> slash) (rev p) @ c # cs"
    using Cons by (metis takeWhile_dropWhile_id)
  then have "p = rev cs @ c # rev (takeWhile (\<lambda>c. c \<noteq> slash) (rev p))"
    by (metis append.assoc append_Cons append_Nil rev.simps(2) rev_append rev_rev_ident)
  ultimately show ?thesis using Cons by (auto simp: dir_part_def)
qed (simp add: dir_part_def)

lemma up_measure_Dir: "Dir p \<noteq> p \<Longrightarrow> up_measure (Dir p) < up_measure p"
proof -
  assume ne: "Dir p \<noteq> p"
  consider (bare) "dir_part p = []" | (root) t where "dir_part p = [slash]" "p = slash # t"
    | (deep) s t where "s \<noteq> []" "dir_part p = s @ [slash]" "p = s @ slash # t"
    using dir_part_cases [of p] by (metis append_Nil)
  then show ?thesis
  proof cases
    case bare
    then have "Dir p = ''.''" by (simp add: Dir_def Clean_def)
    with ne show ?thesis by (auto simp: up_measure_def)
  next
    case root
    then have "Dir p = [slash]" by (simp add: Dir_def Clean_def IsAbs_def)
    with root ne show ?thesis by (auto simp: up_measure_def slash_def)
  next
    case deep
    then have "length (Dir p) < length p"
      using length_Clean_slash [of s] by (simp add: Dir_def)
    moreover have "p \<noteq> ''.''" using deep by (cases s) auto
    ultimately show ?thesis by (simp add: up_measure_def)
  qed
qed

end
