(* ===== verification/GoErr.thy ===== *)
theory GoErr
  imports Prelude
begin

text \<open>
  Go's \<open>error\<close> values. An \<open>error\<close> that may be \<open>nil\<close> is a \<open>goerr option\<close>; a pair
  \<open>(value, error)\<close> of which the code only ever uses one half is a sum \<open>goerr + 'a\<close>.

  \<^item> A package-level \<open>errors.New\<close> variable that the program compares with \<open>errors.Is\<close> is a
    constructor of \<open>sentinel\<close>: Go compares such errors by identity.
  \<^item> \<open>ErrText\<close> is any other error without an \<open>Unwrap\<close> method.
  \<^item> \<open>ErrWrap\<close> is \<open>fmt.Errorf\<close> with \<open>%w\<close> verbs: the rendered text and the wrapped errors.
  \<^item> \<open>ErrJoin\<close> is the result of \<open>errors.Join\<close>.
\<close>

datatype sentinel =
    ErrReadOnly | ErrKeyNotInGroup | ErrSocketInUse | ErrListenerFailure
  | ErrAlreadyInstalled | ErrFailures | ErrExtensionUnsupported
  | NetErrClosed | ContextCanceled | ContextDeadlineExceeded | IoEOF
  | OsErrNotExist | SysECONNREFUSED | SysEWOULDBLOCK | SysEAGAIN | SysEPERM

datatype goerr =
    ErrSentinel sentinel
  | ErrText string
  | ErrWrap string "goerr list"
  | ErrJoin "goerr list"

text \<open>The message \<open>err.Error()\<close>, which the code inspects once (a prefix test).\<close>

fun sentinel_text :: "sentinel \<Rightarrow> string" where
  "sentinel_text ErrReadOnly = ''ssh-agent-proxy: read-only agent, request refused''"
| "sentinel_text ErrKeyNotInGroup = ''ssh-agent-proxy: key not in group''"
| "sentinel_text ErrSocketInUse = ''socket is already in use''"
| "sentinel_text ErrListenerFailure = ''terminal listener failure''"
| "sentinel_text ErrAlreadyInstalled =
     ''ssh-agent-proxy is already installed; use -reinstall to reinstall''"
| "sentinel_text ErrFailures = ''diagnostics found failures''"
| "sentinel_text ErrExtensionUnsupported = ''agent: extension unsupported''"
| "sentinel_text NetErrClosed = ''use of closed network connection''"
| "sentinel_text ContextCanceled = ''context canceled''"
| "sentinel_text ContextDeadlineExceeded = ''context deadline exceeded''"
| "sentinel_text IoEOF = ''EOF''"
| "sentinel_text OsErrNotExist = ''file does not exist''"
| "sentinel_text SysECONNREFUSED = ''connection refused''"
| "sentinel_text SysEWOULDBLOCK = ''resource temporarily unavailable''"
| "sentinel_text SysEAGAIN = ''resource temporarily unavailable''"
| "sentinel_text SysEPERM = ''operation not permitted''"

fun join_lines :: "string list \<Rightarrow> string" where
  "join_lines [] = []"
| "join_lines [s] = s"
| "join_lines (s # ss) = s @ CHR 0x0A # join_lines ss"

fun err_text :: "goerr \<Rightarrow> string" where
  "err_text (ErrSentinel s) = sentinel_text s"
| "err_text (ErrText t) = t"
| "err_text (ErrWrap t es) = t"
| "err_text (ErrJoin es) = join_lines (map err_text es)"

text \<open>\<open>errors.Is\<close> against a sentinel: a search of the tree of wrapped errors.\<close>

fun errors_Is :: "goerr \<Rightarrow> sentinel \<Rightarrow> bool" where
  "errors_Is (ErrSentinel s) t \<longleftrightarrow> s = t"
| "errors_Is (ErrText m) t \<longleftrightarrow> False"
| "errors_Is (ErrWrap m es) t \<longleftrightarrow> (\<exists>e \<in> set es. errors_Is e t)"
| "errors_Is (ErrJoin es) t \<longleftrightarrow> (\<exists>e \<in> set es. errors_Is e t)"

fun err_is :: "goerr option \<Rightarrow> sentinel \<Rightarrow> bool" where
  "err_is None t \<longleftrightarrow> False"
| "err_is (Some e) t \<longleftrightarrow> errors_Is e t"

text \<open>
  \<open>os.IsNotExist\<close>, which the program applies to errors that come straight from an \<open>os\<close>
  or \<open>filepath\<close> call, where it agrees with \<open>errors.Is(err, os.ErrNotExist)\<close>.
\<close>

definition os_IsNotExist :: "goerr \<Rightarrow> bool" where
  "os_IsNotExist e \<longleftrightarrow> errors_Is e OsErrNotExist"

text \<open>\<open>errors.Join\<close> drops nil errors and returns nil when none is left.\<close>

definition errors_Join :: "goerr option list \<Rightarrow> goerr option" where
  "errors_Join es =
     (let es' = List.map_filter id es in if es' = [] then None else Some (ErrJoin es'))"

lemma set_map_filter_id [simp]: "set (List.map_filter id es) = {e. Some e \<in> set es}"
  by (induction es) (auto simp: List.map_filter_def split: if_splits)

lemma map_filter_id_empty: "List.map_filter id es = [] \<longleftrightarrow> set es \<subseteq> {None}"
  by (induction es) (auto simp: List.map_filter_def split: if_splits)

lemma errors_Join_None_iff: "errors_Join es = None \<longleftrightarrow> set es \<subseteq> {None}"
  by (simp add: errors_Join_def Let_def map_filter_id_empty)

lemma errors_Join_is:
  "err_is (errors_Join es) t \<longleftrightarrow> (\<exists>e. Some e \<in> set es \<and> errors_Is e t)"
  by (auto simp: errors_Join_def Let_def map_filter_id_empty)

lemma errors_Join_nil [simp]: "errors_Join [None, e] = map_option (\<lambda>x. ErrJoin [x]) e"
  by (cases e) (simp_all add: errors_Join_def List.map_filter_def)

lemma errors_Join_None2 [simp]: "errors_Join [None, None] = None"
  by simp

lemma errors_Join_no_sentinel [simp]: "errors_Join es \<noteq> Some (ErrSentinel x)"
  by (simp add: errors_Join_def Let_def)

end
