(* ===== verification/Config.thy ===== *)
theory Config
  imports Keys GoPath GoErr
begin

text \<open>
  The package \<open>internal/config\<close>: the configuration records, the checks of \<open>resolve\<close> and
  the canonicalisation of socket paths.

  Parameters: \<open>evalsym\<close> is \<open>filepath.EvalSymlinks\<close> on the machine's file system,
  \<open>ulower\<close> the Unicode lower-case table, and, for \<open>Load\<close>, \<open>readFile\<close> is \<open>os.ReadFile\<close>
  and \<open>yamlDecode\<close> the strict YAML decoder. The message of each error is a constructor of
  \<open>config_error\<close> with the values the code prints.
\<close>

record key_entry =
  ke_Comment :: "string option"
  ke_MD5 :: "string option"
  ke_SHA256 :: "string option"

record group =
  g_Name :: string
  g_Enabled :: "bool option"
  g_Socket :: string
  g_Keys :: "key_entry list"
  g_matchers :: "matcher list"

record config =
  c_Upstream :: string
  c_Debug :: bool
  c_Groups :: "group list"

datatype key_error = NotExactlyOneForm | BadMatcher matcher_error

datatype config_error =
    ReadingConfig goerr
  | ParsingConfig goerr
  | UpstreamRequired
  | UpstreamNotAbsolute string
  | ResolvingUpstream goerr
  | NameRequired nat
  | DuplicateName string
  | SocketRequired string
  | SocketNotAbsolute string string
  | ResolvingSocket string goerr
  | SocketConflictsWithUpstream string string
  | SameSocketPath string string
  | BadKeyEntry string nat key_error

definition Matchers :: "group \<Rightarrow> matcher list" where
  "Matchers g = g_matchers g"

definition IsEnabled :: "group \<Rightarrow> bool" where
  "IsEnabled g \<longleftrightarrow> (case g_Enabled g of None \<Rightarrow> True | Some b \<Rightarrow> b)"

section \<open>Key entries\<close>

definition ke_matcher :: "(string \<Rightarrow> string) \<Rightarrow> key_entry \<Rightarrow> key_error + matcher" where
  "ke_matcher ulower ke =
     (let typ = ''''; value = ''''; count = (0::nat);
          (typ, value, count) = (case ke_Comment ke of
             Some v \<Rightarrow> (''comment'', v, Suc count) | None \<Rightarrow> (typ, value, count));
          (typ, value, count) = (case ke_MD5 ke of
             Some v \<Rightarrow> (''md5'', v, Suc count) | None \<Rightarrow> (typ, value, count));
          (typ, value, count) = (case ke_SHA256 ke of
             Some v \<Rightarrow> (''sha256'', v, Suc count) | None \<Rightarrow> (typ, value, count))
      in if count \<noteq> 1 then Inl NotExactlyOneForm
         else (case NewMatcher ulower typ value of
                 Inl e \<Rightarrow> Inl (BadMatcher e) | Inr m \<Rightarrow> Inr m))"

fun compile_keys :: "(string \<Rightarrow> string) \<Rightarrow> string \<Rightarrow> nat \<Rightarrow> key_entry list \<Rightarrow> matcher list
    \<Rightarrow> config_error + matcher list" where
  "compile_keys ulower name j [] matchers = Inr matchers"
| "compile_keys ulower name j (ke # kes) matchers =
     (case ke_matcher ulower ke of
        Inl e \<Rightarrow> Inl (BadKeyEntry name (Suc j) e)
      | Inr m \<Rightarrow> compile_keys ulower name (Suc j) kes (matchers @ [m]))"

section \<open>Canonical socket paths\<close>

function canonical_loop :: "(string \<Rightarrow> goerr + string) \<Rightarrow> string \<Rightarrow> string \<Rightarrow> string list
    \<Rightarrow> goerr + string" where
  "canonical_loop evalsym cleaned current missing =
     (case evalsym current of
        Inr resolved \<Rightarrow>
          Inr (Clean (foldl (\<lambda>r m. Join [r, m]) resolved (rev missing)))
      | Inl err \<Rightarrow>
          if \<not> os_IsNotExist err then Inl err
          else (let parent = Dir current
                in if parent = current then Inr cleaned
                   else canonical_loop evalsym cleaned parent (missing @ [Base current])))"
  by pat_completeness auto
termination
  by (relation "measure (\<lambda>(_, _, current, _). up_measure current)") (auto simp: up_measure_Dir)

declare canonical_loop.simps [simp del]

definition canonicalSocketPath :: "(string \<Rightarrow> goerr + string) \<Rightarrow> string \<Rightarrow> goerr + string" where
  "canonicalSocketPath evalsym path =
     (let cleaned = Clean path in canonical_loop evalsym cleaned cleaned [])"

section \<open>resolve\<close>

definition requireAbsolute :: "string \<Rightarrow> config_error \<Rightarrow> config_error option" where
  "requireAbsolute p err = (if IsAbs p then None else Some err)"

text \<open>
  The check of an enabled group's socket: against the upstream path, then against the
  sockets of the groups before it. It returns the extended \<open>seenSockets\<close>.
\<close>

definition check_socket :: "(string \<Rightarrow> goerr + string) \<Rightarrow> string \<Rightarrow> string \<Rightarrow> group
    \<Rightarrow> (string, string) mapping \<Rightarrow> config_error + (string, string) mapping" where
  "check_socket evalsym upstream upstreamPath g seenSockets =
     (if \<not> IsEnabled g then Inr seenSockets
      else case canonicalSocketPath evalsym (g_Socket g) of
        Inl err \<Rightarrow> Inl (ResolvingSocket (g_Name g) err)
      | Inr socketPath \<Rightarrow>
          if socketPath = upstreamPath
          then Inl (SocketConflictsWithUpstream (g_Name g) upstream)
          else (case Mapping.lookup seenSockets socketPath of
                  Some other \<Rightarrow> Inl (SameSocketPath other (g_Name g))
                | None \<Rightarrow> Inr (Mapping.update socketPath (g_Name g) seenSockets)))"

definition resolve_group :: "(string \<Rightarrow> goerr + string) \<Rightarrow> (string \<Rightarrow> string) \<Rightarrow> string \<Rightarrow> string
    \<Rightarrow> nat \<Rightarrow> group \<Rightarrow> (string, bool) mapping \<Rightarrow> (string, string) mapping
    \<Rightarrow> config_error + (group \<times> (string, bool) mapping \<times> (string, string) mapping)" where
  "resolve_group evalsym ulower upstream upstreamPath i g seenNames seenSockets =
     (if is_blank (g_Name g) then Inl (NameRequired (Suc i))
      else if Mapping.lookup seenNames (g_Name g) = Some True then Inl (DuplicateName (g_Name g))
      else let seenNames = Mapping.update (g_Name g) True seenNames in
      if is_blank (g_Socket g) then Inl (SocketRequired (g_Name g))
      else case requireAbsolute (g_Socket g) (SocketNotAbsolute (g_Name g) (g_Socket g)) of
        Some err \<Rightarrow> Inl err
      | None \<Rightarrow>
          let g = g\<lparr>g_Socket := Clean (g_Socket g)\<rparr> in
          (case check_socket evalsym upstream upstreamPath g seenSockets of
             Inl err \<Rightarrow> Inl err
           | Inr seenSockets \<Rightarrow>
               (case compile_keys ulower (g_Name g) 0 (g_Keys g) [] of
                  Inl err \<Rightarrow> Inl err
                | Inr ms \<Rightarrow> Inr (g\<lparr>g_matchers := ms\<rparr>, seenNames, seenSockets))))"

fun resolve_groups :: "(string \<Rightarrow> goerr + string) \<Rightarrow> (string \<Rightarrow> string) \<Rightarrow> string \<Rightarrow> string
    \<Rightarrow> nat \<Rightarrow> group list \<Rightarrow> (string, bool) mapping \<Rightarrow> (string, string) mapping
    \<Rightarrow> config_error + group list" where
  "resolve_groups evalsym ulower upstream upstreamPath i [] seenNames seenSockets = Inr []"
| "resolve_groups evalsym ulower upstream upstreamPath i (g # gs) seenNames seenSockets =
     (case resolve_group evalsym ulower upstream upstreamPath i g seenNames seenSockets of
        Inl err \<Rightarrow> Inl err
      | Inr (g', seenNames', seenSockets') \<Rightarrow>
          (case resolve_groups evalsym ulower upstream upstreamPath (Suc i) gs
                  seenNames' seenSockets' of
             Inl err \<Rightarrow> Inl err
           | Inr gs' \<Rightarrow> Inr (g' # gs')))"

definition resolve :: "(string \<Rightarrow> goerr + string) \<Rightarrow> (string \<Rightarrow> string) \<Rightarrow> config
    \<Rightarrow> config_error + config" where
  "resolve evalsym ulower c =
     (if is_blank (c_Upstream c) then Inl UpstreamRequired
      else case requireAbsolute (c_Upstream c) (UpstreamNotAbsolute (c_Upstream c)) of
        Some err \<Rightarrow> Inl err
      | None \<Rightarrow>
          let c = c\<lparr>c_Upstream := Clean (c_Upstream c)\<rparr> in
          (case canonicalSocketPath evalsym (c_Upstream c) of
             Inl err \<Rightarrow> Inl (ResolvingUpstream err)
           | Inr upstreamPath \<Rightarrow>
               (case resolve_groups evalsym ulower (c_Upstream c) upstreamPath 0 (c_Groups c)
                       Mapping.empty Mapping.empty of
                  Inl err \<Rightarrow> Inl err
                | Inr gs \<Rightarrow> Inr (c\<lparr>c_Groups := gs\<rparr>))))"

definition Load :: "(string \<Rightarrow> goerr + string) \<Rightarrow> (string \<Rightarrow> goerr + config)
    \<Rightarrow> (string \<Rightarrow> goerr + string) \<Rightarrow> (string \<Rightarrow> string) \<Rightarrow> string \<Rightarrow> config_error + config" where
  "Load readFile yamlDecode evalsym ulower path =
     (case readFile path of
        Inl err \<Rightarrow> Inl (ReadingConfig err)
      | Inr data \<Rightarrow>
          (case yamlDecode data of
             Inl err \<Rightarrow> Inl (ParsingConfig err)
           | Inr cfg \<Rightarrow> resolve evalsym ulower cfg))"

section \<open>The declarative contract of resolve\<close>

definition is_ok :: "'e + 'a \<Rightarrow> bool" where
  "is_ok r \<longleftrightarrow> (\<exists>x. r = Inr x)"

lemma is_ok_simps [simp]: "is_ok (Inr x)" "\<not> is_ok (Inl e)"
  by (simp_all add: is_ok_def)

lemma is_ok_projr: "is_ok r \<Longrightarrow> r = Inr (projr r)"
  by (auto simp: is_ok_def)

definition group_valid :: "(string \<Rightarrow> goerr + string) \<Rightarrow> (string \<Rightarrow> string) \<Rightarrow> group \<Rightarrow> bool" where
  "group_valid evalsym ulower g \<longleftrightarrow>
     \<not> is_blank (g_Name g) \<and> \<not> is_blank (g_Socket g) \<and> IsAbs (g_Socket g) \<and>
     (IsEnabled g \<longrightarrow> is_ok (canonicalSocketPath evalsym (g_Socket g))) \<and>
     list_all (\<lambda>ke. is_ok (ke_matcher ulower ke)) (g_Keys g)"

definition socket_paths :: "(string \<Rightarrow> goerr + string) \<Rightarrow> group list \<Rightarrow> string list" where
  "socket_paths evalsym gs =
     map (\<lambda>g. projr (canonicalSocketPath evalsym (g_Socket g))) (filter IsEnabled gs)"

definition config_valid :: "(string \<Rightarrow> goerr + string) \<Rightarrow> (string \<Rightarrow> string) \<Rightarrow> config \<Rightarrow> bool" where
  "config_valid evalsym ulower c \<longleftrightarrow>
     \<not> is_blank (c_Upstream c) \<and> IsAbs (c_Upstream c) \<and>
     is_ok (canonicalSocketPath evalsym (c_Upstream c)) \<and>
     list_all (group_valid evalsym ulower) (c_Groups c) \<and>
     distinct (map g_Name (c_Groups c)) \<and>
     distinct (projr (canonicalSocketPath evalsym (c_Upstream c)) #
               socket_paths evalsym (c_Groups c))"

definition resolved_group :: "(string \<Rightarrow> string) \<Rightarrow> group \<Rightarrow> group" where
  "resolved_group ulower g =
     g\<lparr>g_Socket := Clean (g_Socket g), g_matchers := map (projr \<circ> ke_matcher ulower) (g_Keys g)\<rparr>"

definition resolved :: "(string \<Rightarrow> string) \<Rightarrow> config \<Rightarrow> config" where
  "resolved ulower c =
     c\<lparr>c_Upstream := Clean (c_Upstream c), c_Groups := map (resolved_group ulower) (c_Groups c)\<rparr>"

lemma canonical_Clean [simp]:
  "canonicalSocketPath evalsym (Clean p) = canonicalSocketPath evalsym p"
  by (simp add: canonicalSocketPath_def)

lemma IsEnabled_resolved [simp]: "IsEnabled (resolved_group ulower g) = IsEnabled g"
  by (simp add: IsEnabled_def resolved_group_def)

lemma IsEnabled_update [simp]:
  "IsEnabled (g\<lparr>g_Socket := s\<rparr>) = IsEnabled g"
  "IsEnabled (g\<lparr>g_matchers := ms\<rparr>) = IsEnabled g"
  by (simp_all add: IsEnabled_def)

lemma compile_keys_spec:
  "compile_keys ulower name j kes ms = Inr ms' \<longleftrightarrow>
     list_all (\<lambda>ke. is_ok (ke_matcher ulower ke)) kes \<and>
     ms' = ms @ map (projr \<circ> ke_matcher ulower) kes"
proof (induction kes arbitrary: j ms)
  case (Cons ke kes)
  then show ?case by (cases "ke_matcher ulower ke") auto
qed auto

lemma check_socket_spec:
  "check_socket evalsym up upPath g seen = Inr seen' \<longleftrightarrow>
     (if IsEnabled g
      then is_ok (canonicalSocketPath evalsym (g_Socket g)) \<and>
           (let p = projr (canonicalSocketPath evalsym (g_Socket g)) in
              p \<noteq> upPath \<and> Mapping.lookup seen p = None \<and>
              seen' = Mapping.update p (g_Name g) seen)
      else seen' = seen)"
  by (cases "canonicalSocketPath evalsym (g_Socket g)")
    (auto simp: check_socket_def split: option.splits)

lemma resolve_group_spec:
  "resolve_group evalsym ulower up upPath i g seenN seenS = Inr (g', seenN', seenS') \<longleftrightarrow>
     group_valid evalsym ulower g \<and> Mapping.lookup seenN (g_Name g) \<noteq> Some True \<and>
     seenN' = Mapping.update (g_Name g) True seenN \<and>
     check_socket evalsym up upPath (g\<lparr>g_Socket := Clean (g_Socket g)\<rparr>) seenS = Inr seenS' \<and>
     g' = resolved_group ulower g"
proof -
  let ?g = "g\<lparr>g_Socket := Clean (g_Socket g)\<rparr>"
  have ok: "check_socket evalsym up upPath ?g seenS = Inr s \<Longrightarrow>
     IsEnabled g \<Longrightarrow> is_ok (canonicalSocketPath evalsym (g_Socket g))" for s
    by (simp add: check_socket_spec)
  show ?thesis
  proof (cases "compile_keys ulower (g_Name g) 0 (g_Keys g) []")
    case (Inl err)
    then have "\<not> list_all (\<lambda>ke. is_ok (ke_matcher ulower ke)) (g_Keys g)"
      using compile_keys_spec [of ulower "g_Name g" 0 "g_Keys g" "[]"] by auto
    with Inl show ?thesis
      by (auto simp: resolve_group_def requireAbsolute_def group_valid_def Let_def split: sum.splits)
  next
    case (Inr ms)
    then show ?thesis
      using compile_keys_spec [of ulower "g_Name g" 0 "g_Keys g" "[]" ms] ok
      by (auto simp: resolve_group_def requireAbsolute_def group_valid_def resolved_group_def Let_def
          split: sum.splits)
  qed
qed

text \<open>
  The loop invariant: \<open>seenNames\<close> holds the names and \<open>seenSockets\<close> the canonical socket
  paths of the groups already accepted.
\<close>

lemma resolve_groups_spec:
  "(\<forall>n. Mapping.lookup seenN n = (if n \<in> ns then Some True else None)) \<Longrightarrow>
   (\<forall>p. Mapping.lookup seenS p = None \<longleftrightarrow> p \<notin> ps) \<Longrightarrow>
   resolve_groups evalsym ulower up upPath i gs seenN seenS = Inr gs' \<longleftrightarrow>
     list_all (group_valid evalsym ulower) gs \<and> distinct (map g_Name gs) \<and>
     g_Name ` set gs \<inter> ns = {} \<and> distinct (upPath # socket_paths evalsym gs) \<and>
     set (socket_paths evalsym gs) \<inter> ps = {} \<and> gs' = map (resolved_group ulower) gs"
proof (induction gs arbitrary: i seenN seenS ns ps gs')
  case Nil
  then show ?case by (auto simp: socket_paths_def)
next
  case (Cons g gs)
  let ?p = "projr (canonicalSocketPath evalsym (g_Socket g))"
  let ?seenN = "Mapping.update (g_Name g) True seenN"
  let ?seenS = "if IsEnabled g then Mapping.update ?p (g_Name g) seenS else seenS"
  let ?ps = "if IsEnabled g then insert ?p ps else ps"
  let ?ok = "group_valid evalsym ulower g \<and> g_Name g \<notin> ns \<and> (IsEnabled g \<longrightarrow> ?p \<noteq> upPath \<and> ?p \<notin> ps)"
  have N: "\<forall>n. Mapping.lookup ?seenN n = (if n \<in> insert (g_Name g) ns then Some True else None)"
    using Cons.prems(1) by (simp add: go_simps)
  have S: "\<forall>p. Mapping.lookup ?seenS p = None \<longleftrightarrow> p \<notin> ?ps"
    using Cons.prems(2) by (simp add: go_simps)
  have step: "resolve_group evalsym ulower up upPath i g seenN seenS = Inr r \<longleftrightarrow>
      ?ok \<and> r = (resolved_group ulower g, ?seenN, ?seenS)" for r
    using Cons.prems
    by (cases r) (auto simp: resolve_group_spec check_socket_spec group_valid_def Let_def)
  have "resolve_groups evalsym ulower up upPath i (g # gs) seenN seenS = Inr gs' \<longleftrightarrow>
      ?ok \<and> (\<exists>hs. resolve_groups evalsym ulower up upPath (Suc i) gs ?seenN ?seenS = Inr hs \<and>
                 gs' = resolved_group ulower g # hs)"
  proof (cases ?ok)
    case True
    with step have "resolve_group evalsym ulower up upPath i g seenN seenS =
      Inr (resolved_group ulower g, ?seenN, ?seenS)" by blast
    with True show ?thesis by (auto split: sum.splits)
  next
    case False
    with step obtain e where "resolve_group evalsym ulower up upPath i g seenN seenS = Inl e"
      by (cases "resolve_group evalsym ulower up upPath i g seenN seenS") blast+
    with False show ?thesis by auto
  qed
  also have "\<dots> \<longleftrightarrow> list_all (group_valid evalsym ulower) (g # gs) \<and> distinct (map g_Name (g # gs)) \<and>
     g_Name ` set (g # gs) \<inter> ns = {} \<and> distinct (upPath # socket_paths evalsym (g # gs)) \<and>
     set (socket_paths evalsym (g # gs)) \<inter> ps = {} \<and> gs' = map (resolved_group ulower) (g # gs)"
    unfolding Cons.IH [OF N S] by (auto simp: socket_paths_def)
  finally show ?case .
qed

lemma resolve_spec_lemma:
  "resolve evalsym ulower c = Inr c' \<longleftrightarrow>
     config_valid evalsym ulower c \<and> c' = resolved ulower c"
proof -
  have groups: "resolve_groups evalsym ulower up upPath 0 (c_Groups c) Mapping.empty Mapping.empty =
      Inr gs' \<longleftrightarrow>
     list_all (group_valid evalsym ulower) (c_Groups c) \<and> distinct (map g_Name (c_Groups c)) \<and>
     distinct (upPath # socket_paths evalsym (c_Groups c)) \<and>
     gs' = map (resolved_group ulower) (c_Groups c)" for up upPath gs'
    using resolve_groups_spec [of "Mapping.empty" "{}" "Mapping.empty" "{}" evalsym ulower up upPath 0
      "c_Groups c" gs'] by (simp add: go_simps)
  show ?thesis
  proof (cases "canonicalSocketPath evalsym (c_Upstream c)")
    case (Inl err)
    then show ?thesis
      by (simp add: resolve_def requireAbsolute_def config_valid_def Let_def)
  next
    case (Inr upPath)
    show ?thesis
    proof (cases "resolve_groups evalsym ulower (Clean (c_Upstream c)) upPath 0 (c_Groups c)
        Mapping.empty Mapping.empty")
      case err: (Inl err)
      with Inr groups [of "Clean (c_Upstream c)" upPath "map (resolved_group ulower) (c_Groups c)"]
      have "\<not> config_valid evalsym ulower c" by (auto simp: config_valid_def)
      with Inr err show ?thesis by (simp add: resolve_def requireAbsolute_def Let_def)
    next
      case ok: (Inr gs')
      with Inr groups [of "Clean (c_Upstream c)" upPath gs'] show ?thesis
        by (auto simp: resolve_def requireAbsolute_def config_valid_def resolved_def Let_def)
    qed
  qed
qed

section \<open>Properties\<close>

lemma not_blank_IsAbs: "IsAbs p \<Longrightarrow> \<not> is_blank p"
proof -
  assume "IsAbs p"
  then obtain q where p: "p = slash # q" by (cases p) (auto simp: IsAbs_def)
  have "slash \<notin> \<Union> (set ` set space_runes)" by (simp add: slash_def space_runes_def)
  then have "slash \<in> set (trim_space p)"
    by (rule trim_space_keeps) (simp add: p)
  then show ?thesis by (auto simp: is_blank_def)
qed

lemma resolved_group_idem [simp]:
  "resolved_group ulower (resolved_group ulower g) = resolved_group ulower g"
  by (simp add: resolved_group_def)

lemma socket_paths_resolved [simp]:
  "socket_paths evalsym (map (resolved_group ulower) gs) = socket_paths evalsym gs"
  by (simp add: socket_paths_def filter_map comp_def) (simp add: resolved_group_def)

lemma group_valid_resolved:
  "group_valid evalsym ulower g \<Longrightarrow> group_valid evalsym ulower (resolved_group ulower g)"
  by (auto simp: group_valid_def resolved_group_def IsEnabled_def not_blank_IsAbs)

lemma config_valid_resolved:
  "config_valid evalsym ulower c \<Longrightarrow> config_valid evalsym ulower (resolved ulower c)"
proof -
  assume v: "config_valid evalsym ulower c"
  have "map g_Name (map (resolved_group ulower) (c_Groups c)) = map g_Name (c_Groups c)"
    by (simp add: resolved_group_def)
  with v show ?thesis
    by (auto simp: config_valid_def resolved_def list_all_iff not_blank_IsAbs group_valid_resolved
        simp del: map_map)
qed

text \<open>
  Property C15. \<open>resolve\<close> accepts a configuration exactly when it meets the declarative
  contract: upstream set and absolute, every group named, uniquely, with an absolute
  socket and well-formed keys, and the canonical paths of the upstream and of the enabled
  groups' sockets pairwise distinct. The accepted configuration has every path cleaned and
  every key entry compiled to its matcher, and nothing else changed.
\<close>

theorem resolve_accepts_exactly:
  "resolve evalsym ulower c = Inr c' \<longleftrightarrow>
     config_valid evalsym ulower c \<and> c' = resolved ulower c"
  by (rule resolve_spec_lemma)

text \<open>
  Resolving an already resolved configuration succeeds and changes nothing.
\<close>

theorem resolve_idempotent:
  assumes "resolve evalsym ulower c = Inr c'"
  shows "resolve evalsym ulower c' = Inr c'"
proof -
  from assms have "config_valid evalsym ulower c" and c': "c' = resolved ulower c"
    by (simp_all add: resolve_spec_lemma)
  then have "config_valid evalsym ulower c'" by (simp add: config_valid_resolved)
  moreover have "resolved ulower c' = c'" using c' by (simp add: resolved_def comp_def)
  ultimately show ?thesis by (simp add: resolve_spec_lemma)
qed

text \<open>
  Property C16. A configuration \<open>Load\<close> returns is safe to serve. The upstream path is
  absolute, clean and canonicalises. No two groups, enabled or not, have the same name; every
  group has a name that is not blank, a socket path that is absolute and clean, and for each of
  its key entries, in order, the matcher that entry compiles to. The socket of every enabled
  group canonicalises, neither to the canonical path of the upstream agent nor to that of
  another enabled group's socket.
\<close>

theorem load_sockets_disjoint:
  assumes "Load readFile yamlDecode evalsym ulower path = Inr c"
  shows "IsAbs (c_Upstream c) \<and> Clean (c_Upstream c) = c_Upstream c \<and>
    is_ok (canonicalSocketPath evalsym (c_Upstream c)) \<and> distinct (map g_Name (c_Groups c)) \<and>
    (\<forall>g \<in> set (c_Groups c).
       \<not> is_blank (g_Name g) \<and> IsAbs (g_Socket g) \<and> Clean (g_Socket g) = g_Socket g \<and>
       map Inr (Matchers g) = map (ke_matcher ulower) (g_Keys g) \<and>
       (IsEnabled g \<longrightarrow> is_ok (canonicalSocketPath evalsym (g_Socket g)) \<and>
          canonicalSocketPath evalsym (g_Socket g) \<noteq> canonicalSocketPath evalsym (c_Upstream c))) \<and>
    (\<forall>i j. i < length (c_Groups c) \<and> j < length (c_Groups c) \<and> i \<noteq> j \<and>
       IsEnabled (c_Groups c ! i) \<and> IsEnabled (c_Groups c ! j) \<longrightarrow>
       canonicalSocketPath evalsym (g_Socket (c_Groups c ! i)) \<noteq>
       canonicalSocketPath evalsym (g_Socket (c_Groups c ! j)))"
proof -
  from assms obtain d where d: "resolve evalsym ulower d = Inr c"
    by (auto simp: Load_def split: sum.splits)
  then have v: "config_valid evalsym ulower c" and c: "c = resolved ulower d"
    by (auto simp: resolve_spec_lemma config_valid_resolved)
  let ?gs = "c_Groups c" and ?can = "\<lambda>g. canonicalSocketPath evalsym (g_Socket g)"
  have valid: "group_valid evalsym ulower g" "Clean (g_Socket g) = g_Socket g"
    "map Inr (Matchers g) = map (ke_matcher ulower) (g_Keys g)" if "g \<in> set ?gs" for g
  proof -
    show ok: "group_valid evalsym ulower g" using v that by (simp add: config_valid_def list_all_iff)
    from that c obtain g0 where g: "g = resolved_group ulower g0" by (auto simp: resolved_def)
    then show "Clean (g_Socket g) = g_Socket g" by (simp add: resolved_group_def)
    from ok g show "map Inr (Matchers g) = map (ke_matcher ulower) (g_Keys g)"
      by (auto simp: Matchers_def resolved_group_def group_valid_def list_all_iff simp flip: is_ok_projr)
  qed
  have up: "?can g \<noteq> canonicalSocketPath evalsym (c_Upstream c)" if "g \<in> set ?gs" "IsEnabled g" for g
    using v that by (force simp: config_valid_def socket_paths_def)
  have socks: "?can (?gs ! i) \<noteq> ?can (?gs ! j)"
    if "i < length ?gs" "j < length ?gs" "i \<noteq> j" "IsEnabled (?gs ! i)" "IsEnabled (?gs ! j)" for i j
    using distinct_map_filter_nth [of "\<lambda>g. projr (?can g)" IsEnabled ?gs i j] v that
    by (auto simp: config_valid_def socket_paths_def)
  show ?thesis using v c valid up socks by (auto simp: config_valid_def group_valid_def resolved_def)
qed

text \<open>Witnesses: a two-group configuration on a file system where nothing exists yet.\<close>

definition no_files :: "string \<Rightarrow> goerr + string" where
  "no_files p = Inl (ErrSentinel OsErrNotExist)"

definition sample_group :: "string \<Rightarrow> string \<Rightarrow> group" where
  "sample_group n s = \<lparr>g_Name = n, g_Enabled = None, g_Socket = s,
     g_Keys = [\<lparr>ke_Comment = Some ''laptop'', ke_MD5 = None, ke_SHA256 = None\<rparr>], g_matchers = []\<rparr>"

definition sample_config :: config where
  "sample_config = \<lparr>c_Upstream = ''/a'', c_Debug = False,
     c_Groups = [sample_group ''w'' ''/w/../x'', sample_group ''p'' ''/p'']\<rparr>"

lemma canonical_no_files: "canonicalSocketPath no_files p = Inr (Clean p)"
proof -
  have "canonical_loop no_files cl cur ms = Inr cl" for cl cur ms
  proof (induction no_files cl cur ms rule: canonical_loop.induct)
    case (1 cl cur ms)
    then show ?case
      by (simp add: canonical_loop.simps [of no_files cl cur ms] no_files_def os_IsNotExist_def Let_def)
  qed
  then show ?thesis by (simp add: canonicalSocketPath_def Let_def)
qed

lemma sample_config_valid: "config_valid no_files id sample_config"
  by (simp add: config_valid_def sample_config_def sample_group_def group_valid_def canonical_no_files
      socket_paths_def IsEnabled_def IsAbs_def slash_def not_blank_IsAbs not_blank_letter is_ascii_def
      Clean_def ke_matcher_def NewMatcher_def match_type_defs)

theorem resolve_idempotent_witness:
  "resolve no_files id (resolved id sample_config) = Inr (resolved id sample_config)"
  by (rule resolve_idempotent [of no_files id sample_config])
    (simp add: resolve_spec_lemma sample_config_valid)

theorem load_sockets_disjoint_witness:
  "\<exists>c. Load (\<lambda>p. Inr []) (\<lambda>d. Inr sample_config) no_files id ''cfg'' = Inr c \<and>
     canonicalSocketPath no_files (g_Socket (c_Groups c ! 0)) \<noteq>
     canonicalSocketPath no_files (g_Socket (c_Groups c ! 1))"
proof -
  let ?c = "resolved id sample_config"
  have l: "Load (\<lambda>p. Inr []) (\<lambda>d. Inr sample_config) no_files id ''cfg'' = Inr ?c"
    by (simp add: Load_def resolve_spec_lemma sample_config_valid)
  have n: "length (c_Groups ?c) = 2" and en: "IsEnabled (c_Groups ?c ! 0)" "IsEnabled (c_Groups ?c ! 1)"
    by (simp_all add: resolved_def sample_config_def sample_group_def IsEnabled_def resolved_group_def)
  from load_sockets_disjoint [OF l] n en
  have "canonicalSocketPath no_files (g_Socket (c_Groups ?c ! 0)) \<noteq>
     canonicalSocketPath no_files (g_Socket (c_Groups ?c ! 1))" by auto
  with l show ?thesis by blast
qed

end
