(* ===== verification/Telemetry.thy ===== *)
theory Telemetry
  imports Prelude "HOL-Library.Word"
begin

text \<open>
  \<open>internal/proxy/telemetry.go\<close>: the process-wide activity counters. A counter is a
  \<open>uint64\<close>, whose additions wrap. The pointer \<open>t *proxyTelemetry\<close> may be nil, in which
  case every operation does nothing: a \<open>proxy_telemetry option\<close>.
\<close>

type_synonym u64 = "64 word"

record proxy_telemetry =
  activeClients :: u64
  maxActiveClients :: u64
  clientConnections :: u64
  clientErrors :: u64
  listRequests :: u64
  listErrors :: u64
  signRequests :: u64
  signErrors :: u64
  upstreamCalls :: u64
  upstreamErrors :: u64
  upstreamReconnects :: u64
  cacheHits :: u64
  cacheMisses :: u64
  cacheRefreshes :: u64
  cacheWaits :: u64

definition zero_telemetry :: proxy_telemetry where
  "zero_telemetry = \<lparr>activeClients = 0, maxActiveClients = 0, clientConnections = 0,
     clientErrors = 0, listRequests = 0, listErrors = 0, signRequests = 0, signErrors = 0,
     upstreamCalls = 0, upstreamErrors = 0, upstreamReconnects = 0,
     cacheHits = 0, cacheMisses = 0, cacheRefreshes = 0, cacheWaits = 0\<rparr>"

definition newProxyTelemetry :: "bool \<Rightarrow> proxy_telemetry option" where
  "newProxyTelemetry debugEnabled = (if \<not> debugEnabled then None else Some zero_telemetry)"

definition clientConnected :: "proxy_telemetry \<Rightarrow> proxy_telemetry" where
  "clientConnected t =
     (let t = t\<lparr>clientConnections := clientConnections t + 1\<rparr>;
          t = t\<lparr>activeClients := activeClients t + 1\<rparr>
      in t\<lparr>maxActiveClients := max (maxActiveClients t) (activeClients t)\<rparr>)"

definition clientDisconnected :: "proxy_telemetry \<Rightarrow> proxy_telemetry" where
  "clientDisconnected t =
     (if activeClients t > 0 then t\<lparr>activeClients := activeClients t - 1\<rparr> else t)"

definition clientSnapshot :: "proxy_telemetry \<Rightarrow> (u64 \<times> u64) \<times> proxy_telemetry" where
  "clientSnapshot t =
     (let current = activeClients t; maximum = maxActiveClients t
      in ((current, maximum), t\<lparr>maxActiveClients := current\<rparr>))"

definition upstreamCall :: "bool \<Rightarrow> proxy_telemetry \<Rightarrow> proxy_telemetry" where
  "upstreamCall failed t =
     (let t = t\<lparr>upstreamCalls := upstreamCalls t + 1\<rparr>
      in if failed then t\<lparr>upstreamErrors := upstreamErrors t + 1\<rparr> else t)"

text \<open>
  \<open>logReport\<close> emits three records and swaps every interval counter with zero; the result
  is the emitted values in the order they are logged.
\<close>

definition logReport :: "proxy_telemetry \<Rightarrow> u64 list \<times> proxy_telemetry" where
  "logReport t =
     (let ((active, maxActive), t) = clientSnapshot t
      in ([active, maxActive, clientConnections t, clientErrors t, listRequests t, listErrors t,
           signRequests t, signErrors t, upstreamCalls t, upstreamErrors t, upstreamReconnects t,
           cacheHits t, cacheMisses t, cacheRefreshes t, cacheWaits t],
          t\<lparr>clientConnections := 0, clientErrors := 0, listRequests := 0, listErrors := 0,
            signRequests := 0, signErrors := 0, upstreamCalls := 0, upstreamErrors := 0,
            upstreamReconnects := 0, cacheHits := 0, cacheMisses := 0, cacheRefreshes := 0,
            cacheWaits := 0\<rparr>))"

text \<open>The single-counter events of the other components, \<open>if t != nil { t.c.Add(1) }\<close>.\<close>

definition addListRequest where "addListRequest t = t\<lparr>listRequests := listRequests t + 1\<rparr>"
definition addListError where "addListError t = t\<lparr>listErrors := listErrors t + 1\<rparr>"
definition addSignRequest where "addSignRequest t = t\<lparr>signRequests := signRequests t + 1\<rparr>"
definition addSignError where "addSignError t = t\<lparr>signErrors := signErrors t + 1\<rparr>"
definition addReconnect where "addReconnect t = t\<lparr>upstreamReconnects := upstreamReconnects t + 1\<rparr>"
definition addCacheHit where "addCacheHit t = t\<lparr>cacheHits := cacheHits t + 1\<rparr>"
definition addCacheMiss where "addCacheMiss t = t\<lparr>cacheMisses := cacheMisses t + 1\<rparr>"
definition addCacheRefresh where "addCacheRefresh t = t\<lparr>cacheRefreshes := cacheRefreshes t + 1\<rparr>"
definition addCacheWait where "addCacheWait t = t\<lparr>cacheWaits := cacheWaits t + 1\<rparr>"
definition addClientError where "addClientError t = t\<lparr>clientErrors := clientErrors t + 1\<rparr>"

lemmas telemetry_defs = clientConnected_def clientDisconnected_def clientSnapshot_def
  upstreamCall_def logReport_def addListRequest_def addListError_def addSignRequest_def
  addSignError_def addReconnect_def addCacheHit_def addCacheMiss_def addCacheRefresh_def
  addCacheWait_def addClientError_def

section \<open>Runs\<close>

text \<open>
  A run is a sequence of counter events and interval reports, one constructor per operation
  above; \<open>tel_run\<close> also collects the reported values.
\<close>

datatype tel_event =
    TConnect | TDisconnect | TClientError | TListRequest | TListError | TSignRequest | TSignError
  | TUpstream bool | TReconnect | TCacheHit | TCacheMiss | TCacheRefresh | TCacheWait | TReport

fun tel_step :: "tel_event \<Rightarrow> proxy_telemetry \<Rightarrow> u64 list list \<times> proxy_telemetry" where
  "tel_step TConnect t = ([], clientConnected t)"
| "tel_step TDisconnect t = ([], clientDisconnected t)"
| "tel_step TClientError t = ([], addClientError t)"
| "tel_step TListRequest t = ([], addListRequest t)"
| "tel_step TListError t = ([], addListError t)"
| "tel_step TSignRequest t = ([], addSignRequest t)"
| "tel_step TSignError t = ([], addSignError t)"
| "tel_step (TUpstream failed) t = ([], upstreamCall failed t)"
| "tel_step TReconnect t = ([], addReconnect t)"
| "tel_step TCacheHit t = ([], addCacheHit t)"
| "tel_step TCacheMiss t = ([], addCacheMiss t)"
| "tel_step TCacheRefresh t = ([], addCacheRefresh t)"
| "tel_step TCacheWait t = ([], addCacheWait t)"
| "tel_step TReport t = (let (vals, t) = logReport t in ([vals], t))"

fun tel_run :: "tel_event list \<Rightarrow> proxy_telemetry \<Rightarrow> u64 list list \<times> proxy_telemetry" where
  "tel_run [] t = ([], t)"
| "tel_run (e # es) t =
     (let (reports, t) = tel_step e t; (reports', t) = tel_run es t in (reports @ reports', t))"

lemma tel_run_Cons:
  "fst (tel_run (e # es) t) = fst (tel_step e t) @ fst (tel_run es (snd (tel_step e t)))"
  "snd (tel_run (e # es) t) = snd (tel_run es (snd (tel_step e t)))"
  by (simp_all add: split_beta Let_def)

text \<open>
  What the thirteen interval counters have pending, in the order they are reported, and which
  events each of them is to count.
\<close>

definition pending :: "proxy_telemetry \<Rightarrow> u64 list" where
  "pending t = [clientConnections t, clientErrors t, listRequests t, listErrors t, signRequests t,
     signErrors t, upstreamCalls t, upstreamErrors t, upstreamReconnects t,
     cacheHits t, cacheMisses t, cacheRefreshes t, cacheWaits t]"

definition counted_events :: "tel_event set list" where
  "counted_events = [{TConnect}, {TClientError}, {TListRequest}, {TListError}, {TSignRequest},
     {TSignError}, {TUpstream True, TUpstream False}, {TUpstream True}, {TReconnect},
     {TCacheHit}, {TCacheMiss}, {TCacheRefresh}, {TCacheWait}]"

definition occurrences :: "tel_event set \<Rightarrow> tel_event list \<Rightarrow> u64" where
  "occurrences E es = of_nat (length (filter (\<lambda>e. e \<in> E) es))"

lemma occurrences_Cons: "occurrences E (e # es) = (if e \<in> E then 1 else 0) + occurrences E es"
  by (simp add: occurrences_def)

text \<open>The reported values sum up, position by position, to the events since the start.\<close>

definition reported :: "nat \<Rightarrow> u64 list list \<Rightarrow> u64" where
  "reported i reports = sum_list (map (\<lambda>vals. vals ! i) reports)"

lemma reported_append: "reported i (xs @ ys) = reported i xs + reported i ys"
  by (simp add: reported_def)

lemma counter_index:
  "i < 13 \<Longrightarrow> i = 0 \<or> i = 1 \<or> i = 2 \<or> i = 3 \<or> i = 4 \<or> i = 5 \<or> i = 6 \<or> i = 7 \<or> i = 8 \<or> i = 9 \<or>
     i = 10 \<or> i = 11 \<or> i = (12::nat)"
  by arith

lemma tel_step_pending:
  assumes "i < 13" "e \<noteq> TReport"
  shows "fst (tel_step e t) = [] \<and>
    pending (snd (tel_step e t)) ! i = pending t ! i + (if e \<in> counted_events ! i then 1 else 0)"
  using assms counter_index [OF assms(1)]
  by (cases e) (elim disjE; simp add: pending_def counted_events_def telemetry_defs Let_def)+

lemma tel_report_pending:
  assumes "i < 13"
  shows "reported (i + 2) (fst (tel_step TReport t)) = pending t ! i \<and>
    pending (snd (tel_step TReport t)) ! i = 0 \<and> TReport \<notin> counted_events ! i"
  using counter_index [OF assms]
  by (elim disjE) (simp_all add: pending_def counted_events_def reported_def telemetry_defs Let_def)

lemma tel_run_counts:
  assumes "i < 13"
  shows "reported (i + 2) (fst (tel_run es t)) + pending (snd (tel_run es t)) ! i =
    pending t ! i + occurrences (counted_events ! i) es"
proof (induction es arbitrary: t)
  case Nil
  show ?case by (simp add: reported_def occurrences_def)
next
  case (Cons e es)
  show ?case
  proof (cases "e = TReport")
    case True
    with Cons.IH [of "snd (tel_step e t)"] tel_report_pending [OF assms, of t] show ?thesis
      by (simp add: tel_run_Cons reported_append occurrences_Cons del: tel_run.simps tel_step.simps)
  next
    case False
    from Cons.IH [of "snd (tel_step e t)"] tel_step_pending [OF assms False, of t] show ?thesis
      by (simp add: tel_run_Cons occurrences_Cons del: tel_run.simps tel_step.simps)
  qed
qed

section \<open>The client counts\<close>

text \<open>
  The reference: \<open>n\<close> clients are open and at most \<open>m\<close> were at once since the last report; a
  report tells both and starts a new interval. A close without an open client is ignored.
\<close>

fun client_peaks :: "tel_event list \<Rightarrow> nat \<Rightarrow> nat \<Rightarrow> (nat \<times> nat) list" where
  "client_peaks [] n m = []"
| "client_peaks (TConnect # es) n m = client_peaks es (Suc n) (max m (Suc n))"
| "client_peaks (TDisconnect # es) n m = client_peaks es (n - 1) m"
| "client_peaks (TReport # es) n m = (n, m) # client_peaks es n n"
| "client_peaks (_ # es) n m = client_peaks es n m"

fun open_clients :: "tel_event list \<Rightarrow> nat \<Rightarrow> nat" where
  "open_clients [] n = n"
| "open_clients (TConnect # es) n = open_clients es (Suc n)"
| "open_clients (TDisconnect # es) n = open_clients es (n - 1)"
| "open_clients (_ # es) n = open_clients es n"

lemma unat_suc: "unat x < n \<Longrightarrow> n < 2 ^ 64 \<Longrightarrow> unat (x + 1 :: u64) = Suc (unat x)"
  by (simp add: unat_word_ariths)

lemma unat_max: "unat (max x y :: u64) = max (unat x) (unat y)"
  by (simp add: max_def word_le_nat_alt)

lemma tel_run_clients:
  "unat (activeClients t) = n \<Longrightarrow> unat (maxActiveClients t) = m \<Longrightarrow> n + length es < 2 ^ 64 \<Longrightarrow>
   map (\<lambda>vals. (unat (vals ! 0), unat (vals ! 1))) (fst (tel_run es t)) = client_peaks es n m \<and>
   unat (activeClients (snd (tel_run es t))) = open_clients es n"
proof (induction es arbitrary: t n m)
  case (Cons e es)
  note IH = Cons.IH [of "snd (tel_step e t)"]
  show ?case
  proof (cases e)
    case TConnect
    have "unat (activeClients t + 1) = Suc n"
      using Cons.prems unat_suc [of "activeClients t" "n + length (e # es)"] by simp
    then show ?thesis using IH Cons.prems TConnect
      by (simp add: tel_run_Cons clientConnected_def Let_def unat_max del: tel_run.simps)
  next
    case TDisconnect
    have "unat (activeClients (clientDisconnected t)) = n - 1"
      "maxActiveClients (clientDisconnected t) = maxActiveClients t"
      using Cons.prems by (auto simp: clientDisconnected_def word_gt_0 unat_minus_one)
    then show ?thesis using IH Cons.prems TDisconnect by (simp add: tel_run_Cons del: tel_run.simps)
  next
    case TReport
    then show ?thesis using IH [of n n] Cons.prems
      by (simp add: tel_run_Cons logReport_def clientSnapshot_def Let_def del: tel_run.simps)
  qed (use IH Cons.prems in \<open>simp_all add: tel_run_Cons telemetry_defs Let_def del: tel_run.simps\<close>)
qed simp

section \<open>Properties\<close>

text \<open>
  Property C17. Interval reports lose and double nothing. Over any run and for every one of the
  thirteen interval counters (connections, client errors, list and sign requests and their
  errors, upstream calls, their errors and reconnects, cache hits, misses, refreshes and waits),
  the values reported for it plus what it has still pending are the number of the events it is
  to count, modulo the counter width. And in a run of fewer than two to the 64 events, each
  report tells the number of clients open at that moment and the most that were open at once
  since the report before.
\<close>

theorem telemetry_accounts:
  "(let (reports, t) = tel_run es zero_telemetry in
     (\<forall>i < 13. reported (i + 2) reports + pending t ! i = occurrences (counted_events ! i) es) \<and>
     (length es < 2 ^ 64 \<longrightarrow>
        map (\<lambda>vals. (unat (vals ! 0), unat (vals ! 1))) reports = client_peaks es 0 0 \<and>
        unat (activeClients t) = open_clients es 0))"
proof -
  have "pending zero_telemetry ! i = 0" if "i < 13" for i
    using counter_index [OF that] by (elim disjE) (simp_all add: pending_def zero_telemetry_def)
  then show ?thesis using tel_run_counts [of _ es zero_telemetry] tel_run_clients [of zero_telemetry 0 0 es]
    by (simp add: split_beta Let_def) (simp add: zero_telemetry_def)
qed

theorem telemetry_accounts_witness:
  "map (\<lambda>vals. (unat (vals ! 0), unat (vals ! 1)))
     (fst (tel_run [TConnect, TConnect, TDisconnect, TReport, TCacheMiss, TReport] zero_telemetry)) = [(1, 2), (1, 1)] \<and>
   reported 12 (fst (tel_run [TConnect, TConnect, TDisconnect, TReport, TCacheMiss, TReport] zero_telemetry)) +
   pending (snd (tel_run [TConnect, TConnect, TDisconnect, TReport, TCacheMiss, TReport] zero_telemetry)) ! 10 = 1"
proof -
  let ?es = "[TConnect, TConnect, TDisconnect, TReport, TCacheMiss, TReport]"
  note t = telemetry_accounts [of ?es, unfolded Let_def split_beta]
  have "client_peaks ?es 0 0 = [(1, 2), (1, 1)]" "occurrences (counted_events ! 10) ?es = 1"
    by (simp_all add: occurrences_def counted_events_def)
  with t show ?thesis
    by (intro conjI) (simp del: tel_run.simps, use t [THEN conjunct1, rule_format, of 10] in \<open>simp del: tel_run.simps\<close>)
qed

end
