(* ===== verification/AgentIface.thy ===== *)
theory AgentIface
  imports Keys GoErr Telemetry "HOL-Library.Monad_Syntax"
begin

text \<open>
  The interface \<open>agent.ExtendedAgent\<close> that the layers of \<open>internal/proxy\<close> implement and
  consume (the group filter over the identity cache over the reconnecting client), and the
  contract between a layer and the one above it.

  A method is a function of the layer's state \<open>'u\<close>. Its result is \<open>None\<close> when the call
  never returns (a wait that nothing ends); otherwise the Go results and the new state. A
  pair \<open>(value, error)\<close> is a sum. The wire is the ghost record of what passed between the
  proxy and the upstream agent.
\<close>

section \<open>Requests and wire events\<close>

type_synonym sig_flags = "32 word"

datatype request =
    ReqList
  | ReqSign blob string
  | ReqSignWithFlags blob string sig_flags
  | ReqAdd string
  | ReqRemove blob
  | ReqRemoveAll
  | ReqLock string
  | ReqUnlock string
  | ReqSigners
  | ReqExtension string string

text \<open>
  \<open>EvRequest c q\<close>: request \<open>q\<close> was written on open connection \<open>c\<close>. \<open>EvListed ks\<close>: the
  agent answered a list request with \<open>ks\<close>.
\<close>

datatype wire_event =
    EvDial
  | EvRequest nat request
  | EvListed "agent_key list"
  | EvClose nat

fun event_request :: "wire_event \<Rightarrow> request option" where
  "event_request (EvRequest c q) = Some q"
| "event_request _ = None"

definition requests :: "wire_event list \<Rightarrow> request list" where
  "requests evs = List.map_filter event_request evs"

lemma requests_simps [simp]:
  "requests [] = []"
  "requests (EvRequest c q # evs) = q # requests evs"
  "requests (EvDial # evs) = requests evs"
  "requests (EvListed ks # evs) = requests evs"
  "requests (EvClose c # evs) = requests evs"
  "requests (evs @ evs') = requests evs @ requests evs'"
  by (simp_all add: requests_def List.map_filter_def)

definition listings :: "wire_event list \<Rightarrow> agent_key list set" where
  "listings evs = {ks. EvListed ks \<in> set evs}"

lemma listings_append [simp]: "listings (evs @ evs') = listings evs \<union> listings evs'"
  by (auto simp: listings_def)

lemma listings_simps [simp]:
  "listings [] = {}"
  "listings (EvRequest c q # evs) = listings evs"
  "listings (EvDial # evs) = listings evs"
  "listings (EvListed ks # evs) = insert ks (listings evs)"
  "listings (EvClose c # evs) = listings evs"
  by (auto simp: listings_def)

section \<open>The interface\<close>

record 'u extended_agent =
  ag_List :: "'u \<Rightarrow> ((goerr + agent_key list) \<times> 'u) option"
  ag_Sign :: "blob \<Rightarrow> string \<Rightarrow> 'u \<Rightarrow> ((goerr + string) \<times> 'u) option"
  ag_SignWithFlags :: "blob \<Rightarrow> string \<Rightarrow> sig_flags \<Rightarrow> 'u \<Rightarrow> ((goerr + string) \<times> 'u) option"
  ag_Add :: "string \<Rightarrow> 'u \<Rightarrow> (goerr option \<times> 'u) option"
  ag_Remove :: "blob \<Rightarrow> 'u \<Rightarrow> (goerr option \<times> 'u) option"
  ag_RemoveAll :: "'u \<Rightarrow> (goerr option \<times> 'u) option"
  ag_Lock :: "string \<Rightarrow> 'u \<Rightarrow> (goerr option \<times> 'u) option"
  ag_Unlock :: "string \<Rightarrow> 'u \<Rightarrow> (goerr option \<times> 'u) option"
  ag_Signers :: "'u \<Rightarrow> ((goerr + blob list) \<times> 'u) option"
  ag_Extension :: "string \<Rightarrow> string \<Rightarrow> 'u \<Rightarrow> ((goerr + string) \<times> 'u) option"

section \<open>The contract of a list and sign source\<close>

text \<open>
  \<open>wire_grows\<close>: between two states the wire only grew, by list requests and nothing else
  in the first form, by at most one signing request with the given arguments in the second.
\<close>

definition list_only :: "wire_event list \<Rightarrow> wire_event list \<Rightarrow> bool" where
  "list_only w w' \<longleftrightarrow> (\<exists>evs. w' = w @ evs \<and> set (requests evs) \<subseteq> {ReqList})"

definition sign_only ::
  "blob \<Rightarrow> string \<Rightarrow> sig_flags \<Rightarrow> wire_event list \<Rightarrow> wire_event list \<Rightarrow> bool" where
  "sign_only k d f w w' \<longleftrightarrow> (\<exists>evs. w' = w @ evs \<and> listings evs = {} \<and>
     (requests evs = [] \<or> requests evs = [ReqSignWithFlags k d f]))"

lemma list_only_refl [simp]: "list_only w w"
  by (simp add: list_only_def)

lemma list_only_trans: "list_only w w' \<Longrightarrow> list_only w' w'' \<Longrightarrow> list_only w w''"
  unfolding list_only_def by (elim exE conjE) (rename_tac a b, rule_tac x = "a @ b" in exI, simp)

lemma list_only_listings: "list_only w w' \<Longrightarrow> listings w \<subseteq> listings w'"
  by (auto simp: list_only_def)

lemma sign_only_listings: "sign_only k d f w w' \<Longrightarrow> listings w' = listings w"
  by (auto simp: sign_only_def)

locale agent_source =
  fixes up :: "'u extended_agent"
    and wire :: "'u \<Rightarrow> wire_event list"
    and uinv :: "'u \<Rightarrow> bool"
    and tel :: "(proxy_telemetry \<Rightarrow> proxy_telemetry) \<Rightarrow> 'u \<Rightarrow> 'u"
  assumes tel_wire [simp]: "wire (tel g u) = wire u"
    and tel_inv: "uinv u \<Longrightarrow> uinv (tel g u)"
    and list_inv: "uinv u \<Longrightarrow> ag_List up u = Some (res, u') \<Longrightarrow> uinv u'"
    and list_wire: "uinv u \<Longrightarrow> ag_List up u = Some (res, u') \<Longrightarrow> list_only (wire u) (wire u')"
    and list_listed: "uinv u \<Longrightarrow> ag_List up u = Some (Inr ks, u') \<Longrightarrow> ks \<in> listings (wire u')"
    and sign_inv: "uinv u \<Longrightarrow> ag_SignWithFlags up k d f u = Some (res', u') \<Longrightarrow> uinv u'"
    and sign_wire: "uinv u \<Longrightarrow> ag_SignWithFlags up k d f u = Some (res', u') \<Longrightarrow>
      sign_only k d f (wire u) (wire u')"
begin

lemma list_grows: "uinv u \<Longrightarrow> ag_List up u = Some (res, u') \<Longrightarrow> listings (wire u) \<subseteq> listings (wire u')"
  by (rule list_only_listings [OF list_wire])

lemma list_requests:
  "uinv u \<Longrightarrow> ag_List up u = Some (res, u') \<Longrightarrow>
   \<exists>n. requests (wire u') = requests (wire u) @ replicate n ReqList"
proof -
  assume "uinv u" "ag_List up u = Some (res, u')"
  from list_wire [OF this] obtain evs where
    evs: "wire u' = wire u @ evs" "set (requests evs) \<subseteq> {ReqList}"
    by (auto simp: list_only_def)
  from evs(2) have "requests evs = replicate (length (requests evs)) ReqList"
    by - (rule replicate_length_same [symmetric], auto)
  with evs(1) show ?thesis by auto
qed

end

end
