(* ===== verification/Authorization.thy ===== *)
theory Authorization
  imports AgentIface
begin

text \<open>
  \<open>internal/proxy/authorization.go\<close>: the view of one group that all its client connections
  share. It is refreshed from upstream by one goroutine at a time, read without a lock by
  the signing path, and its selectors that match nothing are warned about once.

  The functions between two synchronisation points are the atomic sections of the code; the
  sequential operations compose them for one goroutine, and \<open>AuthorizationConc\<close> interleaves
  them. Structures that goroutines share through a pointer are numbered in the order they
  are allocated.
\<close>

section \<open>State\<close>

record authorization_refresh =
  rf_done :: bool
  rf_trigger :: string
  rf_visible :: "agent_key list"
  rf_err :: "goerr option"

text \<open>\<open>ga_warned\<close> is the log of the warnings of \<open>logResolution\<close>: index and selector type.\<close>

record group_auth =
  ga_matchers :: "matcher list"
  ga_snapshot :: "allow_set option"
  ga_inFlight :: "nat option"
  ga_unmatched :: "bool list"
  ga_refreshes :: "authorization_refresh list"
  ga_warned :: "(nat \<times> match_type) list"

definition newGroupAuthorization :: "matcher list \<Rightarrow> group_auth" where
  "newGroupAuthorization matchers =
     \<lparr>ga_matchers = matchers, ga_snapshot = None, ga_inFlight = None, ga_unmatched = [],
      ga_refreshes = [], ga_warned = []\<rparr>"

definition allows :: "group_auth \<Rightarrow> blob \<Rightarrow> bool" where
  "allows a key = (case ga_snapshot a of None \<Rightarrow> False | Some s \<Rightarrow> Allowed s key)"

section \<open>Atomic sections\<close>

definition joinRefreshLocked :: "string \<Rightarrow> group_auth \<Rightarrow> (nat \<times> bool) \<times> group_auth" where
  "joinRefreshLocked trigger a =
     (case ga_inFlight a of
        Some r \<Rightarrow> ((r, False), a)
      | None \<Rightarrow>
          (let r = length (ga_refreshes a);
               refresh = \<lparr>rf_done = False, rf_trigger = trigger, rf_visible = [], rf_err = None\<rparr>
           in ((r, True), a\<lparr>ga_inFlight := Some r, ga_refreshes := ga_refreshes a @ [refresh]\<rparr>)))"

text \<open>The locked part of \<open>authorize\<close>: the recheck, then the join.\<close>

definition recheck_or_join :: "blob \<Rightarrow> group_auth \<Rightarrow> (nat \<times> bool) option \<times> group_auth" where
  "recheck_or_join key a =
     (if allows a key then (None, a)
      else let (r, a) = joinRefreshLocked ''sign-miss'' a in (Some r, a))"

text \<open>\<open>newlyUnmatched\<close>: the loop over the match counts, at position \<open>i\<close>.\<close>

fun newly_loop :: "nat \<Rightarrow> nat list \<Rightarrow> bool list \<Rightarrow> nat list \<Rightarrow> nat list \<times> bool list" where
  "newly_loop i [] unmatched newly = (newly, unmatched)"
| "newly_loop i (count # counts) unmatched newly =
     (let missing = (count = 0);
          newly = (if missing \<and> \<not> unmatched ! i then newly @ [i] else newly)
      in newly_loop (Suc i) counts (unmatched[i := missing]) newly)"

definition newlyUnmatched :: "nat list \<Rightarrow> group_auth \<Rightarrow> nat list \<times> group_auth" where
  "newlyUnmatched matchCounts a =
     (let unmatched = (if length (ga_unmatched a) \<noteq> length matchCounts
                       then replicate (length matchCounts) False else ga_unmatched a);
          (newly, unmatched) = newly_loop 0 matchCounts unmatched []
      in (newly, a\<lparr>ga_unmatched := unmatched\<rparr>))"

definition logResolution :: "nat list \<Rightarrow> group_auth \<Rightarrow> group_auth" where
  "logResolution matchCounts a =
     (let (newly, a) = newlyUnmatched matchCounts a
      in a\<lparr>ga_warned := ga_warned a @
             map (\<lambda>index. (index + 1, m_Type (ga_matchers a ! index))) newly\<rparr>)"

text \<open>\<open>resolve\<close>: the snapshot is published first, then the counts are noted.\<close>

definition publish :: "fingerprints \<Rightarrow> agent_key list \<Rightarrow> group_auth \<Rightarrow> group_auth" where
  "publish fp upstream a =
     a\<lparr>ga_snapshot := Some (NewAllowSet (fst (Resolve fp upstream (ga_matchers a))))\<rparr>"

definition resolve_view ::
  "fingerprints \<Rightarrow> agent_key list \<Rightarrow> group_auth \<Rightarrow> agent_key list \<times> group_auth" where
  "resolve_view fp upstream a =
     (let (visible, matchCounts) = Resolve fp upstream (ga_matchers a)
      in (visible, logResolution matchCounts (publish fp upstream a)))"

text \<open>The locked end of \<open>finishRefresh\<close>: record the outcome and wake every waiter.\<close>

definition complete_refresh ::
  "nat \<Rightarrow> agent_key list \<Rightarrow> goerr option \<Rightarrow> group_auth \<Rightarrow> group_auth" where
  "complete_refresh r visible err a =
     a\<lparr>ga_refreshes := (ga_refreshes a)[r := (ga_refreshes a ! r)
          \<lparr>rf_visible := visible, rf_err := err, rf_done := True\<rparr>],
       ga_inFlight := None\<rparr>"

definition finishRefresh ::
  "fingerprints \<Rightarrow> nat \<Rightarrow> goerr + agent_key list \<Rightarrow> group_auth \<Rightarrow> group_auth" where
  "finishRefresh fp r res a =
     (case res of
        Inr all \<Rightarrow> (let (visible, a) = resolve_view fp all a in complete_refresh r visible None a)
      | Inl err \<Rightarrow> complete_refresh r [] (Some err) a)"

section \<open>One goroutine\<close>

definition runRefresh ::
  "fingerprints \<Rightarrow> 'u extended_agent \<Rightarrow> nat \<Rightarrow> group_auth \<times> 'u \<Rightarrow> (group_auth \<times> 'u) option" where
  "runRefresh fp up r = (\<lambda>(a, u). do {
     (res, u) \<leftarrow> ag_List up u;
     Some (finishRefresh fp r res a, u)
   })"

text \<open>\<open><-refresh.done\<close>: a goroutine alone never gets past a channel that is still open.\<close>

definition await_refresh :: "nat \<Rightarrow> group_auth \<Rightarrow> authorization_refresh option" where
  "await_refresh r a = (if rf_done (ga_refreshes a ! r) then Some (ga_refreshes a ! r) else None)"

definition authorization_list ::
  "fingerprints \<Rightarrow> 'u extended_agent \<Rightarrow> group_auth \<times> 'u \<Rightarrow>
   ((goerr + agent_key list) \<times> (group_auth \<times> 'u)) option" where
  "authorization_list fp up = (\<lambda>(a, u).
     let ((r, owner), a) = joinRefreshLocked ''client-list'' a
     in do {
       (a, u) \<leftarrow> (if owner then runRefresh fp up r (a, u) else Some (a, u));
       refresh \<leftarrow> await_refresh r a;
       Some (case rf_err refresh of None \<Rightarrow> Inr (rf_visible refresh) | Some e \<Rightarrow> Inl e, (a, u))
     })"

definition authorize ::
  "fingerprints \<Rightarrow> 'u extended_agent \<Rightarrow> blob \<Rightarrow> group_auth \<times> 'u \<Rightarrow>
   ((goerr + bool) \<times> (group_auth \<times> 'u)) option" where
  "authorize fp up key = (\<lambda>(a, u).
     if allows a key then Some (Inr True, (a, u))
     else case recheck_or_join key a of
       (None, a) \<Rightarrow> Some (Inr True, (a, u))
     | (Some (r, owner), a) \<Rightarrow> do {
         (a, u) \<leftarrow> (if owner then runRefresh fp up r (a, u) else Some (a, u));
         refresh \<leftarrow> await_refresh r a;
         Some (case rf_err refresh of Some e \<Rightarrow> Inl e | None \<Rightarrow> Inr (allows a key), (a, u))
       })"

section \<open>Which selectors are warned about\<close>

text \<open>The loop against its reference: positions whose selector became unmatched.\<close>

lemma newly_loop_spec:
  "length unmatched = i + length counts \<Longrightarrow>
   newly_loop i counts unmatched newly =
     (newly @ filter (\<lambda>j. counts ! (j - i) = 0 \<and> \<not> unmatched ! j) [i..<i + length counts],
      take i unmatched @ map (\<lambda>count. count = 0) counts)"
proof (induction counts arbitrary: i unmatched newly)
  case Nil
  then show ?case by simp
next
  case (Cons count counts)
  have len: "length (unmatched[i := (count = 0)]) = Suc i + length counts"
    and i: "i < length unmatched" using Cons.prems by simp_all
  have "filter (\<lambda>j. counts ! (j - Suc i) = 0 \<and> \<not> unmatched[i := (count = 0)] ! j)
      [Suc i..<Suc i + length counts] =
    filter (\<lambda>j. (count # counts) ! (j - i) = 0 \<and> \<not> unmatched ! j) [Suc i..<i + Suc (length counts)]"
    by (rule filter_cong) (auto simp: nth_Cons')
  moreover have "[i..<i + Suc (length counts)] = i # [Suc i..<i + Suc (length counts)]"
    by (rule upt_conv_Cons) simp
  moreover have "take (Suc i) (unmatched[i := (count = 0)]) = take i unmatched @ [count = 0]"
    using i by (simp add: take_Suc_conv_app_nth)
  ultimately show ?case by (simp add: Cons.IH [OF len] Let_def)
qed

lemma newlyUnmatched_spec:
  "newlyUnmatched counts a =
     (filter (\<lambda>j. counts ! j = 0 \<and>
        (length (ga_unmatched a) \<noteq> length counts \<or> \<not> ga_unmatched a ! j)) [0..<length counts],
      a\<lparr>ga_unmatched := map (\<lambda>count. count = 0) counts\<rparr>)"
proof -
  let ?u = "if length (ga_unmatched a) \<noteq> length counts then replicate (length counts) False
    else ga_unmatched a"
  have "filter (\<lambda>j. counts ! j = 0 \<and> \<not> ?u ! j) [0..<length counts] =
    filter (\<lambda>j. counts ! j = 0 \<and> (length (ga_unmatched a) \<noteq> length counts \<or> \<not> ga_unmatched a ! j))
      [0..<length counts]"
    by (rule filter_cong) auto
  then show ?thesis using newly_loop_spec [of ?u 0 counts "[]"]
    by (simp add: newlyUnmatched_def Let_def)
qed

section \<open>Simplification of the sections\<close>

lemma logResolution_simps [simp]:
  "ga_matchers (logResolution counts a) = ga_matchers a"
  "ga_snapshot (logResolution counts a) = ga_snapshot a"
  "ga_inFlight (logResolution counts a) = ga_inFlight a"
  "ga_refreshes (logResolution counts a) = ga_refreshes a"
  by (simp_all add: logResolution_def newlyUnmatched_spec)

lemma publish_simps [simp]:
  "ga_matchers (publish fp ks a) = ga_matchers a" "ga_inFlight (publish fp ks a) = ga_inFlight a"
  "ga_refreshes (publish fp ks a) = ga_refreshes a"
  "ga_snapshot (publish fp ks a) = Some (BuildAllowSet fp ks (ga_matchers a))"
  by (simp_all add: publish_def BuildAllowSet_def Filter_def)

lemma complete_refresh_simps [simp]:
  "ga_matchers (complete_refresh r v e a) = ga_matchers a"
  "ga_snapshot (complete_refresh r v e a) = ga_snapshot a"
  "ga_inFlight (complete_refresh r v e a) = None"
  "length (ga_refreshes (complete_refresh r v e a)) = length (ga_refreshes a)"
  "r < length (ga_refreshes a) \<Longrightarrow> ga_refreshes (complete_refresh r v e a) ! r =
     (ga_refreshes a ! r)\<lparr>rf_visible := v, rf_err := e, rf_done := True\<rparr>"
  by (simp_all add: complete_refresh_def)

lemma finishRefresh_simps [simp]:
  "ga_matchers (finishRefresh fp r res a) = ga_matchers a"
  "ga_snapshot (finishRefresh fp r res a) =
     (case res of Inl e \<Rightarrow> ga_snapshot a | Inr ks \<Rightarrow> Some (BuildAllowSet fp ks (ga_matchers a)))"
  "ga_inFlight (finishRefresh fp r res a) = None"
  "r < length (ga_refreshes a) \<Longrightarrow> ga_refreshes (finishRefresh fp r res a) ! r = (ga_refreshes a ! r)
     \<lparr>rf_visible := (case res of Inl e \<Rightarrow> [] | Inr ks \<Rightarrow> Filter fp ks (ga_matchers a)),
      rf_err := (case res of Inl e \<Rightarrow> Some e | Inr ks \<Rightarrow> None), rf_done := True\<rparr>"
  by (simp_all add: finishRefresh_def resolve_view_def Filter_def Let_def split_beta split: sum.split)

lemma join_idle:
  "ga_inFlight a = None \<Longrightarrow> joinRefreshLocked trigger a =
     ((length (ga_refreshes a), True), a\<lparr>ga_inFlight := Some (length (ga_refreshes a)),
        ga_refreshes := ga_refreshes a @
          [\<lparr>rf_done = False, rf_trigger = trigger, rf_visible = [], rf_err = None\<rparr>]\<rparr>)"
  by (simp add: joinRefreshLocked_def Let_def)

end
