(* ===== verification/StepSystems.thy ===== *)
theory StepSystems
  imports Prelude
begin

text \<open>
  Concurrent components are step systems: an initial-state predicate and a step relation
  whose steps are the atomic sections of the code (a mutex-protected block, one atomic load
  or store, one channel operation, one call that leaves the program). This theory holds the
  reachable states, the rule for invariants, the interface \<open>simulation\<close> by which a
  component inherits the safety facts of an abstract protocol, and that protocol for the
  pattern the code uses twice: a request in flight that later callers wait for.
\<close>

section \<open>Reachable states and simulations\<close>

inductive reach :: "('s \<Rightarrow> bool) \<Rightarrow> ('s \<Rightarrow> 's \<Rightarrow> bool) \<Rightarrow> 's \<Rightarrow> bool" for init step where
  reach_init: "init s \<Longrightarrow> reach init step s"
| reach_step: "reach init step s \<Longrightarrow> step s t \<Longrightarrow> reach init step t"

lemma reach_invariant:
  assumes "reach init step s"
    and "\<And>s. init s \<Longrightarrow> P s"
    and "\<And>s t. reach init step s \<Longrightarrow> P s \<Longrightarrow> step s t \<Longrightarrow> P t"
  shows "P s"
  using assms(1) by induction (auto intro: assms(2,3))

locale simulation =
  fixes cinit :: "'c \<Rightarrow> bool" and cstep :: "'c \<Rightarrow> 'c \<Rightarrow> bool" and cinv :: "'c \<Rightarrow> bool"
    and ainit :: "'a \<Rightarrow> bool" and astep :: "'a \<Rightarrow> 'a \<Rightarrow> bool" and abs :: "'c \<Rightarrow> 'a"
  assumes init_inv: "cinit s \<Longrightarrow> cinv s"
    and step_inv: "cinv s \<Longrightarrow> cstep s t \<Longrightarrow> cinv t"
    and init_abs: "cinit s \<Longrightarrow> ainit (abs s)"
    and step_abs: "cinv s \<Longrightarrow> reach ainit astep (abs s) \<Longrightarrow> cstep s t \<Longrightarrow>
      astep (abs s) (abs t) \<or> abs t = abs s"
begin

lemma reach_cinv: "reach cinit cstep s \<Longrightarrow> cinv s"
  by (induction rule: reach.induct) (auto intro: init_inv step_inv)

lemma reach_abs: "reach cinit cstep s \<Longrightarrow> reach ainit astep (abs s)"
proof (induction rule: reach.induct)
  case (reach_init s)
  then show ?case by (auto intro: reach.reach_init init_abs)
next
  case (reach_step s t)
  from reach_step.hyps(1) have "cinv s" by (rule reach_cinv)
  from step_abs [OF this reach_step.IH reach_step.hyps(2)] show ?case
    using reach_step.IH by (auto intro: reach.reach_step)
qed

lemma transfer: "(\<And>a. reach ainit astep a \<Longrightarrow> P a) \<Longrightarrow> reach cinit cstep s \<Longrightarrow> P (abs s)"
  using reach_abs by blast

end

section \<open>The single-flight protocol\<close>

text \<open>
  Tickets are numbered as they are handed out. \<open>sf_inflight\<close> is the ticket of the request
  in flight, \<open>sf_owner c\<close> the ticket client \<open>c\<close> must complete, \<open>sf_wait c\<close> the ticket it
  waits for, and \<open>sf_done\<close> the completed tickets (the closed channels).
\<close>

record single_flight =
  sf_inflight :: "nat option"
  sf_next :: nat
  sf_done :: "nat set"
  sf_owner :: "nat \<Rightarrow> nat option"
  sf_wait :: "nat \<Rightarrow> nat option"

definition sf_init :: "single_flight \<Rightarrow> bool" where
  "sf_init s \<longleftrightarrow> sf_inflight s = None \<and> sf_done s = {} \<and>
     sf_owner s = (\<lambda>_. None) \<and> sf_wait s = (\<lambda>_. None)"

inductive sf_step :: "single_flight \<Rightarrow> single_flight \<Rightarrow> bool" where
  sf_claim: "sf_inflight s = None \<Longrightarrow> sf_owner s c = None \<Longrightarrow> sf_wait s c = None \<Longrightarrow>
     sf_step s (s\<lparr>sf_inflight := Some (sf_next s), sf_next := Suc (sf_next s),
       sf_owner := (sf_owner s)(c \<mapsto> sf_next s)\<rparr>)"
| sf_join: "sf_inflight s = Some r \<Longrightarrow> sf_owner s c = None \<Longrightarrow> sf_wait s c = None \<Longrightarrow>
     sf_step s (s\<lparr>sf_wait := (sf_wait s)(c \<mapsto> r)\<rparr>)"
| sf_finish: "sf_owner s c = Some r \<Longrightarrow> w = None \<or> w = Some r \<Longrightarrow>
     sf_step s (s\<lparr>sf_inflight := None, sf_done := insert r (sf_done s),
       sf_owner := (sf_owner s)(c := None), sf_wait := (sf_wait s)(c := w)\<rparr>)"
| sf_wake: "sf_wait s c = Some r \<Longrightarrow> r \<in> sf_done s \<Longrightarrow>
     sf_step s (s\<lparr>sf_wait := (sf_wait s)(c := None)\<rparr>)"

abbreviation sf_reach :: "single_flight \<Rightarrow> bool" where
  "sf_reach \<equiv> reach sf_init sf_step"

definition sf_inv :: "single_flight \<Rightarrow> bool" where
  "sf_inv s \<longleftrightarrow>
     (\<forall>r. sf_inflight s = Some r \<longrightarrow> r < sf_next s \<and> r \<notin> sf_done s \<and> (\<exists>c. sf_owner s c = Some r)) \<and>
     (\<forall>c r. sf_owner s c = Some r \<longrightarrow> sf_inflight s = Some r) \<and>
     (\<forall>c d r. sf_owner s c = Some r \<longrightarrow> sf_owner s d \<noteq> None \<longrightarrow> d = c) \<and>
     (\<forall>r \<in> sf_done s. r < sf_next s) \<and>
     (\<forall>c r. sf_wait s c = Some r \<longrightarrow> sf_owner s c = None \<and> (r \<in> sf_done s \<or> sf_inflight s = Some r))"

lemma sf_inv_waitD:
  "sf_inv s \<Longrightarrow> sf_wait s c = Some r \<Longrightarrow> sf_owner s c = None \<and> (r \<in> sf_done s \<or> sf_inflight s = Some r)"
  by (simp add: sf_inv_def)

lemma sf_inv_init: "sf_init s \<Longrightarrow> sf_inv s"
  by (simp add: sf_init_def sf_inv_def)

lemma sf_inv_step: "sf_step s t \<Longrightarrow> sf_inv s \<Longrightarrow> sf_inv t"
proof (induction rule: sf_step.induct)
  case (sf_claim s c)
  then show ?case by (fastforce simp: sf_inv_def)
next
  case (sf_join s r c)
  then show ?case by (auto simp: sf_inv_def)
next
  case (sf_finish s c r w)
  then have fl: "sf_inflight s = Some r" by (simp add: sf_inv_def)
  have one: "sf_owner s d = None" if "d \<noteq> c" for d
    using sf_finish.prems sf_finish.hyps(1) that unfolding sf_inv_def
    by (cases "sf_owner s d") blast+
  have wait: "sf_owner s d = None \<and> (q \<in> sf_done s \<or> q = r)" if "sf_wait s d = Some q" for d q
    using sf_inv_waitD [OF sf_finish.prems that] fl by auto
  have less: "r < sf_next s" "q \<in> sf_done s \<Longrightarrow> q < sf_next s" for q
    using sf_finish.prems fl by (simp_all add: sf_inv_def)
  let ?t = "s\<lparr>sf_inflight := None, sf_done := insert r (sf_done s),
    sf_owner := (sf_owner s)(c := None), sf_wait := (sf_wait s)(c := w)\<rparr>"
  have "sf_owner ?t d = None" for d using one by simp
  moreover have "q \<in> sf_done ?t" if "sf_wait ?t d = Some q" for d q
    using that wait [of d q] sf_finish.hyps(2) by (auto split: if_splits)
  ultimately show ?case using less by (auto simp: sf_inv_def)
next
  case (sf_wake s c r)
  then show ?case by (auto simp: sf_inv_def)
qed

lemma sf_reach_inv: "sf_reach s \<Longrightarrow> sf_inv s"
  by (induction rule: reach.induct) (auto intro: sf_inv_init sf_inv_step)

lemma sf_one_owner: "sf_reach s \<Longrightarrow> sf_owner s c \<noteq> None \<Longrightarrow> sf_owner s d \<noteq> None \<Longrightarrow> c = d"
  by (drule sf_reach_inv) (auto simp: sf_inv_def)

lemma sf_owner_inflight: "sf_reach s \<Longrightarrow> sf_owner s c = Some r \<Longrightarrow> sf_inflight s = Some r"
  by (drule sf_reach_inv) (auto simp: sf_inv_def)

lemma sf_inflight_owner: "sf_reach s \<Longrightarrow> sf_inflight s = Some r \<Longrightarrow> \<exists>c. sf_owner s c = Some r"
  by (drule sf_reach_inv) (auto simp: sf_inv_def)

lemma sf_no_lost_wakeup:
  "sf_reach s \<Longrightarrow> sf_wait s c = Some r \<Longrightarrow>
   r \<in> sf_done s \<or> (\<exists>d. d \<noteq> c \<and> sf_owner s d = Some r)"
proof -
  assume "sf_reach s" and w: "sf_wait s c = Some r"
  then have inv: "sf_inv s" by (simp only: sf_reach_inv)
  have "\<exists>d. d \<noteq> c \<and> sf_owner s d = Some r" if fl: "sf_inflight s = Some r"
  proof -
    from inv fl obtain d where d: "sf_owner s d = Some r" by (auto simp: sf_inv_def)
    with sf_inv_waitD [OF inv w] have "d \<noteq> c" by auto
    with d show ?thesis by blast
  qed
  with sf_inv_waitD [OF inv w] show ?thesis by blast
qed

end
