(* ===== verification/Cache.thy ===== *)
theory Cache
  imports AgentIface StepSystems
begin

text \<open>
  \<open>internal/proxy/cache.go\<close>: one identity list shared by every group and client, fetched by
  one goroutine at a time and served until it expires, also when a later refresh fails.

  The two sections under the mutex are \<open>cache_enter\<close> and \<open>cache_finish\<close>. \<open>cached_List\<close> runs
  them for one goroutine alone over any list source; the system \<open>cache_step\<close> interleaves
  those of any number of goroutines. An instant is the count of nanoseconds since Go's zero
  time, which is the initial expiry.
\<close>

section \<open>State and critical sections\<close>

text \<open>
  A channel made for an upstream call is numbered by the count of earlier ones;
  \<open>ch_closed\<close> says which have been closed.
\<close>

record cache_core =
  ca_ttl :: int
  ca_keys :: "agent_key list"
  ca_hasSnapshot :: bool
  ca_cachedErr :: "goerr option"
  ca_expiresAt :: nat
  ca_inFlight :: "nat option"
  ch_closed :: "bool list"

definition newCachedAgent :: "int \<Rightarrow> cache_core" where
  "newCachedAgent ttl =
     \<lparr>ca_ttl = ttl, ca_keys = [], ca_hasSnapshot = False, ca_cachedErr = None,
      ca_expiresAt = 0, ca_inFlight = None, ch_closed = []\<rparr>"

definition cloneAgentKeys :: "agent_key list \<Rightarrow> agent_key list" where
  "cloneAgentKeys ks = [] @ ks"

datatype cache_entry = CacheHit "agent_key list" "goerr option" | CacheWait nat | CacheFetch nat

definition cache_enter :: "nat \<Rightarrow> cache_core \<Rightarrow> cache_entry \<times> cache_core" where
  "cache_enter now c =
     (if now < ca_expiresAt c then (CacheHit (cloneAgentKeys (ca_keys c)) (ca_cachedErr c), c)
      else case ca_inFlight c of
             Some ch \<Rightarrow> (CacheWait ch, c)
           | None \<Rightarrow>
               (let ch = length (ch_closed c)
                in (CacheFetch ch, c\<lparr>ca_inFlight := Some ch, ch_closed := ch_closed c @ [False]\<rparr>)))"

definition cache_finish ::
  "nat \<Rightarrow> nat \<Rightarrow> goerr + agent_key list \<Rightarrow> cache_core \<Rightarrow> (agent_key list \<times> goerr option) \<times> cache_core" where
  "cache_finish now ch res c =
     (let c = (case res of
                 Inr ks \<Rightarrow> c\<lparr>ca_keys := cloneAgentKeys ks, ca_hasSnapshot := True, ca_cachedErr := None\<rparr>
               | Inl err \<Rightarrow>
                   if ca_hasSnapshot c then c\<lparr>ca_cachedErr := None\<rparr>
                   else c\<lparr>ca_keys := [], ca_cachedErr := Some err\<rparr>);
          c = c\<lparr>ca_expiresAt := now + nat (ca_ttl c)\<rparr>;
          result = cloneAgentKeys (ca_keys c);
          resultErr = ca_cachedErr c
      in ((result, resultErr), c\<lparr>ca_inFlight := None, ch_closed := (ch_closed c)[ch := True]\<rparr>))"

lemma cloneAgentKeys_id [simp]: "cloneAgentKeys ks = ks"
  by (simp add: cloneAgentKeys_def)

section \<open>One goroutine over a list source\<close>

text \<open>
  A goroutine that finds a call in flight waits for whoever made it; alone, it would wait
  for ever, which is the result \<open>None\<close>.
\<close>

definition list_result :: "agent_key list \<times> goerr option \<Rightarrow> goerr + agent_key list" where
  "list_result kr = (case snd kr of None \<Rightarrow> Inr (fst kr) | Some e \<Rightarrow> Inl e)"

definition cached_List ::
  "((proxy_telemetry \<Rightarrow> proxy_telemetry) \<Rightarrow> 'u \<Rightarrow> 'u) \<Rightarrow> ('u \<Rightarrow> nat) \<Rightarrow> 'u extended_agent \<Rightarrow>
   cache_core \<times> 'u \<Rightarrow> ((goerr + agent_key list) \<times> (cache_core \<times> 'u)) option" where
  "cached_List tel now up = (\<lambda>(c, u).
     if ca_ttl c \<le> 0 then do {
       (res, u) \<leftarrow> ag_List up (tel addCacheRefresh (tel addCacheMiss u));
       Some (res, (c, u))
     } else case cache_enter (now u) c of
       (CacheHit ks err, c) \<Rightarrow> Some (list_result (ks, err), (c, tel addCacheHit u))
     | (CacheWait ch, c) \<Rightarrow> None
     | (CacheFetch ch, c) \<Rightarrow> do {
         (res, u) \<leftarrow> ag_List up (tel addCacheRefresh (tel addCacheMiss u));
         let (result, c) = cache_finish (now u) ch res c;
         Some (list_result result, (c, u))
       })"

text \<open>Only \<open>List\<close> is cached; Go's embedding forwards the other methods unchanged.\<close>

definition on_up :: "('u \<Rightarrow> ('r \<times> 'u) option) \<Rightarrow> cache_core \<times> 'u \<Rightarrow> ('r \<times> (cache_core \<times> 'u)) option" where
  "on_up f = (\<lambda>(c, u). do { (r, u) \<leftarrow> f u; Some (r, (c, u)) })"

definition cachedAgent ::
  "((proxy_telemetry \<Rightarrow> proxy_telemetry) \<Rightarrow> 'u \<Rightarrow> 'u) \<Rightarrow> ('u \<Rightarrow> nat) \<Rightarrow> 'u extended_agent \<Rightarrow>
   (cache_core \<times> 'u) extended_agent" where
  "cachedAgent tel now up =
     \<lparr>ag_List = cached_List tel now up,
      ag_Sign = (\<lambda>k d. on_up (ag_Sign up k d)),
      ag_SignWithFlags = (\<lambda>k d f. on_up (ag_SignWithFlags up k d f)),
      ag_Add = (\<lambda>key. on_up (ag_Add up key)), ag_Remove = (\<lambda>key. on_up (ag_Remove up key)),
      ag_RemoveAll = on_up (ag_RemoveAll up),
      ag_Lock = (\<lambda>p. on_up (ag_Lock up p)), ag_Unlock = (\<lambda>p. on_up (ag_Unlock up p)),
      ag_Signers = on_up (ag_Signers up),
      ag_Extension = (\<lambda>s b. on_up (ag_Extension up s b))\<rparr>"

lemma cachedAgent_sel [simp]:
  "ag_List (cachedAgent tel now up) = cached_List tel now up"
  "ag_SignWithFlags (cachedAgent tel now up) k d f = on_up (ag_SignWithFlags up k d f)"
  by (simp_all add: cachedAgent_def)

section \<open>What the cache holds\<close>

text \<open>
  The cached keys are one of the listings \<open>L\<close>; an error is cached only before the first
  successful listing; nothing is served before the first answer.
\<close>

definition core_inv :: "agent_key list set \<Rightarrow> cache_core \<Rightarrow> bool" where
  "core_inv L c \<longleftrightarrow>
     (ca_hasSnapshot c \<longrightarrow> ca_keys c \<in> L \<and> ca_cachedErr c = None) \<and>
     (ca_expiresAt c > 0 \<longrightarrow> ca_hasSnapshot c \<or> ca_cachedErr c \<noteq> None)"

lemma core_inv_new: "core_inv L (newCachedAgent ttl)"
  by (simp add: core_inv_def newCachedAgent_def)

lemma core_inv_mono: "core_inv L c \<Longrightarrow> L \<subseteq> L' \<Longrightarrow> core_inv L' c"
  by (auto simp: core_inv_def)

lemma cache_enter_cases:
  assumes "cache_enter now c = (e, c')"
  obtains (hit) "e = CacheHit (ca_keys c) (ca_cachedErr c)" "c' = c" "now < ca_expiresAt c"
  | (wait) ch where "e = CacheWait ch" "c' = c" "ca_inFlight c = Some ch" "ca_expiresAt c \<le> now"
  | (fetch) "e = CacheFetch (length (ch_closed c))" "ca_inFlight c = None" "ca_expiresAt c \<le> now"
      "c' = c\<lparr>ca_inFlight := Some (length (ch_closed c)), ch_closed := ch_closed c @ [False]\<rparr>"
proof (cases "now < ca_expiresAt c")
  case True
  with assms have "e = CacheHit (ca_keys c) (ca_cachedErr c)" "c' = c"
    by (auto simp: cache_enter_def)
  then show ?thesis using True by (rule hit)
next
  case False
  show ?thesis
  proof (cases "ca_inFlight c")
    case None
    with assms False show ?thesis by (intro fetch) (auto simp: cache_enter_def Let_def)
  next
    case (Some ch)
    with assms False show ?thesis by (intro wait [of ch]) (auto simp: cache_enter_def)
  qed
qed

lemma core_inv_enter: "cache_enter now c = (e, c') \<Longrightarrow> core_inv L c \<Longrightarrow> core_inv L c'"
  by (erule cache_enter_cases) (auto simp: core_inv_def)

lemma cache_finish_simps:
  assumes "cache_finish now ch res c = ((ks, err), c')"
  shows "ca_inFlight c' = None" "ca_ttl c' = ca_ttl c" "ca_expiresAt c' = now + nat (ca_ttl c)"
    "ch_closed c' = (ch_closed c)[ch := True]" "ks = ca_keys c'" "err = ca_cachedErr c'"
    "ca_hasSnapshot c' = (ca_hasSnapshot c \<or> (\<exists>ks. res = Inr ks))"
    "ca_keys c' = (case res of Inr ks \<Rightarrow> ks | Inl e \<Rightarrow> if ca_hasSnapshot c then ca_keys c else [])"
    "ca_cachedErr c' = (case res of Inr ks \<Rightarrow> None | Inl e \<Rightarrow> if ca_hasSnapshot c then None else Some e)"
  using assms by (auto simp: cache_finish_def Let_def split: sum.splits if_splits)

lemma core_inv_finish:
  assumes "cache_finish now ch res c = (r, c')" "core_inv L c" "\<And>ks. res = Inr ks \<Longrightarrow> ks \<in> L"
  shows "core_inv L c'"
proof -
  obtain ks err where r: "r = (ks, err)" by fastforce
  note f = cache_finish_simps [OF assms(1) [unfolded r]]
  show ?thesis using assms(2,3) by (cases res) (auto simp: core_inv_def f)
qed

section \<open>The cache is again a list and sign source\<close>

definition cached_inv :: "('u \<Rightarrow> wire_event list) \<Rightarrow> ('u \<Rightarrow> bool) \<Rightarrow> cache_core \<times> 'u \<Rightarrow> bool" where
  "cached_inv wire uinv = (\<lambda>(c, u). uinv u \<and> core_inv (listings (wire u)) c \<and> ca_inFlight c = None)"

locale cached_source = agent_source up wire uinv tel
  for up :: "'u extended_agent" and wire :: "'u \<Rightarrow> wire_event list" and uinv :: "'u \<Rightarrow> bool"
    and tel :: "(proxy_telemetry \<Rightarrow> proxy_telemetry) \<Rightarrow> 'u \<Rightarrow> 'u" +
  fixes now :: "'u \<Rightarrow> nat"
begin

lemma tel_list:
  assumes "uinv u" "ag_List up (tel f (tel g u)) = Some (res, u')"
  shows "uinv u'" "list_only (wire u) (wire u')" "\<And>ks. res = Inr ks \<Longrightarrow> ks \<in> listings (wire u')"
proof -
  have i: "uinv (tel f (tel g u))" using assms(1) by (intro tel_inv)
  from list_inv [OF i assms(2)] show "uinv u'" .
  from list_wire [OF i assms(2)] show "list_only (wire u) (wire u')" by simp
  show "ks \<in> listings (wire u')" if "res = Inr ks" for ks
    using list_listed [OF i assms(2) [unfolded that]] .
qed

lemma cached_List_spec:
  assumes call: "cached_List tel now up (c, u) = Some (res, (c', u'))"
    and inv: "cached_inv wire uinv (c, u)"
  shows "cached_inv wire uinv (c', u') \<and> list_only (wire u) (wire u') \<and> ca_ttl c' = ca_ttl c \<and>
    (\<forall>ks. res = Inr ks \<longrightarrow> ks \<in> listings (wire u'))"
proof -
  from inv have i: "uinv u" and ci: "core_inv (listings (wire u)) c" and idle: "ca_inFlight c = None"
    by (simp_all add: cached_inv_def)
  show ?thesis
  proof (cases "ca_ttl c \<le> 0")
    case True
    with call have l: "ag_List up (tel addCacheRefresh (tel addCacheMiss u)) = Some (res, u')"
      and c': "c' = c" by (auto simp: cached_List_def bind_eq_Some_conv)
    note t = tel_list [OF i l]
    from core_inv_mono [OF ci list_only_listings [OF t(2)]] t idle show ?thesis
      by (simp add: cached_inv_def c')
  next
    case False
    obtain e c1 where en: "cache_enter (now u) c = (e, c1)" by fastforce
    then show ?thesis
    proof (cases rule: cache_enter_cases)
      case hit
      with call False en have r: "res = list_result (ca_keys c, ca_cachedErr c)" "c' = c"
        "u' = tel addCacheHit u" by (auto simp: cached_List_def)
      have "ca_hasSnapshot c \<or> ca_cachedErr c \<noteq> None" using hit(3) ci by (auto simp: core_inv_def)
      then have "ks \<in> listings (wire u)" if "res = Inr ks" for ks
        using that ci by (auto simp: r(1) list_result_def core_inv_def split: option.splits)
      with i ci idle tel_inv [OF i] show ?thesis by (simp add: r cached_inv_def)
    next
      case (wait ch)
      with idle show ?thesis by simp
    next
      case fetch
      define ch where "ch = length (ch_closed c)"
      have "cache_enter (now u) c = (CacheFetch ch, c1)" using en fetch by (simp add: ch_def)
      with call False obtain res0 where
        l: "ag_List up (tel addCacheRefresh (tel addCacheMiss u)) = Some (res0, u')"
        and "(case cache_finish (now u') ch res0 c1 of (r, c) \<Rightarrow> (list_result r, c)) = (res, c')"
        by (cases "ag_List up (tel addCacheRefresh (tel addCacheMiss u))")
          (auto simp: cached_List_def Let_def split_beta)
      then obtain r where f: "cache_finish (now u') ch res0 c1 = (r, c')" and res: "res = list_result r"
        by (cases "cache_finish (now u') ch res0 c1") simp
      note t = tel_list [OF i l]
      from core_inv_mono [OF core_inv_enter [OF en ci] list_only_listings [OF t(2)]]
      have "core_inv (listings (wire u')) c1" .
      from core_inv_finish [OF f this t(3)] have ci': "core_inv (listings (wire u')) c'" .
      obtain ks err where r: "r = (ks, err)" by fastforce
      note fs = cache_finish_simps [OF f [unfolded r]]
      have "ks' \<in> listings (wire u')" if "res = Inr ks'" for ks'
        using that ci' fs(5-9) t(3) core_inv_enter [OF en ci]
        by (cases res0) (auto simp: res r list_result_def core_inv_def split: option.splits if_splits)
      with ci' t fs fetch show ?thesis by (simp add: cached_inv_def)
    qed
  qed
qed

end

sublocale cached_source \<subseteq> cached: agent_source "cachedAgent tel now up" "\<lambda>(c, u). wire u"
  "cached_inv wire uinv" "\<lambda>f (c, u). (c, tel f u)"
proof unfold_locales
  fix g :: "proxy_telemetry \<Rightarrow> proxy_telemetry" and x :: "cache_core \<times> 'u"
  show "(case (case x of (c, u) \<Rightarrow> (c, tel g u)) of (c, u) \<Rightarrow> wire u) = (case x of (c, u) \<Rightarrow> wire u)"
    by (cases x) simp
next
  fix g :: "proxy_telemetry \<Rightarrow> proxy_telemetry" and x :: "cache_core \<times> 'u"
  assume "cached_inv wire uinv x"
  then show "cached_inv wire uinv (case x of (c, u) \<Rightarrow> (c, tel g u))"
    by (cases x) (simp add: cached_inv_def tel_inv)
next
  fix x res x' assume "cached_inv wire uinv x" "ag_List (cachedAgent tel now up) x = Some (res, x')"
  then show "cached_inv wire uinv x'"
    "list_only (case x of (c, u) \<Rightarrow> wire u) (case x' of (c, u) \<Rightarrow> wire u)"
    using cached_List_spec by (cases x; cases x'; simp)+
next
  fix x ks x' assume "cached_inv wire uinv x" "ag_List (cachedAgent tel now up) x = Some (Inr ks, x')"
  then show "ks \<in> listings (case x' of (c, u) \<Rightarrow> wire u)"
    using cached_List_spec by (cases x; cases x'; simp)
next
  fix x k d f res x'
  assume "cached_inv wire uinv x" "ag_SignWithFlags (cachedAgent tel now up) k d f x = Some (res, x')"
  then obtain c u u' where x: "x = (c, u)" "x' = (c, u')" "uinv u" "ca_inFlight c = None"
    "core_inv (listings (wire u)) c" "ag_SignWithFlags up k d f u = Some (res, u')"
    by (cases x) (auto simp: cached_inv_def on_up_def bind_eq_Some_conv)
  with sign_inv [OF x(3,6)] sign_wire [OF x(3,6)] sign_only_listings [OF sign_wire [OF x(3,6)]]
  show "cached_inv wire uinv x'"
    "sign_only k d f (case x of (c, u) \<Rightarrow> wire u) (case x' of (c, u) \<Rightarrow> wire u)"
    by (simp_all add: cached_inv_def)
qed

end
