(* ===== verification/GoTime.thy ===== *)
theory GoTime
  imports Prelude
begin

text \<open>
  The parts of Go's \<open>time\<close> and \<open>strconv\<close> that render numbers: decimal integers and
  \<open>Duration.String\<close>. A duration is an \<open>int\<close> count of nanoseconds.
\<close>

definition digit_char :: "nat \<Rightarrow> char" where
  "digit_char d = char_of (48 + d)"

fun itoa :: "nat \<Rightarrow> string" where
  "itoa n = (if n < 10 then [digit_char n] else itoa (n div 10) @ [digit_char (n mod 10)])"

declare itoa.simps [simp del]

definition format_int :: "int \<Rightarrow> string" where
  "format_int i = (if i < 0 then CHR ''-'' # itoa (nat (- i)) else itoa (nat i))"

text \<open>
  \<open>fmtFrac\<close>: the fraction of \<open>v / 10 ^ prec\<close> without trailing zeros, put before what was
  written so far, and the integral part.
\<close>

fun fmtFrac :: "string \<Rightarrow> bool \<Rightarrow> nat \<Rightarrow> nat \<Rightarrow> string \<times> nat" where
  "fmtFrac out printing v 0 = ((if printing then CHR ''.'' # out else out), v)"
| "fmtFrac out printing v (Suc prec) =
     (let digit = v mod 10; printing = (printing \<or> digit \<noteq> 0)
      in fmtFrac (if printing then digit_char digit # out else out) printing (v div 10) prec)"

definition Duration_magnitude :: "nat \<Rightarrow> string" where
  "Duration_magnitude u =
     (if u < 1000000000 then
        (if u = 0 then ''0s''
         else let (prec, suffix) =
                (if u < 1000 then (0, ''ns'')
                 else if u < 1000000 then (3, [CHR 0xC2, CHR 0xB5, CHR ''s''])
                 else (6, ''ms''));
                (out, u) = fmtFrac suffix False u prec
              in itoa u @ out)
      else
        (let (out, u) = fmtFrac ''s'' False u 9;
             out = itoa (u mod 60) @ out;
             u = u div 60
         in if u = 0 then out
            else let out = itoa (u mod 60) @ ''m'' @ out; u = u div 60
                 in if u = 0 then out else itoa u @ ''h'' @ out))"

definition Duration_String :: "int \<Rightarrow> string" where
  "Duration_String d =
     (if d < 0 then CHR ''-'' # Duration_magnitude (nat (- d)) else Duration_magnitude (nat d))"

lemma itoa_digits: "set (itoa n) \<subseteq> digit_char ` {..<10}"
  by (induction n rule: itoa.induct) (subst itoa.simps, auto split: if_splits)

lemma itoa_nonempty [simp]: "itoa n \<noteq> []"
  by (subst itoa.simps) simp

end
