(* ===== verification/Upstream.thy ===== *)
theory Upstream
  imports AgentIface GoStrings GoTime
begin

text \<open>
  \<open>internal/proxy/upstream.go\<close>: the client that shares one connection to the upstream
  agent, dials it on first use, replaces it after a transport failure and drops it when the
  watchdog finds a request unanswered.

  The agent, the operating system and the x/crypto client are outside the program: they are
  the parameter \<open>w_env\<close> of the world, which fixes the outcome of every interaction (the
  n-th dial or request). The theorems hold for every such function. Each operation here is
  one client goroutine running alone; what other goroutines can do to it through the
  environment (an I/O error recorded on the shared connection, the watchdog firing, the
  lifetime ending) is part of the outcome.
\<close>

section \<open>The environment\<close>

text \<open>
  The outcome of one interaction. \<open>Fails\<close>: it ends with the error \<open>rp_err\<close>. \<open>NoAnswer\<close>:
  no answer ever comes; if something closes or cancels the connection, the client reports
  \<open>rp_err\<close>. \<open>rp_ioerr\<close>: an I/O error was recorded on the connection. \<open>rp_late\<close>: the
  watchdog fired just as the answer came in. \<open>rp_cancel\<close>: the client's lifetime ended
  meanwhile.
\<close>

datatype answer = Answer | Fails | NoAnswer

record reply =
  rp_answer :: answer
  rp_err :: goerr
  rp_keys :: "agent_key list"
  rp_bytes :: string
  rp_blobs :: "blob list"
  rp_ioerr :: bool
  rp_late :: bool
  rp_cancel :: bool
  rp_close_err :: "goerr option"
  rp_elapsed :: nat

record world =
  w_env :: "nat \<Rightarrow> reply"
  w_tick :: nat
  w_now :: nat
  w_wire :: "wire_event list"
  w_tel :: "proxy_telemetry option"

section \<open>State\<close>

text \<open>A connection: the flags \<open>unanswered\<close> and \<open>failed\<close>, and whether it was closed.\<close>

record upstream_conn =
  uc_unanswered :: bool
  uc_failed :: bool
  uc_closed :: bool

definition fresh_conn :: upstream_conn where
  "fresh_conn = \<lparr>uc_unanswered = False, uc_failed = False, uc_closed = False\<rparr>"

record reconnect_client =
  rc_canceled :: bool
  rc_current :: "nat option"
  rc_requestTimeout :: int
  rc_closed :: bool
  rc_closeErr :: "goerr option"
  rc_connected :: bool
  rc_conns :: "upstream_conn list"
  rc_world :: world

definition newReconnectClient :: "int \<Rightarrow> world \<Rightarrow> reconnect_client" where
  "newReconnectClient timeout w =
     \<lparr>rc_canceled = False, rc_current = None, rc_requestTimeout = timeout, rc_closed = False,
      rc_closeErr = None, rc_connected = False, rc_conns = [], rc_world = w\<rparr>"

definition errUpstreamClosed :: goerr where
  "errUpstreamClosed =
     ErrWrap ''upstream agent client closed: use of closed network connection''
       [ErrSentinel NetErrClosed]"

section \<open>Interacting with the environment\<close>

text \<open>\<open>next_reply\<close> consumes one outcome: time passes, and the lifetime may end.\<close>

definition next_reply :: "reconnect_client \<Rightarrow> reply \<times> reconnect_client" where
  "next_reply r =
     (let w = rc_world r; rep = w_env w (w_tick w)
      in (rep, r\<lparr>rc_canceled := rc_canceled r \<or> rp_cancel rep,
                rc_world := w\<lparr>w_tick := Suc (w_tick w), w_now := w_now w + rp_elapsed rep\<rparr>\<rparr>))"

definition emit :: "wire_event list \<Rightarrow> reconnect_client \<Rightarrow> reconnect_client" where
  "emit evs r = r\<lparr>rc_world := (rc_world r)\<lparr>w_wire := w_wire (rc_world r) @ evs\<rparr>\<rparr>"

definition rc_tel :: "(proxy_telemetry \<Rightarrow> proxy_telemetry) \<Rightarrow> reconnect_client \<Rightarrow> reconnect_client" where
  "rc_tel f r = r\<lparr>rc_world := (rc_world r)\<lparr>w_tel := map_option f (w_tel (rc_world r))\<rparr>\<rparr>"

definition rc_wire :: "reconnect_client \<Rightarrow> wire_event list" where
  "rc_wire r = w_wire (rc_world r)"

definition upd_conn :: "nat \<Rightarrow> (upstream_conn \<Rightarrow> upstream_conn) \<Rightarrow> reconnect_client \<Rightarrow> reconnect_client" where
  "upd_conn c f r = r\<lparr>rc_conns := (rc_conns r)[c := f (rc_conns r ! c)]\<rparr>"

abbreviation conn_of :: "reconnect_client \<Rightarrow> nat \<Rightarrow> upstream_conn" where
  "conn_of r c \<equiv> rc_conns r ! c"

text \<open>\<open>upstreamCall.finish\<close>: the call is counted (its debug record is in \<open>UpstreamLog\<close>).\<close>

definition call_finish :: "goerr option \<Rightarrow> reconnect_client \<Rightarrow> reconnect_client" where
  "call_finish err r = rc_tel (upstreamCall (err \<noteq> None)) r"

text \<open>
  \<open>conn.Close()\<close>. Closing twice is an error of the operating system's connection; its
  text is the environment's.
\<close>

definition close_conn :: "nat \<Rightarrow> reconnect_client \<Rightarrow> goerr option \<times> reconnect_client" where
  "close_conn c r =
     (let (rep, r) = next_reply r
      in (rp_close_err rep, emit [EvClose c] (upd_conn c (\<lambda>u. u\<lparr>uc_closed := True\<rparr>) r)))"

text \<open>
  The closure \<open>dial\<close>. \<open>DialContext\<close> has a deadline, so it always returns; each outcome but
  \<open>Answer\<close> is an error. A new connection is numbered by the count of earlier ones.
\<close>

definition dial :: "reconnect_client \<Rightarrow> (goerr + nat) \<times> reconnect_client" where
  "dial r =
     (let (rep, r) = next_reply r; r = emit [EvDial] r
      in if rp_answer rep = Answer
         then (Inr (length (rc_conns r)),
               call_finish None (r\<lparr>rc_conns := rc_conns r @ [fresh_conn]\<rparr>))
         else (Inl (ErrWrap (''connecting to upstream agent: '' @ err_text (rp_err rep)) [rp_err rep]),
               call_finish (Some (rp_err rep)) r))"

section \<open>Connections\<close>

text \<open>\<open>connection\<close>: the lock-free load, then the section under the mutex.\<close>

definition connection_locked :: "reconnect_client \<Rightarrow> (goerr + nat) \<times> reconnect_client" where
  "connection_locked r =
     (if rc_closed r \<or> rc_canceled r then (Inl errUpstreamClosed, r)
      else case rc_current r of Some c \<Rightarrow> (Inr c, r)
      | None \<Rightarrow>
          (case dial r of
             (Inl e, r) \<Rightarrow> (Inl e, r)
           | (Inr c, r) \<Rightarrow>
               if rc_canceled r
               then (let (_, r) = close_conn c r in (Inl errUpstreamClosed, r))
               else (let r = r\<lparr>rc_current := Some c\<rparr>
                     in if rc_connected r then (Inr c, rc_tel addReconnect r)
                        else (Inr c, r\<lparr>rc_connected := True\<rparr>))))"

definition connection :: "reconnect_client \<Rightarrow> (goerr + nat) \<times> reconnect_client" where
  "connection r =
     (case rc_current r of Some c \<Rightarrow> (Inr c, r) | None \<Rightarrow> connection_locked r)"

definition reconnect :: "nat \<Rightarrow> reconnect_client \<Rightarrow> bool \<times> reconnect_client" where
  "reconnect failed r =
     (if rc_closed r \<or> rc_canceled r then (False, r)
      else if rc_current r \<noteq> Some failed \<and> rc_current r \<noteq> None then (True, r)
      else case dial r of
             (Inl e, r) \<Rightarrow> (False, r)
           | (Inr c, r) \<Rightarrow>
               if rc_canceled r
               then (let (_, r) = close_conn c r in (False, r))
               else (let old = rc_current r;
                         r = rc_tel addReconnect (r\<lparr>rc_current := Some c, rc_connected := True\<rparr>)
                     in case old of
                          None \<Rightarrow> (True, r)
                        | Some o' \<Rightarrow> (let (err, r) = close_conn o' r
                                     in (True, call_finish err r))))"

text \<open>\<open>drop\<close>: both compare-and-swaps, then the close.\<close>

definition drop_conn :: "nat \<Rightarrow> reconnect_client \<Rightarrow> reconnect_client" where
  "drop_conn c r =
     (if uc_unanswered (conn_of r c) then r
      else let r = upd_conn c (\<lambda>u. u\<lparr>uc_unanswered := True\<rparr>) r
           in if rc_current r \<noteq> Some c then r
              else let r = r\<lparr>rc_current := None\<rparr>; (err, r) = close_conn c r
                   in call_finish err r)"

definition unansweredErr :: "nat \<Rightarrow> reconnect_client \<Rightarrow> goerr option \<Rightarrow> goerr option" where
  "unansweredErr c r err =
     (case err of None \<Rightarrow> None
      | Some e \<Rightarrow> if \<not> uc_unanswered (conn_of r c) then Some e
          else Some (ErrWrap (''upstream agent left a request unanswered for '' @
            Duration_String (rc_requestTimeout r) @ '': '' @ err_text e) [e]))"

definition agentClientErrorPrefix :: string where
  "agentClientErrorPrefix = ''agent: client error:''"

definition transportFailed :: "nat \<Rightarrow> reconnect_client \<Rightarrow> goerr option \<Rightarrow> bool" where
  "transportFailed c r err =
     (case err of None \<Rightarrow> False
      | Some e \<Rightarrow> uc_failed (conn_of r c) \<and> has_prefix agentClientErrorPrefix (err_text e))"

definition rc_Close :: "reconnect_client \<Rightarrow> goerr option \<times> reconnect_client" where
  "rc_Close r =
     (let r = r\<lparr>rc_canceled := True\<rparr>
      in if rc_closed r then (rc_closeErr r, r)
         else let r = r\<lparr>rc_closed := True\<rparr>
              in case rc_current r of
                   None \<Rightarrow> (None, r)
                 | Some c \<Rightarrow>
                     (let (err, r) = close_conn c r;
                          r = call_finish err (r\<lparr>rc_closeErr := err\<rparr>)
                      in (err, r)))"

section \<open>Requests\<close>

text \<open>
  A method of the x/crypto client on connection \<open>c\<close>, under the watchdog of \<open>watch\<close>. On a
  closed connection nothing is written and the call fails. Without an answer the watchdog, if
  there is one, runs \<open>drop\<close>; the read the call is blocked in ends only if the connection is
  then closed, or when the end of the lifetime sets its deadline. Otherwise the call never
  returns, which is the value \<open>None\<close>.
\<close>

definition fail_conn :: "nat \<Rightarrow> reconnect_client \<Rightarrow> reconnect_client" where
  "fail_conn c = upd_conn c (\<lambda>u. u\<lparr>uc_failed := True\<rparr>)"

definition client_call ::
  "nat \<Rightarrow> request \<Rightarrow> reconnect_client \<Rightarrow> ((goerr option \<times> reply) \<times> reconnect_client) option" where
  "client_call c q r =
     (let watched = rc_requestTimeout r > 0;
          (rep, r1) = next_reply r
      in if uc_closed (conn_of r c) then Some ((Some (rp_err rep), rep), fail_conn c r1)
         else let r2 = emit [EvRequest c q] r1;
                  r3 = (if rp_ioerr rep then fail_conn c r2 else r2);
                  late = (if rp_late rep \<and> watched then drop_conn c r3 else r3)
              in case rp_answer rep of
                   Answer \<Rightarrow>
                     Some ((None, rep), if q = ReqList then emit [EvListed (rp_keys rep)] late else late)
                 | Fails \<Rightarrow> Some ((Some (rp_err rep), rep), late)
                 | NoAnswer \<Rightarrow>
                     let r4 = (if watched then drop_conn c r3 else r3)
                     in if uc_closed (conn_of r4 c) \<or> rc_canceled r4
                        then Some ((Some (rp_err rep), rep), fail_conn c r4)
                        else None)"

text \<open>\<open>watched_call\<close>: the call, then \<open>unansweredErr\<close>; \<open>attempt\<close> also counts it.\<close>

definition watched_call ::
  "nat \<Rightarrow> request \<Rightarrow> reconnect_client \<Rightarrow> ((goerr option \<times> reply) \<times> reconnect_client) option" where
  "watched_call c q r = do {
     ((err, rep), r) \<leftarrow> client_call c q r;
     Some ((unansweredErr c r err, rep), r)
   }"

definition attempt ::
  "nat \<Rightarrow> request \<Rightarrow> reconnect_client \<Rightarrow> ((goerr option \<times> reply) \<times> reconnect_client) option" where
  "attempt c q r = do {
     ((err, rep), r) \<leftarrow> watched_call c q r;
     Some ((err, rep), call_finish err r)
   }"

definition value_or :: "goerr option \<Rightarrow> 'a \<Rightarrow> goerr + 'a" where
  "value_or err v = (case err of None \<Rightarrow> Inr v | Some e \<Rightarrow> Inl e)"

definition listAttempt ::
  "nat \<Rightarrow> reconnect_client \<Rightarrow> ((goerr + agent_key list) \<times> reconnect_client) option" where
  "listAttempt c r = do {
     ((err, rep), r) \<leftarrow> attempt c ReqList r;
     Some (value_or err (rp_keys rep), r)
   }"

definition rc_List :: "reconnect_client \<Rightarrow> ((goerr + agent_key list) \<times> reconnect_client) option" where
  "rc_List r =
     (case connection r of
        (Inl e, r) \<Rightarrow> Some (Inl e, r)
      | (Inr c, r) \<Rightarrow> do {
          (res, r) \<leftarrow> listAttempt c r;
          (case res of
             Inr ks \<Rightarrow> Some (Inr ks, r)
           | Inl err \<Rightarrow>
               if \<not> transportFailed c r (Some err) \<or> uc_unanswered (conn_of r c)
               then Some (Inl err, r)
               else case reconnect c r of
                      (False, r) \<Rightarrow> Some (Inl err, r)
                    | (True, r) \<Rightarrow>
                        (case connection r of
                           (Inl _, r) \<Rightarrow> Some (Inl err, r)
                         | (Inr next', r) \<Rightarrow> listAttempt next' r))
        })"

text \<open>\<open>signAttempt\<close> and \<open>signWithFlagsAttempt\<close> differ in the request only.\<close>

definition rc_sign ::
  "request \<Rightarrow> reconnect_client \<Rightarrow> ((goerr + string) \<times> reconnect_client) option" where
  "rc_sign q r =
     (case connection r of
        (Inl e, r) \<Rightarrow> Some (Inl e, r)
      | (Inr c, r) \<Rightarrow> do {
          ((err, rep), r) \<leftarrow> attempt c q r;
          let r = (if transportFailed c r err \<and> \<not> uc_unanswered (conn_of r c)
                   then snd (reconnect c r) else r);
          Some (value_or err (rp_bytes rep), r)
        })"

definition rc_Sign ::
  "blob \<Rightarrow> string \<Rightarrow> reconnect_client \<Rightarrow> ((goerr + string) \<times> reconnect_client) option" where
  "rc_Sign k d = rc_sign (ReqSign k d)"

definition rc_SignWithFlags ::
  "blob \<Rightarrow> string \<Rightarrow> sig_flags \<Rightarrow> reconnect_client \<Rightarrow> ((goerr + string) \<times> reconnect_client) option" where
  "rc_SignWithFlags k d f = rc_sign (ReqSignWithFlags k d f)"

text \<open>\<open>withConnection\<close> and the operations that use it (each counted by its own \<open>finish\<close>).\<close>

definition withConnection ::
  "request \<Rightarrow> reconnect_client \<Rightarrow> ((goerr option \<times> reply option) \<times> reconnect_client) option" where
  "withConnection q r =
     (case connection r of
        (Inl e, r) \<Rightarrow> Some ((Some e, None), r)
      | (Inr c, r) \<Rightarrow> do {
          ((err, rep), r) \<leftarrow> watched_call c q r;
          Some ((err, Some rep), r)
        })"

definition tracked ::
  "request \<Rightarrow> reconnect_client \<Rightarrow> ((goerr option \<times> reply option) \<times> reconnect_client) option" where
  "tracked q r = do {
     ((err, rep), r) \<leftarrow> withConnection q r;
     Some ((err, rep), call_finish err r)
   }"

definition tracked_err :: "request \<Rightarrow> reconnect_client \<Rightarrow> (goerr option \<times> reconnect_client) option" where
  "tracked_err q r = do { ((err, _), r) \<leftarrow> tracked q r; Some (err, r) }"

definition tracked_value ::
  "request \<Rightarrow> (reply \<Rightarrow> 'a) \<Rightarrow> 'a \<Rightarrow> reconnect_client \<Rightarrow> ((goerr + 'a) \<times> reconnect_client) option" where
  "tracked_value q f none r = do {
     ((err, rep), r) \<leftarrow> tracked q r;
     Some (value_or err (case rep of Some rep \<Rightarrow> f rep | None \<Rightarrow> none), r)
   }"

definition reconnect_agent :: "reconnect_client extended_agent" where
  "reconnect_agent =
     \<lparr>ag_List = rc_List, ag_Sign = rc_Sign, ag_SignWithFlags = rc_SignWithFlags,
      ag_Add = (\<lambda>key. tracked_err (ReqAdd key)), ag_Remove = (\<lambda>key. tracked_err (ReqRemove key)),
      ag_RemoveAll = tracked_err ReqRemoveAll,
      ag_Lock = (\<lambda>p. tracked_err (ReqLock p)), ag_Unlock = (\<lambda>p. tracked_err (ReqUnlock p)),
      ag_Signers = tracked_value ReqSigners rp_blobs [],
      ag_Extension = (\<lambda>s b. tracked_value (ReqExtension s b) rp_bytes '''')\<rparr>"

section \<open>The invariant and the frame of each operation\<close>

text \<open>
  The current connection was dialed and not dropped, every other connection is closed (no
  connection leaks), and once the client is closed, all are.
\<close>

definition rc_inv :: "reconnect_client \<Rightarrow> bool" where
  "rc_inv r \<longleftrightarrow>
     (\<forall>c. rc_current r = Some c \<longrightarrow> c < length (rc_conns r) \<and> \<not> uc_unanswered (conn_of r c)) \<and>
     (\<forall>c < length (rc_conns r). rc_current r = Some c \<or> uc_closed (conn_of r c)) \<and>
     (rc_closed r \<longrightarrow> rc_canceled r \<and> (\<forall>c < length (rc_conns r). uc_closed (conn_of r c))) \<and>
     (rc_conns r = [] \<or> rc_canceled r \<or> rc_connected r)"

text \<open>
  \<open>rc_frame qs L r r'\<close>: from \<open>r\<close> to \<open>r'\<close> exactly the requests \<open>qs\<close> were written, the
  listings \<open>L\<close> received, and what no operation undoes still holds.
\<close>

definition rc_frame ::
  "request list \<Rightarrow> agent_key list set \<Rightarrow> reconnect_client \<Rightarrow> reconnect_client \<Rightarrow> bool" where
  "rc_frame qs L r r' \<longleftrightarrow>
     (\<exists>evs. rc_wire r' = rc_wire r @ evs \<and> requests evs = qs \<and> listings evs = L) \<and>
     rc_requestTimeout r' = rc_requestTimeout r \<and> rc_closed r' = rc_closed r \<and>
     (rc_canceled r \<longrightarrow> rc_canceled r') \<and> length (rc_conns r) \<le> length (rc_conns r') \<and>
     (\<forall>c < length (rc_conns r). uc_closed (conn_of r c) \<longrightarrow> uc_closed (conn_of r' c))"

lemma rc_frame_refl [simp]: "rc_frame [] {} r r"
  by (simp add: rc_frame_def)

lemma rc_frame_trans:
  assumes "rc_frame qs L r r'" "rc_frame qs' L' r' r''"
  shows "rc_frame (qs @ qs') (L \<union> L') r r''"
proof -
  from assms obtain evs evs' where
    "rc_wire r' = rc_wire r @ evs" "requests evs = qs" "listings evs = L"
    "rc_wire r'' = rc_wire r' @ evs'" "requests evs' = qs'" "listings evs' = L'"
    by (auto simp: rc_frame_def)
  then have "\<exists>evs. rc_wire r'' = rc_wire r @ evs \<and> requests evs = qs @ qs' \<and> listings evs = L \<union> L'"
    by (intro exI [of _ "evs @ evs'"]) simp
  with assms show ?thesis by (auto simp: rc_frame_def)
qed

lemma next_reply_frame:
  "next_reply r = (rep, r') \<Longrightarrow> rc_inv r \<Longrightarrow>
   rc_inv r' \<and> rc_frame [] {} r r' \<and> rc_conns r' = rc_conns r \<and> rc_current r' = rc_current r \<and>
   rc_connected r' = rc_connected r"
  by (auto simp: next_reply_def Let_def rc_inv_def rc_frame_def rc_wire_def)

lemma rc_tel_simps [simp]:
  "rc_inv (rc_tel f r) = rc_inv r" "rc_wire (rc_tel f r) = rc_wire r"
  "rc_conns (rc_tel f r) = rc_conns r" "rc_current (rc_tel f r) = rc_current r"
  "rc_canceled (rc_tel f r) = rc_canceled r" "rc_closed (rc_tel f r) = rc_closed r"
  "rc_requestTimeout (rc_tel f r) = rc_requestTimeout r" "rc_connected (rc_tel f r) = rc_connected r"
  by (simp_all add: rc_tel_def rc_inv_def rc_wire_def)

lemma call_finish_simps [simp]:
  "rc_inv (call_finish e r) = rc_inv r" "rc_wire (call_finish e r) = rc_wire r"
  "rc_conns (call_finish e r) = rc_conns r" "rc_current (call_finish e r) = rc_current r"
  "rc_canceled (call_finish e r) = rc_canceled r" "rc_closed (call_finish e r) = rc_closed r"
  "rc_requestTimeout (call_finish e r) = rc_requestTimeout r"
  "rc_connected (call_finish e r) = rc_connected r"
  by (simp_all add: call_finish_def)

lemma rc_frame_tel [simp]:
  "rc_frame qs L r (rc_tel f r') = rc_frame qs L r r'"
  "rc_frame qs L r (call_finish e r') = rc_frame qs L r r'"
  by (simp_all add: rc_frame_def)

lemma emit_simps [simp]:
  "rc_inv (emit evs r) = rc_inv r" "rc_wire (emit evs r) = rc_wire r @ evs"
  "rc_conns (emit evs r) = rc_conns r" "rc_current (emit evs r) = rc_current r"
  "rc_canceled (emit evs r) = rc_canceled r" "rc_closed (emit evs r) = rc_closed r"
  "rc_requestTimeout (emit evs r) = rc_requestTimeout r" "rc_connected (emit evs r) = rc_connected r"
  by (simp_all add: emit_def rc_inv_def rc_wire_def)

lemma emit_frame: "rc_frame (requests evs) (listings evs) r (emit evs r)"
  by (auto simp: rc_frame_def)

lemma fail_conn_simps [simp]:
  "rc_inv (fail_conn c r) = rc_inv r" "rc_frame [] {} r (fail_conn c r)"
  "rc_current (fail_conn c r) = rc_current r" "rc_closed (fail_conn c r) = rc_closed r"
  "rc_canceled (fail_conn c r) = rc_canceled r" "rc_wire (fail_conn c r) = rc_wire r"
  "rc_requestTimeout (fail_conn c r) = rc_requestTimeout r"
  "length (rc_conns (fail_conn c r)) = length (rc_conns r)"
  by (auto simp: fail_conn_def upd_conn_def rc_inv_def rc_frame_def rc_wire_def nth_list_update_if split: if_splits)

lemma close_conn_frame:
  assumes "close_conn c r = (err, r')"
  shows "rc_frame [] {} r r' \<and> rc_current r' = rc_current r \<and> rc_connected r' = rc_connected r \<and>
    length (rc_conns r') = length (rc_conns r) \<and>
    (\<forall>d. d < length (rc_conns r) \<longrightarrow> uc_unanswered (conn_of r' d) = uc_unanswered (conn_of r d) \<and>
       uc_closed (conn_of r' d) = (d = c \<or> uc_closed (conn_of r d)))"
  using assms by (auto simp: close_conn_def next_reply_def Let_def upd_conn_def rc_frame_def
      rc_wire_def emit_def nth_list_update_if split: if_splits)

text \<open>Closing any connection keeps the invariant; after \<open>current\<close> moved on, it restores it.\<close>

lemma close_conn_inv: "close_conn c r = (err, r') \<Longrightarrow> rc_inv r \<Longrightarrow> rc_inv r'"
  using close_conn_frame [of c r err r'] unfolding rc_inv_def rc_frame_def by auto

lemma dial_frame:
  assumes "dial r = (res, r')" "rc_inv r"
  shows "rc_frame [] {} r r' \<and> rc_current r' = rc_current r \<and> rc_connected r' = rc_connected r \<and>
    (case res of Inl e \<Rightarrow> rc_inv r' \<and> rc_conns r' = rc_conns r
     | Inr c \<Rightarrow> c = length (rc_conns r) \<and> rc_conns r' = rc_conns r @ [fresh_conn])"
  using assms by (auto simp: dial_def next_reply_def Let_def rc_frame_def rc_wire_def emit_def
      call_finish_def rc_tel_def rc_inv_def nth_append split: if_splits)

lemma rc_inv_currentD:
  "rc_inv r \<Longrightarrow> rc_current r = Some c \<Longrightarrow> c < length (rc_conns r) \<and> \<not> uc_unanswered (conn_of r c)"
  by (simp add: rc_inv_def)

text \<open>What \<open>connection\<close> and \<open>reconnect\<close> keep, and what they establish.\<close>

lemma close_fresh_conn:
  assumes "dial r = (Inr c, r1)" "close_conn c r1 = (err, r2)" "rc_inv r" "rc_canceled r1"
  shows "rc_inv r2 \<and> rc_frame [] {} r r2"
proof -
  note d = dial_frame [OF assms(1,3)] and k = close_conn_frame [OF assms(2)]
  have "rc_frame [] {} r r2" using rc_frame_trans [of "[]" "{}" r r1 "[]" "{}" r2] d k by auto
  moreover have "rc_canceled r2" using k assms(4) by (auto simp: rc_frame_def)
  moreover have "rc_inv r2" using d k assms(3) \<open>rc_canceled r2\<close>
    by (auto simp: rc_inv_def rc_frame_def nth_append less_Suc_eq)
  ultimately show ?thesis by simp
qed

lemma connection_locked_frame:
  assumes "connection_locked r = (res, r')" "rc_inv r"
  shows "rc_inv r' \<and> rc_frame [] {} r r' \<and> (\<forall>c. res = Inr c \<longrightarrow> rc_current r' = Some c)"
proof (cases "rc_closed r \<or> rc_canceled r \<or> rc_current r \<noteq> None")
  case True
  with assms show ?thesis by (auto simp: connection_locked_def split: option.splits if_splits)
next
  case False
  then have idle: "\<not> rc_closed r" "\<not> rc_canceled r" "rc_current r = None" by auto
  obtain res1 r1 where d: "dial r = (res1, r1)" by fastforce
  note df = dial_frame [OF d assms(2)]
  show ?thesis
  proof (cases res1)
    case (Inl e)
    with assms(1) idle d df show ?thesis by (auto simp: connection_locked_def)
  next
    case (Inr c)
    note d = d [unfolded Inr]
    show ?thesis
    proof (cases "rc_canceled r1")
      case True
      obtain err r2 where k: "close_conn c r1 = (err, r2)" by fastforce
      from assms(1) idle d True k have "res = Inl errUpstreamClosed" "r' = r2"
        by (auto simp: connection_locked_def)
      with close_fresh_conn [OF d k assms(2) True] show ?thesis by simp
    next
      case False
      let ?r2 = "r1\<lparr>rc_current := Some c\<rparr>"
      from assms(1) idle d False have r': "res = Inr c"
        "r' = (if rc_connected ?r2 then rc_tel addReconnect ?r2 else ?r2\<lparr>rc_connected := True\<rparr>)"
        by (auto simp: connection_locked_def Let_def split: if_splits)
      have "rc_inv (?r2\<lparr>rc_connected := True\<rparr>)" using Inr df assms(2) idle
        by (auto simp: rc_inv_def rc_frame_def fresh_conn_def nth_append less_Suc_eq)
      moreover have "rc_inv ?r2" if "rc_connected ?r2"
      proof -
        from that have "?r2\<lparr>rc_connected := True\<rparr> = ?r2" by simp
        with \<open>rc_inv (?r2\<lparr>rc_connected := True\<rparr>)\<close> show ?thesis by (simp only:)
      qed
      moreover have "rc_frame [] {} r ?r2" "rc_frame [] {} r (?r2\<lparr>rc_connected := True\<rparr>)"
        using df by (simp_all add: rc_frame_def rc_wire_def)
      ultimately show ?thesis using r' by auto
    qed
  qed
qed

lemma connection_frame:
  assumes "connection r = (res, r')" "rc_inv r"
  shows "rc_inv r' \<and> rc_frame [] {} r r' \<and> (\<forall>c. res = Inr c \<longrightarrow> rc_current r' = Some c)"
  using assms connection_locked_frame [of r res r'] by (auto simp: connection_def split: option.splits)

lemma install_conn_frame:
  assumes new: "r2 = rc_tel addReconnect (r1\<lparr>rc_current := Some c, rc_connected := True\<rparr>)"
    and d: "dial r = (Inr c, r1)" and inv: "rc_inv r"
    and idle: "\<not> rc_closed r" "rc_current r = Some failed \<or> rc_current r = None"
    and r': "r' = (case rc_current r1 of None \<Rightarrow> r2
      | Some old \<Rightarrow> (case close_conn old r2 of (err, r3) \<Rightarrow> call_finish err r3))"
  shows "rc_inv r' \<and> rc_frame [] {} r r' \<and> rc_current r' = Some c \<and> (c \<noteq> failed \<or> rc_current r = None)"
proof -
  note df = dial_frame [OF d inv]
  have r2: "rc_current r2 = Some c" "rc_conns r2 = rc_conns r1" "rc_connected r2"
    "rc_closed r2 = rc_closed r1"
    by (simp_all add: new)
  have "rc_frame [] {} r (r1\<lparr>rc_current := Some c, rc_connected := True\<rparr>)"
    using df by (simp add: rc_frame_def rc_wire_def nth_append)
  then have fr2: "rc_frame [] {} r r2" by (simp add: new)
  have c: "c = length (rc_conns r)" "rc_conns r1 = rc_conns r @ [fresh_conn]"
    "rc_closed r1 = rc_closed r" using df by (auto simp: rc_frame_def)
  show ?thesis
  proof (cases "rc_current r1")
    case None
    moreover have "rc_inv r2" using r2 c None df inv idle
      by (auto simp: rc_inv_def fresh_conn_def nth_append less_Suc_eq)
    ultimately show ?thesis using r2 fr2 df r' by auto
  next
    case (Some o')
    obtain err r3 where k: "close_conn o' r2 = (err, r3)" by fastforce
    note kf = close_conn_frame [OF k]
    have "rc_frame [] {} r r3" using rc_frame_trans [OF fr2] kf by fastforce
    moreover have o': "o' = failed" "o' < length (rc_conns r)"
      using Some df idle rc_inv_currentD [OF inv] by auto
    moreover have "rc_inv r3" using r2 c Some kf df inv idle o'
      by (auto simp: rc_inv_def rc_frame_def fresh_conn_def nth_append less_Suc_eq)
    ultimately show ?thesis using kf r2 c Some k r' by auto
  qed
qed

lemma reconnect_frame:
  assumes "reconnect failed r = (ok, r')" "rc_inv r"
  shows "rc_inv r' \<and> rc_frame [] {} r r' \<and>
    (ok \<longrightarrow> (\<exists>c. rc_current r' = Some c \<and> c \<noteq> failed \<or> rc_current r = None))"
proof (cases "rc_closed r \<or> rc_canceled r \<or> rc_current r \<noteq> Some failed \<and> rc_current r \<noteq> None")
  case True
  with assms show ?thesis by (auto simp: reconnect_def split: if_splits)
next
  case False
  then have idle: "\<not> rc_closed r" "\<not> rc_canceled r" "rc_current r = Some failed \<or> rc_current r = None"
    by auto
  obtain res1 r1 where d: "dial r = (res1, r1)" by fastforce
  note df = dial_frame [OF d assms(2)]
  show ?thesis
  proof (cases res1)
    case (Inl e)
    with assms(1) idle d df show ?thesis by (auto simp: reconnect_def split: if_splits)
  next
    case (Inr c)
    note d = d [unfolded Inr]
    show ?thesis
    proof (cases "rc_canceled r1")
      case True
      obtain err r2 where k: "close_conn c r1 = (err, r2)" by fastforce
      from assms(1) idle d True k have "\<not> ok" "r' = r2"
        by (auto simp: reconnect_def split: if_splits)
      with close_fresh_conn [OF d k assms(2) True] show ?thesis by simp
    next
      case False
      define r2 where "r2 = rc_tel addReconnect (r1\<lparr>rc_current := Some c, rc_connected := True\<rparr>)"
      from assms(1) idle d False have r': "ok" "r' = (case rc_current r1 of None \<Rightarrow> r2
          | Some old \<Rightarrow> (case close_conn old r2 of (err, r3) \<Rightarrow> call_finish err r3))"
        by (auto simp: reconnect_def Let_def r2_def split: if_splits prod.splits option.splits)
      from install_conn_frame [OF r2_def d assms(2) idle(1,3) r'(2)] show ?thesis by auto
    qed
  qed
qed

lemma drop_conn_frame:
  assumes "rc_inv r" "c < length (rc_conns r)"
  shows "rc_inv (drop_conn c r) \<and> rc_frame [] {} r (drop_conn c r) \<and>
    rc_current (drop_conn c r) \<noteq> Some c \<and> uc_closed (conn_of (drop_conn c r) c)"
proof (cases "uc_unanswered (conn_of r c)")
  case True
  with assms show ?thesis using rc_inv_currentD [OF assms(1), of c]
    by (auto simp: drop_conn_def rc_inv_def)
next
  case False
  define r1 where "r1 = upd_conn c (\<lambda>u. u\<lparr>uc_unanswered := True\<rparr>) r"
  have r1: "rc_current r1 = rc_current r" "rc_frame [] {} r r1"
    "length (rc_conns r1) = length (rc_conns r)" "rc_closed r1 = rc_closed r"
    "rc_canceled r1 = rc_canceled r" "rc_connected r1 = rc_connected r"
    "\<And>d. d < length (rc_conns r) \<Longrightarrow> conn_of r1 d =
       (if d = c then conn_of r d\<lparr>uc_unanswered := True\<rparr> else conn_of r d)"
    by (auto simp: r1_def upd_conn_def rc_frame_def rc_wire_def nth_list_update_if split: if_splits)
  show ?thesis
  proof (cases "rc_current r = Some c")
    case False
    then have "drop_conn c r = r1"
      using \<open>\<not> uc_unanswered (conn_of r c)\<close> r1(1) by (simp add: drop_conn_def Let_def r1_def)
    moreover have "uc_closed (conn_of r1 d) = uc_closed (conn_of r d)" "uc_unanswered (conn_of r1 d) =
      (d = c \<or> uc_unanswered (conn_of r d))" if "d < length (rc_conns r)" for d
      using r1(7) [OF that] by simp_all
    then have "rc_inv r1" using r1(1,3-6) False assms(1) unfolding rc_inv_def by auto
    moreover have "uc_closed (conn_of r c)" using assms False by (auto simp: rc_inv_def)
    ultimately show ?thesis using False r1 assms(2) by auto
  next
    case True
    define r2 where "r2 = r1\<lparr>rc_current := None\<rparr>"
    obtain err r3 where k: "close_conn c r2 = (err, r3)" by fastforce
    note kf = close_conn_frame [OF k]
    have r': "drop_conn c r = call_finish err r3"
      using True k \<open>\<not> uc_unanswered (conn_of r c)\<close> r1(1)
      by (simp add: drop_conn_def Let_def r1_def [symmetric] r2_def [symmetric])
    have fr2: "rc_frame [] {} r r2" "rc_conns r2 = rc_conns r1" "rc_current r2 = None"
      "rc_closed r2 = rc_closed r" "rc_connected r2 = rc_connected r" "rc_canceled r2 = rc_canceled r"
      using r1 by (simp_all add: r2_def rc_frame_def rc_wire_def)
    have fr3: "rc_frame [] {} r r3" using rc_frame_trans [OF fr2(1)] kf by fastforce
    have "rc_closed r3 = rc_closed r" "rc_canceled r \<longrightarrow> rc_canceled r3"
      using fr3 by (simp_all add: rc_frame_def)
    moreover have "uc_closed (conn_of r3 d)" if "d < length (rc_conns r)" for d
      using assms(1) that kf fr2 r1 True by (auto simp: rc_inv_def)
    moreover have "length (rc_conns r3) = length (rc_conns r)" "rc_current r3 = None"
      "rc_connected r3 = rc_connected r" using kf fr2 r1 by auto
    ultimately have "rc_inv r3" using assms(1) True by (auto simp: rc_inv_def)
    with fr3 kf fr2 r1 assms(2) show ?thesis by (simp add: r')
  qed
qed

lemma client_call_frame:
  assumes call: "client_call c q r = Some ((err, rep), r')"
    and inv: "rc_inv r" and c: "c < length (rc_conns r)"
  shows "rc_inv r' \<and> (uc_closed (conn_of r c) \<longrightarrow> err \<noteq> None) \<and>
    rc_frame (if uc_closed (conn_of r c) then [] else [q])
      (if err = None \<and> q = ReqList then {rp_keys rep} else {}) r r'"
proof -
  obtain rep1 r1 where n: "next_reply r = (rep1, r1)" by fastforce
  note nf = next_reply_frame [OF n inv]
  show ?thesis
  proof (cases "uc_closed (conn_of r c)")
    case True
    with call n have "err = Some (rp_err rep)" "r' = fail_conn c r1"
      by (auto simp: client_call_def Let_def)
    with True nf rc_frame_trans [of "[]" "{}" r r1, OF _ fail_conn_simps(2)] show ?thesis by simp
  next
    case False
    define r2 where "r2 = emit [EvRequest c q] r1"
    define r3 where "r3 = (if rp_ioerr rep1 then fail_conn c r2 else r2)"
    have "rc_frame [q] {} r r2"
      using rc_frame_trans [of "[]" "{}" r r1 "[q]" "{}" r2] nf
        emit_frame [of "[EvRequest c q]" r1] by (simp add: r2_def)
    then have r3: "rc_frame [q] {} r r3" "rc_inv r3" "c < length (rc_conns r3)"
      using rc_frame_trans [of "[q]" "{}" r r2 "[]" "{}" "fail_conn c r2"] nf c
      by (auto simp: r3_def r2_def)
    have drop: "rc_inv (drop_conn c r3)" "rc_frame [q] {} r (drop_conn c r3)"
      using drop_conn_frame [OF r3(2,3)] rc_frame_trans [OF r3(1)] by fastforce+
    have fail: "rc_frame [q] {} r (fail_conn c s)" if "rc_frame [q] {} r s" for s
      using rc_frame_trans [OF that fail_conn_simps(2)] by simp
    have listed: "rc_frame [q] {ks} r (emit [EvListed ks] s)" if "rc_frame [q] {} r s" for s ks
      using rc_frame_trans [OF that emit_frame [of "[EvListed ks]"]] by simp
    define late where "late = (if rp_late rep1 \<and> rc_requestTimeout r > 0 then drop_conn c r3 else r3)"
    have late: "rc_inv late" "rc_frame [q] {} r late" using r3 drop by (simp_all add: late_def)
    define silent where "silent = (if rc_requestTimeout r > 0 then drop_conn c r3 else r3)"
    have silent: "rc_inv silent" "rc_frame [q] {} r silent" using r3 drop by (simp_all add: silent_def)
    have r': "(case rp_answer rep1 of
        Answer \<Rightarrow> Some ((None, rep1), if q = ReqList then emit [EvListed (rp_keys rep1)] late else late)
      | Fails \<Rightarrow> Some ((Some (rp_err rep1), rep1), late)
      | NoAnswer \<Rightarrow> if uc_closed (conn_of silent c) \<or> rc_canceled silent
          then Some ((Some (rp_err rep1), rep1), fail_conn c silent) else None) =
      Some ((err, rep), r')"
      using call by (simp only: client_call_def Let_def n prod.case False if_False late_def silent_def r3_def r2_def)
    show ?thesis
    proof (cases "rp_answer rep1")
      case Answer
      with r' False late listed [OF late(2)] show ?thesis by (auto split: if_splits)
    next
      case Fails
      with r' False late show ?thesis by auto
    next
      case NoAnswer
      with r' False silent(1) fail [OF silent(2)] show ?thesis
        by (auto split: if_splits)
    qed
  qed
qed

lemma attempt_frame:
  assumes "attempt c q r = Some ((err, rep), r')" "rc_inv r" "c < length (rc_conns r)"
  shows "rc_inv r' \<and> (uc_closed (conn_of r c) \<longrightarrow> err \<noteq> None) \<and>
    rc_frame (if uc_closed (conn_of r c) then [] else [q])
      (if err = None \<and> q = ReqList then {rp_keys rep} else {}) r r'"
proof -
  from assms(1) obtain err0 r0 where c: "client_call c q r = Some ((err0, rep), r0)"
    and e: "err = unansweredErr c r0 err0" "r' = call_finish err r0"
    by (auto simp: attempt_def watched_call_def bind_eq_Some_conv)
  have "err = None \<longleftrightarrow> err0 = None" by (auto simp: e(1) unansweredErr_def split: option.splits)
  with client_call_frame [OF c assms(2,3)] e(2) show ?thesis by simp
qed

lemma value_or_simps [simp]:
  "value_or err v = Inr w \<longleftrightarrow> err = None \<and> w = v" "value_or err v = Inl e \<longleftrightarrow> err = Some e"
  by (auto simp: value_or_def split: option.splits)

lemma connection_current:
  "connection r = (Inr c, r') \<Longrightarrow> rc_inv r \<Longrightarrow> rc_inv r' \<and> rc_frame [] {} r r' \<and> c < length (rc_conns r')"
  using connection_frame [of r "Inr c" r'] rc_inv_currentD [of r' c] by simp

lemma listAttempt_frame:
  assumes "listAttempt c r = Some (res, r')" "rc_inv r" "c < length (rc_conns r)"
  shows "rc_inv r' \<and> (\<exists>qs. qs \<in> {[], [ReqList]} \<and>
    rc_frame qs (case res of Inl e \<Rightarrow> {} | Inr ks \<Rightarrow> {ks}) r r')"
proof -
  from assms(1) obtain err rep where a: "attempt c ReqList r = Some ((err, rep), r')"
    and res: "res = value_or err (rp_keys rep)"
    by (auto simp: listAttempt_def bind_eq_Some_conv)
  from attempt_frame [OF a assms(2,3)] show ?thesis
    by (cases err) (auto simp: res value_or_def split: if_splits)
qed

text \<open>
  A list call writes no request but at most two list requests, and what it returns was
  listed by the agent during the call.
\<close>

lemma rc_List_retry_frame:
  assumes retry: "Some (res, r') =
      (if giveup then Some (Inl err, r2) else if \<not> ok then Some (Inl err, r3)
       else case conn4 of Inl _ \<Rightarrow> Some (Inl err, r4) | Inr n \<Rightarrow> listAttempt n r4)"
    and first: "rc_inv r2" "rc_frame qs {} r r2" "qs \<in> {[], [ReqList]}"
    and rec: "reconnect c r2 = (ok, r3)" and conn4: "connection r3 = (conn4, r4)"
  shows "rc_inv r' \<and> (\<exists>qs. qs \<in> {[], [ReqList], [ReqList, ReqList]} \<and>
    rc_frame qs (case res of Inl e \<Rightarrow> {} | Inr ks \<Rightarrow> {ks}) r r')"
proof -
  note rf = reconnect_frame [OF rec first(1)]
  note cf = connection_frame [OF conn4 conjunct1 [OF rf]]
  have f3: "rc_frame qs {} r r3" using rc_frame_trans [OF first(2)] rf by fastforce
  have f4: "rc_frame qs {} r r4" using rc_frame_trans [OF f3] cf by fastforce
  from retry consider "res = Inl err" "r' = r2" | "res = Inl err" "r' = r3" | "res = Inl err" "r' = r4"
    | n where "conn4 = Inr n" "listAttempt n r4 = Some (res, r')"
    by (auto split: if_splits sum.splits)
  then show ?thesis
  proof cases
    case (4 n)
    then have "n < length (rc_conns r4)" using conn4 connection_current rf by blast
    from listAttempt_frame [OF 4(2) conjunct1 [OF cf] this] obtain qs' where g:
      "rc_inv r'" "qs' \<in> {[], [ReqList]}"
      "rc_frame qs' (case res of Inl e \<Rightarrow> {} | Inr ks \<Rightarrow> {ks}) r4 r'" by auto
    have "qs @ qs' \<in> {[], [ReqList], [ReqList, ReqList]}" using first(3) g(2) by auto
    moreover have "rc_frame (qs @ qs') (case res of Inl e \<Rightarrow> {} | Inr ks \<Rightarrow> {ks}) r r'"
      using rc_frame_trans [OF f4 g(3)] by simp
    ultimately show ?thesis using g(1) by blast
  qed (use first f3 f4 rf cf in \<open>auto intro: exI [of _ qs]\<close>)
qed

lemma rc_List_frame:
  assumes "rc_List r = Some (res, r')" "rc_inv r"
  shows "rc_inv r' \<and> (\<exists>qs. qs \<in> {[], [ReqList], [ReqList, ReqList]} \<and>
    rc_frame qs (case res of Inl e \<Rightarrow> {} | Inr ks \<Rightarrow> {ks}) r r')"
proof -
  obtain conn r1 where conn: "connection r = (conn, r1)" by fastforce
  show ?thesis
  proof (cases conn)
    case (Inl e)
    with assms(1) conn have "res = Inl e" "r' = r1" by (simp_all add: rc_List_def)
    with connection_frame [OF conn assms(2)] show ?thesis by (intro conjI exI [of _ "[]"]) simp_all
  next
    case (Inr c)
    note c = connection_current [OF conn [unfolded Inr] assms(2)]
    from assms(1) conn Inr obtain res1 r2 where la: "listAttempt c r1 = Some (res1, r2)"
      by (auto simp: rc_List_def bind_eq_Some_conv)
    from listAttempt_frame [OF la] c obtain qs where inv2: "rc_inv r2" and qs: "qs \<in> {[], [ReqList]}"
      and f12: "rc_frame qs (case res1 of Inl e \<Rightarrow> {} | Inr ks \<Rightarrow> {ks}) r1 r2" by auto
    have f2: "rc_frame qs (case res1 of Inl e \<Rightarrow> {} | Inr ks \<Rightarrow> {ks}) r r2"
      using rc_frame_trans [of "[]" "{}" r r1, OF _ f12] c by simp
    show ?thesis
    proof (cases res1)
      case (Inr ks)
      with assms(1) conn \<open>conn = Inr c\<close> la have "res = Inr ks" "r' = r2"
        by (auto simp: rc_List_def)
      with f2 inv2 qs Inr show ?thesis by auto
    next
      case (Inl err)
      obtain ok r3 where rec: "reconnect c r2 = (ok, r3)" by fastforce
      obtain conn4 r4 where conn4: "connection r3 = (conn4, r4)" by fastforce
      have "rc_List r =
        (if \<not> transportFailed c r2 (Some err) \<or> uc_unanswered (conn_of r2 c) then Some (Inl err, r2)
         else if \<not> ok then Some (Inl err, r3)
         else case conn4 of Inl _ \<Rightarrow> Some (Inl err, r4) | Inr n \<Rightarrow> listAttempt n r4)"
        by (cases ok) (simp_all add: rc_List_def conn \<open>conn = Inr c\<close> la Inl rec conn4)
      with f2 Inl show ?thesis
        by (intro rc_List_retry_frame [OF _ inv2 _ qs rec conn4]) (simp_all add: assms(1))
    qed
  qed
qed

lemma rc_sign_frame:
  assumes "rc_sign q r = Some (res, r')" "rc_inv r" "q \<noteq> ReqList"
  shows "rc_inv r' \<and> (\<exists>qs. qs \<in> {[], [q]} \<and> rc_frame qs {} r r')"
proof -
  obtain conn r1 where conn: "connection r = (conn, r1)" by fastforce
  show ?thesis
  proof (cases conn)
    case (Inl e)
    with assms conn connection_frame [OF conn assms(2)] show ?thesis by (auto simp: rc_sign_def)
  next
    case (Inr c)
    note c = connection_current [OF conn [unfolded Inr] assms(2)]
    from assms(1) conn Inr obtain err rep r2 where a: "attempt c q r1 = Some ((err, rep), r2)"
      and r': "r' = (if transportFailed c r2 err \<and> \<not> uc_unanswered (conn_of r2 c)
                     then snd (reconnect c r2) else r2)"
      by (auto simp: rc_sign_def bind_eq_Some_conv Let_def)
    define qs where "qs = (if uc_closed (conn_of r1 c) then [] else [q])"
    from attempt_frame [OF a] c assms(3) have inv2: "rc_inv r2" and qs: "qs \<in> {[], [q]}"
      and f12: "rc_frame qs {} r1 r2" by (simp_all add: qs_def)
    have f2: "rc_frame qs {} r r2" using rc_frame_trans [of "[]" "{}" r r1, OF _ f12] c by simp
    obtain ok r3 where rec: "reconnect c r2 = (ok, r3)" by fastforce
    note rf = reconnect_frame [OF rec inv2]
    have f3: "rc_frame qs {} r r3" using rc_frame_trans [OF f2] rf by fastforce
    show ?thesis using r' rec f2 f3 inv2 rf qs by auto
  qed
qed

lemma tracked_frame:
  assumes "tracked q r = Some (res, r')" "rc_inv r"
  shows "rc_inv r' \<and> (\<exists>qs L. qs \<in> {[], [q]} \<and> rc_frame qs L r r')"
proof -
  obtain conn r1 where conn: "connection r = (conn, r1)" by fastforce
  show ?thesis
  proof (cases conn)
    case (Inl e)
    with assms conn have "r' = call_finish (Some e) r1"
      by (auto simp: tracked_def withConnection_def)
    with connection_frame [OF conn assms(2)] show ?thesis by auto
  next
    case (Inr c)
    note c = connection_current [OF conn [unfolded Inr] assms(2)]
    from assms(1) conn Inr obtain err rep r2 e where
      a: "client_call c q r1 = Some ((err, rep), r2)" and r': "r' = call_finish e r2"
      by (auto simp: tracked_def withConnection_def watched_call_def bind_eq_Some_conv)
    define qs where "qs = (if uc_closed (conn_of r1 c) then [] else [q])"
    define L where "L = (if err = None \<and> q = ReqList then {rp_keys rep} else {})"
    from client_call_frame [OF a] c have "rc_inv r2" and qs: "qs \<in> {[], [q]}"
      and f12: "rc_frame qs L r1 r2" by (simp_all add: qs_def L_def)
    with rc_frame_trans [of "[]" "{}" r r1, OF _ f12] c show ?thesis by (auto simp: r')
  qed
qed

lemma rc_inv_new: "rc_inv (newReconnectClient timeout w)"
  by (simp add: rc_inv_def newReconnectClient_def)

lemma rc_Close_inv: "rc_inv r \<Longrightarrow> rc_inv (snd (rc_Close r)) \<and> rc_closed (snd (rc_Close r))"
proof -
  assume inv: "rc_inv r"
  show ?thesis
  proof (cases "rc_closed r \<or> rc_current r = None")
    case True
    with inv show ?thesis by (auto simp: rc_Close_def rc_inv_def Let_def split: option.splits)
  next
    case False
    then obtain c where cur: "rc_current r = Some c" and "\<not> rc_closed r" by auto
    define r1 where "r1 = r\<lparr>rc_canceled := True, rc_closed := True\<rparr>"
    obtain err r2 where k: "close_conn c r1 = (err, r2)" by fastforce
    have "rc_inv r2 \<and> rc_closed r2" using close_conn_frame [OF k] inv cur
      by (auto simp: r1_def rc_inv_def rc_frame_def)
    moreover have "snd (rc_Close r) = call_finish err (r2\<lparr>rc_closeErr := err\<rparr>)"
      using cur \<open>\<not> rc_closed r\<close> k by (simp add: rc_Close_def Let_def r1_def)
    moreover have "rc_inv (r2\<lparr>rc_closeErr := err\<rparr>) = rc_inv r2" by (simp add: rc_inv_def)
    ultimately show ?thesis by simp
  qed
qed

end
