(* ===== verification/UpstreamLaws.thy ===== *)
theory UpstreamLaws
  imports Upstream
begin

text \<open>
  What the reconnecting client promises: it is a list and sign source for the layers above,
  it leaks no connection and resends no signing request, a closed client is silent, a
  broken connection is replaced within one list call, and with the watchdog on every call
  returns.
\<close>

section \<open>The contract of the layers above\<close>

interpretation rc: agent_source reconnect_agent rc_wire rc_inv rc_tel
proof unfold_locales
  fix g u show "rc_wire (rc_tel g u) = rc_wire u" by simp
next
  fix g u assume "rc_inv u" then show "rc_inv (rc_tel g u)" by simp
next
  fix u res u' assume a: "rc_inv u" "ag_List reconnect_agent u = Some (res, u')"
  then have l: "rc_List u = Some (res, u')" by (simp add: reconnect_agent_def)
  from rc_List_frame [OF l a(1)] show "rc_inv u'" "list_only (rc_wire u) (rc_wire u')"
    by (auto simp: list_only_def rc_frame_def)
next
  fix u ks u' assume a: "rc_inv u" "ag_List reconnect_agent u = Some (Inr ks, u')"
  then have l: "rc_List u = Some (Inr ks, u')" by (simp add: reconnect_agent_def)
  from rc_List_frame [OF l a(1)] show "ks \<in> listings (rc_wire u')"
    by (auto simp: rc_frame_def)
next
  fix u k d f res u' assume a: "rc_inv u" "ag_SignWithFlags reconnect_agent k d f u = Some (res, u')"
  then have s: "rc_sign (ReqSignWithFlags k d f) u = Some (res, u')"
    by (simp add: reconnect_agent_def rc_SignWithFlags_def)
  from rc_sign_frame [OF s a(1)] show "rc_inv u'" "sign_only k d f (rc_wire u) (rc_wire u')"
    by (auto simp: sign_only_def rc_frame_def)
qed

section \<open>Reachable clients\<close>

text \<open>\<open>rc_run\<close>: what any sequence of calls makes of a new client.\<close>

inductive rc_run :: "reconnect_client \<Rightarrow> bool" where
  run_new: "rc_run (newReconnectClient timeout w)"
| run_List: "rc_run r \<Longrightarrow> rc_List r = Some (res, r') \<Longrightarrow> rc_run r'"
| run_Sign: "rc_run r \<Longrightarrow> rc_Sign k d r = Some (sig, r') \<Longrightarrow> rc_run r'"
| run_SignWithFlags: "rc_run r \<Longrightarrow> rc_SignWithFlags k d f r = Some (sig, r') \<Longrightarrow> rc_run r'"
| run_tracked: "rc_run r \<Longrightarrow> tracked q r = Some (out, r') \<Longrightarrow> rc_run r'"
| run_Close: "rc_run r \<Longrightarrow> rc_run (snd (rc_Close r))"

lemma rc_run_inv: "rc_run r \<Longrightarrow> rc_inv r"
proof (induction rule: rc_run.induct)
  case (run_Sign r k d sig r')
  then show ?case using rc_sign_frame [of "ReqSign k d"] by (auto simp: rc_Sign_def)
next
  case (run_SignWithFlags r k d f sig r')
  then show ?case using rc_sign_frame [of "ReqSignWithFlags k d f"] by (auto simp: rc_SignWithFlags_def)
qed (use rc_inv_new rc_List_frame tracked_frame rc_Close_inv in blast)+

section \<open>A closed client\<close>

lemma closed_connection:
  "rc_inv r \<Longrightarrow> rc_closed r \<Longrightarrow>
   connection r = (case rc_current r of None \<Rightarrow> Inl errUpstreamClosed | Some c \<Rightarrow> Inr c, r)"
  by (simp add: connection_def connection_locked_def split: option.split)

lemma closed_client_call:
  assumes "rc_inv r" "rc_closed r" "rc_current r = Some c"
  shows "\<exists>e rep r'. client_call c q r = Some ((Some e, rep), r') \<and> rc_wire r' = rc_wire r \<and> rc_closed r'"
proof -
  from assms have "uc_closed (conn_of r c)" by (auto simp: rc_inv_def)
  then show ?thesis using assms(2)
    by (auto simp: client_call_def next_reply_def Let_def fail_conn_def upd_conn_def rc_wire_def)
qed

lemma unansweredErr_Some: "\<exists>e'. unansweredErr c r (Some e) = Some e'"
  by (simp add: unansweredErr_def)

lemma closed_attempt:
  assumes "rc_inv r" "rc_closed r" "rc_current r = Some c"
  shows "\<exists>e rep r'. attempt c q r = Some ((Some e, rep), r') \<and> rc_wire r' = rc_wire r \<and> rc_closed r'"
proof -
  obtain e rep r' where "client_call c q r = Some ((Some e, rep), r')" "rc_wire r' = rc_wire r"
    "rc_closed r'" using closed_client_call [OF assms] by blast
  with unansweredErr_Some [of c r' e] show ?thesis
    by (auto simp: attempt_def watched_call_def)
qed

lemma closed_reconnect: "rc_closed r \<Longrightarrow> reconnect c r = (False, r)"
  by (simp add: reconnect_def)

lemma closed_List:
  assumes "rc_inv r" "rc_closed r"
  shows "\<exists>e r'. rc_List r = Some (Inl e, r') \<and> rc_wire r' = rc_wire r"
proof (cases "rc_current r")
  case None
  then show ?thesis by (simp add: rc_List_def closed_connection [OF assms])
next
  case (Some c)
  from closed_attempt [OF assms Some] obtain e rep r' where
    "attempt c ReqList r = Some ((Some e, rep), r')" "rc_wire r' = rc_wire r" "rc_closed r'" by blast
  then show ?thesis
    by (simp add: rc_List_def closed_connection [OF assms] Some listAttempt_def value_or_def
        closed_reconnect)
qed

lemma closed_sign:
  assumes "rc_inv r" "rc_closed r"
  shows "\<exists>e r'. rc_sign q r = Some (Inl e, r') \<and> rc_wire r' = rc_wire r"
proof (cases "rc_current r")
  case None
  then show ?thesis by (simp add: rc_sign_def closed_connection [OF assms])
next
  case (Some c)
  from closed_attempt [OF assms Some] obtain e rep r' where
    "attempt c q r = Some ((Some e, rep), r')" "rc_wire r' = rc_wire r" "rc_closed r'" by blast
  then show ?thesis
    by (simp add: rc_sign_def closed_connection [OF assms] Some value_or_def closed_reconnect)
qed

lemma closed_tracked:
  assumes "rc_inv r" "rc_closed r"
  shows "\<exists>e rep r'. tracked q r = Some ((Some e, rep), r') \<and> rc_wire r' = rc_wire r"
proof (cases "rc_current r")
  case None
  then show ?thesis
    by (simp add: tracked_def withConnection_def closed_connection [OF assms])
next
  case (Some c)
  from closed_client_call [OF assms Some] obtain e rep r' where
    "client_call c q r = Some ((Some e, rep), r')" "rc_wire r' = rc_wire r" by blast
  with unansweredErr_Some [of c r' e] show ?thesis
    by (auto simp: tracked_def withConnection_def closed_connection [OF assms] Some watched_call_def)
qed

section \<open>Every call returns under the watchdog\<close>

text \<open>Not because the timeout is set, but because \<open>drop\<close> closes the connection it is about.\<close>

lemma client_call_returns:
  assumes inv: "rc_inv r" and c: "c < length (rc_conns r)" and t: "rc_requestTimeout r > 0"
  shows "client_call c q r \<noteq> None"
proof -
  obtain rep r1 where n: "next_reply r = (rep, r1)" by fastforce
  note nf = next_reply_frame [OF n inv]
  define r3 where "r3 = (if rp_ioerr rep then fail_conn c (emit [EvRequest c q] r1) else emit [EvRequest c q] r1)"
  have "rc_inv r3" "c < length (rc_conns r3)" using nf c by (simp_all add: r3_def)
  from drop_conn_frame [OF this] have "uc_closed (conn_of (drop_conn c r3) c)" by blast
  with t show ?thesis
    by (cases "rp_answer rep"; cases "rp_ioerr rep") (auto simp: client_call_def n Let_def r3_def)
qed

lemma attempt_returns:
  "rc_inv r \<Longrightarrow> c < length (rc_conns r) \<Longrightarrow> rc_requestTimeout r > 0 \<Longrightarrow> attempt c q r \<noteq> None"
  using client_call_returns [of r c q] by (auto simp: attempt_def watched_call_def)

lemma listAttempt_returns:
  "rc_inv r \<Longrightarrow> c < length (rc_conns r) \<Longrightarrow> rc_requestTimeout r > 0 \<Longrightarrow> listAttempt c r \<noteq> None"
  using attempt_returns [of r c ReqList] by (auto simp: listAttempt_def)

lemma frame_timeout: "rc_frame qs L r r' \<Longrightarrow> rc_requestTimeout r' = rc_requestTimeout r"
  by (simp add: rc_frame_def)

lemma rc_List_returns:
  assumes inv: "rc_inv r" and t: "rc_requestTimeout r > 0"
  shows "rc_List r \<noteq> None"
proof -
  obtain conn r1 where conn: "connection r = (conn, r1)" by fastforce
  note cf = connection_frame [OF conn inv]
  show ?thesis
  proof (cases conn)
    case (Inl e)
    with conn show ?thesis by (simp add: rc_List_def)
  next
    case (Inr c)
    have "rc_requestTimeout r1 > 0" using cf t frame_timeout by metis
    moreover have c: "c < length (rc_conns r1)" using connection_current conn Inr inv by blast
    ultimately obtain res r2 where la: "listAttempt c r1 = Some (res, r2)"
      using listAttempt_returns [OF conjunct1 [OF cf] c] by auto
    from listAttempt_frame [OF la conjunct1 [OF cf] c] have inv2: "rc_inv r2"
      and t2: "rc_requestTimeout r2 > 0" using \<open>rc_requestTimeout r1 > 0\<close> frame_timeout by auto
    obtain ok r3 where rec: "reconnect c r2 = (ok, r3)" by fastforce
    note rf = reconnect_frame [OF rec inv2]
    obtain conn4 r4 where conn4: "connection r3 = (conn4, r4)" by fastforce
    note cf4 = connection_frame [OF conn4 conjunct1 [OF rf]]
    have "rc_requestTimeout r4 > 0" using t2 rf cf4 frame_timeout by metis
    moreover have "n < length (rc_conns r4)" if "conn4 = Inr n" for n
      using connection_current conn4 that rf by blast
    ultimately have "listAttempt n r4 \<noteq> None" if "conn4 = Inr n" for n
      using listAttempt_returns that cf4 by blast
    then show ?thesis using conn Inr la rec conn4
      by (cases res; cases ok; cases conn4) (simp_all add: rc_List_def)
  qed
qed

lemma connection_timeout: "connection r = (conn, r') \<Longrightarrow> rc_inv r \<Longrightarrow> rc_requestTimeout r' = rc_requestTimeout r"
  using connection_frame frame_timeout by blast

lemma rc_sign_returns:
  assumes inv: "rc_inv r" and t: "rc_requestTimeout r > 0"
  shows "rc_sign q r \<noteq> None"
proof (cases "connection r")
  case (Pair conn r1)
  show ?thesis
  proof (cases conn)
    case (Inr c)
    from attempt_returns [of r1 c q] connection_current [OF Pair [unfolded Inr] inv] connection_timeout [OF Pair inv] t
    obtain err rep r2 where "attempt c q r1 = Some ((err, rep), r2)" by auto
    with Pair Inr show ?thesis by (simp add: rc_sign_def)
  qed (simp add: rc_sign_def Pair)
qed

lemma tracked_returns:
  assumes inv: "rc_inv r" and t: "rc_requestTimeout r > 0"
  shows "tracked q r \<noteq> None"
proof (cases "connection r")
  case (Pair conn r1)
  show ?thesis
  proof (cases conn)
    case (Inr c)
    from client_call_returns [of r1 c q] connection_current [OF Pair [unfolded Inr] inv] connection_timeout [OF Pair inv] t
    obtain err rep r2 where "client_call c q r1 = Some ((err, rep), r2)" by auto
    with Pair Inr show ?thesis by (simp add: tracked_def withConnection_def watched_call_def)
  qed (simp add: tracked_def withConnection_def Pair)
qed

section \<open>Replacing a broken connection\<close>

text \<open>A client at work on an open connection.\<close>

definition connected_at :: "nat \<Rightarrow> reconnect_client \<Rightarrow> bool" where
  "connected_at c r \<longleftrightarrow> rc_inv r \<and> rc_current r = Some c \<and> \<not> uc_closed (conn_of r c) \<and>
     \<not> rc_closed r \<and> \<not> rc_canceled r"

abbreviation outcome :: "reconnect_client \<Rightarrow> nat \<Rightarrow> reply" where
  "outcome r n \<equiv> w_env (rc_world r) (w_tick (rc_world r) + n)"

definition client_error :: "goerr \<Rightarrow> bool" where
  "client_error e \<longleftrightarrow> has_prefix agentClientErrorPrefix (err_text e)"

lemmas client_ops = connection_def listAttempt_def attempt_def watched_call_def client_call_def
  next_reply_def emit_def fail_conn_def upd_conn_def unansweredErr_def transportFailed_def
  call_finish_def rc_tel_def reconnect_def dial_def close_conn_def drop_conn_def value_or_def
  Let_def client_error_def

lemma list_recovers:
  assumes r: "connected_at c r"
    and first: "rp_answer (outcome r 0) = Fails" "rp_ioerr (outcome r 0)" "\<not> rp_late (outcome r 0)"
      "client_error (rp_err (outcome r 0))"
    and redial: "rp_answer (outcome r 1) = Answer"
    and second: "rp_answer (outcome r 3) = Answer" "\<not> rp_late (outcome r 3)"
    and alive: "\<not> rp_cancel (outcome r 0)" "\<not> rp_cancel (outcome r 1)"
  shows "\<exists>r'. rc_List r = Some (Inr (rp_keys (outcome r 3)), r') \<and>
    rc_current r' = Some (length (rc_conns r)) \<and>
    rc_wire r' = rc_wire r @ [EvRequest c ReqList, EvDial, EvClose c,
      EvRequest (length (rc_conns r)) ReqList, EvListed (rp_keys (outcome r 3))]"
proof -
  have c: "c < length (rc_conns r)" "\<not> uc_unanswered (conn_of r c)" "c \<noteq> length (rc_conns r)"
    using r rc_inv_currentD by (auto simp: connected_at_def)
  from r first redial second alive c show ?thesis
    by (simp add: rc_List_def client_ops connected_at_def rc_wire_def nth_append fresh_conn_def numeral_3_eq_3)
qed

lemma agent_failure_not_retried:
  assumes r: "connected_at c r"
    and first: "rp_answer (outcome r 0) = Fails" "\<not> rp_late (outcome r 0)"
      "\<not> client_error (rp_err (outcome r 0)) \<or> \<not> rp_ioerr (outcome r 0) \<and> \<not> uc_failed (conn_of r c)"
  shows "\<exists>r'. rc_List r = Some (Inl (rp_err (outcome r 0)), r') \<and> rc_current r' = Some c \<and>
    rc_wire r' = rc_wire r @ [EvRequest c ReqList]"
proof -
  have c: "c < length (rc_conns r)" "\<not> uc_unanswered (conn_of r c)"
    using r rc_inv_currentD by (auto simp: connected_at_def)
  from r first c show ?thesis
    by (auto simp: rc_List_def client_ops connected_at_def rc_wire_def)
qed

lemma unanswered_dropped:
  assumes r: "connected_at c r" and t: "rc_requestTimeout r > 0"
    and first: "rp_answer (outcome r 0) = NoAnswer"
  shows "\<exists>e r'. rc_List r = Some (Inl e, r') \<and> rc_current r' = None \<and> uc_closed (conn_of r' c) \<and>
    rc_wire r' = rc_wire r @ [EvRequest c ReqList, EvClose c]"
proof -
  have c: "c < length (rc_conns r)" "\<not> uc_unanswered (conn_of r c)"
    using r rc_inv_currentD by (auto simp: connected_at_def)
  from r first c t show ?thesis
    by (auto simp: rc_List_def client_ops connected_at_def rc_wire_def)
qed

lemma rc_sign_success_sent:
  assumes "rc_sign q r = Some (Inr sig, r')" "rc_inv r" "q \<noteq> ReqList"
  shows "rc_frame [q] {} r r'"
proof -
  obtain conn r1 where conn: "connection r = (conn, r1)" by fastforce
  with assms(1) obtain c where Inr: "conn = Inr c" by (cases conn) (auto simp: rc_sign_def)
  note c = connection_current [OF conn [unfolded Inr] assms(2)]
  from assms(1) conn Inr obtain rep where a: "attempt c q r1 = Some ((None, rep), r')"
    by (auto simp: rc_sign_def bind_eq_Some_conv Let_def transportFailed_def)
  from attempt_frame [OF a] c assms(3) have "rc_frame [q] {} r1 r'" by auto
  with rc_frame_trans [of "[]" "{}" r r1 "[q]" "{}" r'] c show ?thesis by simp
qed

section \<open>Sample runs\<close>

definition ok_reply :: reply where
  "ok_reply = \<lparr>rp_answer = Answer, rp_err = ErrText ''agent: client error: EOF'',
     rp_keys = [sample_key], rp_bytes = ''sig'', rp_blobs = [], rp_ioerr = False, rp_late = False,
     rp_cancel = False, rp_close_err = None, rp_elapsed = 1\<rparr>"

text \<open>The agent answers every request but the one at tick \<open>n\<close>, which ends as given.\<close>

definition sample_world :: "nat \<Rightarrow> reply \<Rightarrow> world" where
  "sample_world n rep = \<lparr>w_env = (\<lambda>m. if m = n then rep else ok_reply), w_tick = 0, w_now = 0,
     w_wire = [], w_tel = None\<rparr>"

definition sample_client :: "nat \<Rightarrow> reply \<Rightarrow> reconnect_client" where
  "sample_client n rep = (newReconnectClient 300000000000 (sample_world n rep))
     \<lparr>rc_current := Some 0, rc_connected := True, rc_conns := [fresh_conn]\<rparr>"

definition new_client :: reconnect_client where
  "new_client = newReconnectClient 300000000000 (sample_world 0 ok_reply)"

lemmas sample_defs = sample_client_def sample_world_def newReconnectClient_def ok_reply_def
  fresh_conn_def new_client_def

lemma sample_connected: "connected_at 0 (sample_client n rep)"
  by (simp add: connected_at_def rc_inv_def sample_defs)

definition broken_reply :: reply where
  "broken_reply = ok_reply\<lparr>rp_answer := Fails, rp_ioerr := True\<rparr>"

section \<open>Properties\<close>

text \<open>
  Property C10. No call sequence leaks a connection: every open connection is the
  current one, so at most one is open, and after \<open>Close\<close> none is.
\<close>

theorem no_connection_leak:
  assumes "rc_run r" "c < length (rc_conns r)" "\<not> uc_closed (conn_of r c)"
  shows "rc_current r = Some c \<and> \<not> rc_closed r \<and> \<not> uc_unanswered (conn_of r c)"
  using rc_run_inv [OF assms(1)] assms(2,3) by (auto simp: rc_inv_def)

lemma new_client_list:
  "\<exists>r'. rc_List new_client = Some (Inr [sample_key], r') \<and> length (rc_conns r') = 1 \<and>
     \<not> uc_closed (conn_of r' 0)"
  by (simp add: rc_List_def client_ops connection_locked_def sample_defs)

theorem no_connection_leak_witness:
  "\<exists>r'. rc_List new_client = Some (Inr [sample_key], r') \<and> rc_current r' = Some 0"
proof -
  obtain r' where r': "rc_List new_client = Some (Inr [sample_key], r')" "length (rc_conns r') = 1"
    "\<not> uc_closed (conn_of r' 0)" using new_client_list by blast
  have "rc_run r'" using run_List [OF run_new r'(1) [unfolded new_client_def]] .
  from no_connection_leak [OF this, of 0] r' show ?thesis by simp
qed

text \<open>
  A list call writes no request but at most two list requests, and the keys it
  returns are an answer the agent gave during the call.
\<close>

theorem list_at_most_two_requests:
  assumes "rc_run r" "rc_List r = Some (res, r')"
  shows "\<exists>evs. rc_wire r' = rc_wire r @ evs \<and>
    requests evs \<in> {[], [ReqList], [ReqList, ReqList]} \<and>
    listings evs = (case res of Inl e \<Rightarrow> {} | Inr ks \<Rightarrow> {ks})"
  using rc_List_frame [OF assms(2) rc_run_inv [OF assms(1)]]
  by (cases res) (auto simp: rc_frame_def)

theorem list_at_most_two_requests_witness:
  "\<exists>r' evs. rc_List new_client = Some (Inr [sample_key], r') \<and> rc_wire r' = rc_wire new_client @ evs \<and>
     requests evs \<in> {[], [ReqList], [ReqList, ReqList]} \<and> listings evs = {[sample_key]}"
proof -
  obtain r' where r': "rc_List new_client = Some (Inr [sample_key], r')"
    using new_client_list by blast
  have "rc_run new_client" unfolding new_client_def by (rule run_new)
  from list_at_most_two_requests [OF this r'] r' show ?thesis by auto
qed

text \<open>
  Property C11. A signing request is never resent: the call writes at most the one request
  it was given, whatever happens to the connection, and a returned signature was requested.
\<close>

theorem sign_sent_at_most_once:
  assumes "rc_run r" "rc_SignWithFlags k d f r = Some (res, r')"
  shows "\<exists>evs. rc_wire r' = rc_wire r @ evs \<and>
    (requests evs = [] \<and> (\<exists>e. res = Inl e) \<or> requests evs = [ReqSignWithFlags k d f])"
proof -
  note inv = rc_run_inv [OF assms(1)]
  have s: "rc_sign (ReqSignWithFlags k d f) r = Some (res, r')"
    using assms(2) by (simp add: rc_SignWithFlags_def)
  show ?thesis
  proof (cases res)
    case (Inl e)
    with rc_sign_frame [OF s inv] show ?thesis by (auto simp: rc_frame_def)
  next
    case (Inr sig)
    with rc_sign_success_sent [OF s [unfolded Inr] inv] show ?thesis by (auto simp: rc_frame_def)
  qed
qed

theorem sign_sent_at_most_once_witness:
  "\<exists>res r' evs. rc_SignWithFlags ''k'' ''d'' 0 new_client = Some (res, r') \<and>
     rc_wire r' = rc_wire new_client @ evs \<and>
     (requests evs = [] \<and> (\<exists>e. res = Inl e) \<or> requests evs = [ReqSignWithFlags ''k'' ''d'' 0])"
proof -
  have run: "rc_run new_client" unfolding new_client_def by (rule run_new)
  have "\<exists>res r'. rc_SignWithFlags ''k'' ''d'' 0 new_client = Some (res, r')"
    by (simp add: rc_SignWithFlags_def rc_sign_def client_ops connection_locked_def sample_defs)
  with sign_sent_at_most_once [OF run] show ?thesis by blast
qed

text \<open>
  A closed client is silent: list, sign and every other forwarded operation
  return an error and nothing is dialed or written.
\<close>

theorem closed_client_silent:
  assumes "rc_run r" "rc_closed r"
  shows "(\<exists>e r'. rc_List r = Some (Inl e, r') \<and> rc_wire r' = rc_wire r) \<and>
    (\<exists>e r'. rc_Sign k d r = Some (Inl e, r') \<and> rc_wire r' = rc_wire r) \<and>
    (\<exists>e r'. rc_SignWithFlags k d f r = Some (Inl e, r') \<and> rc_wire r' = rc_wire r) \<and>
    (\<exists>e rep r'. tracked q r = Some ((Some e, rep), r') \<and> rc_wire r' = rc_wire r)"
  using closed_List closed_sign closed_tracked rc_run_inv [OF assms(1)] assms(2)
  by (simp add: rc_Sign_def rc_SignWithFlags_def)

theorem closed_client_silent_witness:
  "\<exists>e r'. rc_List (snd (rc_Close new_client)) = Some (Inl e, r') \<and>
     rc_wire r' = rc_wire (snd (rc_Close new_client))"
proof -
  have "rc_run new_client" unfolding new_client_def by (rule run_new)
  then have "rc_run (snd (rc_Close new_client))" "rc_closed (snd (rc_Close new_client))"
    using run_Close rc_run_inv rc_Close_inv by blast+
  from closed_client_silent [OF this] show ?thesis by blast
qed

text \<open>
  A connection that breaks during a list request is replaced within the call:
  the client dials a new connection, closes the old one, repeats the request there and
  returns its answer.
\<close>

theorem broken_connection_replaced:
  assumes "connected_at c r"
    and "rp_answer (outcome r 0) = Fails" "rp_ioerr (outcome r 0)" "\<not> rp_late (outcome r 0)"
      "client_error (rp_err (outcome r 0))"
    and "rp_answer (outcome r 1) = Answer" "rp_answer (outcome r 3) = Answer"
      "\<not> rp_late (outcome r 3)" "\<not> rp_cancel (outcome r 0)" "\<not> rp_cancel (outcome r 1)"
  shows "\<exists>r'. rc_List r = Some (Inr (rp_keys (outcome r 3)), r') \<and>
    rc_current r' = Some (length (rc_conns r)) \<and>
    rc_wire r' = rc_wire r @ [EvRequest c ReqList, EvDial, EvClose c,
      EvRequest (length (rc_conns r)) ReqList, EvListed (rp_keys (outcome r 3))]"
  by (rule list_recovers [OF assms])

theorem broken_connection_replaced_witness:
  "\<exists>r'. rc_List (sample_client 0 broken_reply) = Some (Inr [sample_key], r') \<and>
     rc_current r' = Some 1"
proof -
  have e: "w_env (rc_world (sample_client 0 broken_reply)) n = (if n = 0 then broken_reply else ok_reply)"
    "w_tick (rc_world (sample_client 0 broken_reply)) = 0"
    "length (rc_conns (sample_client 0 broken_reply)) = 1" for n
    by (simp_all add: sample_defs)
  have f: "rp_answer broken_reply = Fails" "rp_ioerr broken_reply" "\<not> rp_late broken_reply"
    "\<not> rp_cancel broken_reply" "rp_answer ok_reply = Answer" "\<not> rp_late ok_reply"
    "\<not> rp_cancel ok_reply" "client_error (rp_err broken_reply)" "rp_keys ok_reply = [sample_key]"
    by (simp_all add: broken_reply_def ok_reply_def client_error_def
      agentClientErrorPrefix_def has_prefix_def)
  from broken_connection_replaced [OF sample_connected, of 0 broken_reply] obtain r' where
    "rc_List (sample_client 0 broken_reply) = Some (Inr [sample_key], r')" "rc_current r' = Some 1"
    by (auto simp: e f)
  then show ?thesis by blast
qed

text \<open>
  With the request watchdog on, every list, sign and forwarded operation
  returns, even when the agent never answers.
\<close>

theorem watchdog_returns:
  assumes "rc_run r" "rc_requestTimeout r > 0"
  shows "(\<exists>res r'. rc_List r = Some (res, r')) \<and> (\<exists>res r'. rc_SignWithFlags k d f r = Some (res, r')) \<and>
    (\<exists>res r'. tracked q r = Some (res, r'))"
  using rc_List_returns rc_sign_returns tracked_returns rc_run_inv [OF assms(1)] assms(2)
  by (simp add: rc_SignWithFlags_def)

theorem watchdog_returns_witness: "\<exists>res r'. rc_List new_client = Some (res, r')"
proof -
  have "rc_run new_client" unfolding new_client_def by (rule run_new)
  from watchdog_returns [OF this] show ?thesis by (simp add: sample_defs)
qed

end
