(* ===== verification/CacheLaws.thy ===== *)
theory CacheLaws
  imports Cache UpstreamLaws
begin

text \<open>
  What the identity cache promises, over the reconnecting client and for any interleaving of
  goroutines: one upstream request at a time, requests spaced by the time to live, no lost
  wake-up, and only listings of the agent are served.
\<close>

section \<open>The cache over the reconnecting client\<close>

definition rc_now :: "reconnect_client \<Rightarrow> nat" where
  "rc_now r = w_now (rc_world r)"

interpretation chain: cached_source reconnect_agent rc_wire rc_inv rc_tel rc_now
  by unfold_locales

section \<open>One goroutine\<close>

lemma cached_List_hit:
  assumes "ca_ttl c > 0" "now u < ca_expiresAt c"
  shows "cached_List tel now up (c, u) =
    Some (list_result (ca_keys c, ca_cachedErr c), (c, tel addCacheHit u))"
  using assms by (simp add: cached_List_def cache_enter_def)

lemma cached_List_result:
  assumes "cached_List tel now up (c, u) = Some (res, (c', u'))" "ca_ttl c > 0"
  shows "res = list_result (ca_keys c', ca_cachedErr c') \<and> ca_ttl c' = ca_ttl c \<and>
    (ca_hasSnapshot c \<longrightarrow> ca_hasSnapshot c') \<and>
    (ca_hasSnapshot c \<and> ca_cachedErr c = None \<longrightarrow> ca_cachedErr c' = None)"
proof -
  obtain e c1 where en: "cache_enter (now u) c = (e, c1)" by fastforce
  then show ?thesis
  proof (cases rule: cache_enter_cases)
    case hit
    with assms en show ?thesis by (auto simp: cached_List_def)
  next
    case (wait ch)
    with assms en show ?thesis by (simp add: cached_List_def)
  next
    case fetch
    define ch where "ch = length (ch_closed c)"
    have "cache_enter (now u) c = (CacheFetch ch, c1)" using en fetch by (simp add: ch_def)
    with assms obtain res0 where
      "(case cache_finish (now u') ch res0 c1 of (r, c) \<Rightarrow> (list_result r, c)) = (res, c')"
      by (cases "ag_List up (tel addCacheRefresh (tel addCacheMiss u))")
        (auto simp: cached_List_def Let_def split_beta)
    then obtain ks err where f: "cache_finish (now u') ch res0 c1 = ((ks, err), c')"
      and res: "res = list_result (ks, err)"
      by (cases "cache_finish (now u') ch res0 c1") (auto simp: split_beta)
    have c1: "ca_hasSnapshot c1 = ca_hasSnapshot c" "ca_ttl c1 = ca_ttl c" using fetch by simp_all
    show ?thesis using cache_finish_simps [OF f] c1 res by (cases res0) (auto split: if_splits)
  qed
qed

section \<open>Any number of goroutines\<close>

text \<open>
  A goroutine in \<open>List\<close> is about to lock the mutex (\<open>CLoop\<close>), waits for a channel, is in
  the upstream call, or has its result. The ghosts are the upstream calls, latest first,
  with the instants they started and finished, and the successful answers.
\<close>

datatype cache_pc =
    CIdle | CLoop | CWaiting nat | CFetching nat | CReturned "agent_key list" "goerr option"

record cache_sys =
  cs_core :: cache_core
  cs_now :: nat
  cs_pc :: "nat \<Rightarrow> cache_pc"
  cs_calls :: "(nat \<times> nat option) list"
  cs_listings :: "agent_key list set"

definition cache_init :: "int \<Rightarrow> cache_sys \<Rightarrow> bool" where
  "cache_init ttl s \<longleftrightarrow> ttl > 0 \<and> cs_core s = newCachedAgent ttl \<and> cs_pc s = (\<lambda>_. CIdle) \<and>
     cs_calls s = [] \<and> cs_listings s = {}"

fun entry_pc :: "cache_entry \<Rightarrow> cache_pc" where
  "entry_pc (CacheHit ks err) = CReturned ks err"
| "entry_pc (CacheWait ch) = CWaiting ch"
| "entry_pc (CacheFetch ch) = CFetching ch"

fun entry_calls :: "nat \<Rightarrow> cache_entry \<Rightarrow> (nat \<times> nat option) list" where
  "entry_calls now (CacheFetch ch) = [(now, None)]"
| "entry_calls now _ = []"

fun finish_call :: "nat \<Rightarrow> (nat \<times> nat option) list \<Rightarrow> (nat \<times> nat option) list" where
  "finish_call now [] = []"
| "finish_call now ((start, _) # calls) = (start, Some now) # calls"

inductive cache_step :: "cache_sys \<Rightarrow> cache_sys \<Rightarrow> bool" where
  cs_tick: "cache_step s (s\<lparr>cs_now := cs_now s + d\<rparr>)"
| cs_call: "cs_pc s g = CIdle \<Longrightarrow> cache_step s (s\<lparr>cs_pc := (cs_pc s)(g := CLoop)\<rparr>)"
| cs_enter: "cs_pc s g = CLoop \<Longrightarrow> cache_enter (cs_now s) (cs_core s) = (e, core) \<Longrightarrow>
    cache_step s (s\<lparr>cs_pc := (cs_pc s)(g := entry_pc e), cs_core := core,
      cs_calls := entry_calls (cs_now s) e @ cs_calls s\<rparr>)"
| cs_wake: "cs_pc s g = CWaiting ch \<Longrightarrow> ch_closed (cs_core s) ! ch \<Longrightarrow>
    cache_step s (s\<lparr>cs_pc := (cs_pc s)(g := CLoop)\<rparr>)"
| cs_finish: "cs_pc s g = CFetching ch \<Longrightarrow>
    cache_finish (cs_now s) ch res (cs_core s) = ((ks, err), core) \<Longrightarrow>
    cache_step s (s\<lparr>cs_pc := (cs_pc s)(g := CReturned ks err), cs_core := core,
      cs_calls := finish_call (cs_now s) (cs_calls s),
      cs_listings := cs_listings s \<union> (case res of Inr l \<Rightarrow> {l} | Inl _ \<Rightarrow> {})\<rparr>)"
| cs_return: "cs_pc s g = CReturned ks err \<Longrightarrow> cache_step s (s\<lparr>cs_pc := (cs_pc s)(g := CIdle)\<rparr>)"

abbreviation cache_reach :: "int \<Rightarrow> cache_sys \<Rightarrow> bool" where
  "cache_reach ttl \<equiv> reach (cache_init ttl) cache_step"

section \<open>The cache implements single flight\<close>

fun fetching :: "cache_pc \<Rightarrow> nat option" where
  "fetching (CFetching ch) = Some ch" | "fetching _ = None"

fun waiting :: "cache_pc \<Rightarrow> nat option" where
  "waiting (CWaiting ch) = Some ch" | "waiting _ = None"

definition cache_abs :: "cache_sys \<Rightarrow> single_flight" where
  "cache_abs s = \<lparr>sf_inflight = ca_inFlight (cs_core s), sf_next = length (ch_closed (cs_core s)),
     sf_done = {ch. ch < length (ch_closed (cs_core s)) \<and> ch_closed (cs_core s) ! ch},
     sf_owner = (\<lambda>g. fetching (cs_pc s g)), sf_wait = (\<lambda>g. waiting (cs_pc s g))\<rparr>"

lemma cache_abs_sel [simp]:
  "sf_inflight (cache_abs s) = ca_inFlight (cs_core s)"
  "sf_owner (cache_abs s) g = fetching (cs_pc s g)" "sf_wait (cache_abs s) g = waiting (cs_pc s g)"
  "ch \<in> sf_done (cache_abs s) \<longleftrightarrow> ch < length (ch_closed (cs_core s)) \<and> ch_closed (cs_core s) ! ch"
  by (simp_all add: cache_abs_def)

text \<open>Tickets in use name channels that exist.\<close>

definition cache_wf :: "cache_sys \<Rightarrow> bool" where
  "cache_wf s \<longleftrightarrow> (\<forall>g ch. fetching (cs_pc s g) = Some ch \<or> waiting (cs_pc s g) = Some ch \<or>
     ca_inFlight (cs_core s) = Some ch \<longrightarrow> ch < length (ch_closed (cs_core s)))"

lemma cache_wf_fetching:
  "cache_wf s \<Longrightarrow> cs_pc s g = CFetching ch \<Longrightarrow> ch < length (ch_closed (cs_core s))"
  unfolding cache_wf_def by (metis fetching.simps(1))

lemma cache_wf_waiting:
  "cache_wf s \<Longrightarrow> cs_pc s g = CWaiting ch \<Longrightarrow> ch < length (ch_closed (cs_core s))"
  unfolding cache_wf_def by (metis waiting.simps(1))

lemma cache_wf_init: "cache_init ttl s \<Longrightarrow> cache_wf s"
  by (simp add: cache_init_def cache_wf_def newCachedAgent_def)

lemma cache_wf_step: "cache_step s t \<Longrightarrow> cache_wf s \<Longrightarrow> cache_wf t"
proof (induction rule: cache_step.induct)
  case (cs_enter s g e core)
  from cs_enter.hyps(2) show ?case
    by (cases rule: cache_enter_cases) (use cs_enter.prems in \<open>auto simp: cache_wf_def less_Suc_eq\<close>)
next
  case (cs_finish s g ch res ks err core)
  from cs_finish.prems cache_finish_simps [OF cs_finish.hyps(2)] show ?case
    by (auto simp: cache_wf_def)
qed (auto simp: cache_wf_def)

lemma cache_abs_enter:
  assumes pc: "cs_pc s g = CLoop" and enter: "cache_enter (cs_now s) (cs_core s) = (e, core)"
  shows "sf_step (cache_abs s) (cache_abs (s\<lparr>cs_pc := (cs_pc s)(g := entry_pc e),
      cs_core := core, cs_calls := entry_calls (cs_now s) e @ cs_calls s\<rparr>)) \<or>
    cache_abs (s\<lparr>cs_pc := (cs_pc s)(g := entry_pc e), cs_core := core,
      cs_calls := entry_calls (cs_now s) e @ cs_calls s\<rparr>) = cache_abs s"
  using enter
proof (cases rule: cache_enter_cases)
  case hit
  with enter pc show ?thesis by (auto simp: cache_abs_def fun_eq_iff)
next
  case (wait ch)
  have "sf_step (cache_abs s) ((cache_abs s)\<lparr>sf_wait := (sf_wait (cache_abs s))(g \<mapsto> ch)\<rparr>)"
    by (rule sf_join) (simp_all add: enter pc wait)
  then have "sf_step (cache_abs s) (cache_abs (s\<lparr>cs_pc := (cs_pc s)(g := entry_pc e),
      cs_core := core, cs_calls := entry_calls (cs_now s) e @ cs_calls s\<rparr>))"
    by (rule back_subst [of "sf_step (cache_abs s)"])
      (use wait enter pc in \<open>auto simp: cache_abs_def fun_eq_iff\<close>)
  then show ?thesis ..
next
  case fetch
  let ?a = "cache_abs s"
  have "sf_step ?a (?a\<lparr>sf_inflight := Some (sf_next ?a), sf_next := Suc (sf_next ?a),
    sf_owner := (sf_owner ?a)(g \<mapsto> sf_next ?a)\<rparr>)"
    by (rule sf_claim) (simp_all add: enter pc fetch)
  moreover have set: "{ch. ch < Suc n \<and> (l @ [False]) ! ch} = {ch. ch < n \<and> l ! ch}"
    if "n = length l" for n l
    by (auto simp: that nth_append less_Suc_eq)
  ultimately have "sf_step ?a (cache_abs (s\<lparr>cs_pc := (cs_pc s)(g := entry_pc e),
      cs_core := core, cs_calls := entry_calls (cs_now s) e @ cs_calls s\<rparr>))"
    by - (rule back_subst [of "sf_step (cache_abs s)"], assumption,
      use fetch enter pc set in \<open>simp add: cache_abs_def fun_eq_iff\<close>)
  then show ?thesis ..
qed

lemma cache_abs_finish:
  assumes wf: "cache_wf s" and pc: "cs_pc s g = CFetching ch"
    and fin: "cache_finish (cs_now s) ch res (cs_core s) = ((ks, err), core)"
  shows "sf_step (cache_abs s) (cache_abs (s\<lparr>cs_pc := (cs_pc s)(g := CReturned ks err), cs_core := core,
    cs_calls := finish_call (cs_now s) (cs_calls s),
    cs_listings := cs_listings s \<union> (case res of Inr l \<Rightarrow> {l} | Inl _ \<Rightarrow> {})\<rparr>))"
proof -
  note f = cache_finish_simps [OF fin]
  let ?a = "cache_abs s"
  have ch: "ch < length (ch_closed (cs_core s))"
    using cache_wf_fetching [OF wf pc] .
  have "sf_step ?a (?a\<lparr>sf_inflight := None, sf_done := insert ch (sf_done ?a),
    sf_owner := (sf_owner ?a)(g := None), sf_wait := (sf_wait ?a)(g := None)\<rparr>)"
    by (rule sf_finish) (simp_all add: pc fin)
  then have "sf_step ?a (?a\<lparr>sf_inflight := None, sf_done := insert ch (sf_done ?a),
    sf_owner := (\<lambda>d. if d = g then None else sf_owner ?a d),
    sf_wait := (\<lambda>d. if d = g then None else sf_wait ?a d)\<rparr>)" by (simp only: fun_upd_def)
  moreover have "{i. i < length l \<and> l[ch := True] ! i} = insert ch {i. i < length l \<and> l ! i}"
    if "ch < length l" for l
    using that by (auto simp: nth_list_update_if split: if_splits)
  ultimately show "sf_step ?a (cache_abs (s\<lparr>cs_pc := (cs_pc s)(g := CReturned ks err), cs_core := core,
      cs_calls := finish_call (cs_now s) (cs_calls s),
      cs_listings := cs_listings s \<union> (case res of Inr l \<Rightarrow> {l} | Inl _ \<Rightarrow> {})\<rparr>))"
    by - (rule back_subst [of "sf_step (cache_abs s)"], assumption,
      use f ch in \<open>simp add: cache_abs_def fun_eq_iff\<close>)
qed

lemma cache_abs_step:
  assumes "cache_step s t" "cache_wf s"
  shows "sf_step (cache_abs s) (cache_abs t) \<or> cache_abs t = cache_abs s"
  using assms
proof (induction rule: cache_step.induct)
  case (cs_enter s g e core)
  then show ?case by (intro cache_abs_enter)
next
  case (cs_finish s g ch res ks err core)
  then show ?case by (intro disjI1 cache_abs_finish)
next
  case (cs_wake s g ch)
  let ?a = "cache_abs s"
  have "ch < length (ch_closed (cs_core s))"
    using cache_wf_waiting [OF cs_wake.prems cs_wake.hyps(1)] .
  then have "sf_step ?a (?a\<lparr>sf_wait := (sf_wait ?a)(g := None)\<rparr>)"
    by (intro sf_wake [of _ _ ch]) (simp_all add: cs_wake.hyps)
  then have "sf_step ?a (cache_abs (s\<lparr>cs_pc := (cs_pc s)(g := CLoop)\<rparr>))"
    by (rule back_subst [of "sf_step (cache_abs s)"])
      (use cs_wake.hyps in \<open>auto simp: cache_abs_def fun_eq_iff\<close>)
  then show ?case ..
qed (auto simp: cache_abs_def fun_eq_iff)

lemma cache_abs_init: "cache_init ttl s \<Longrightarrow> sf_init (cache_abs s)"
  by (simp add: cache_init_def sf_init_def cache_abs_def newCachedAgent_def)

interpretation cache_sim: simulation "cache_init ttl" cache_step cache_wf sf_init sf_step cache_abs
  for ttl
  by unfold_locales (use cache_wf_init cache_wf_step cache_abs_init cache_abs_step in blast)+

section \<open>Spacing of the upstream calls\<close>

text \<open>
  \<open>spaced gap calls\<close>, latest first: each call started at least \<open>gap\<close> after the one before it
  had finished.
\<close>

fun spaced :: "nat \<Rightarrow> (nat \<times> nat option) list \<Rightarrow> bool" where
  "spaced gap ((start, _) # (start', fin') # calls) \<longleftrightarrow>
     (case fin' of None \<Rightarrow> False | Some f \<Rightarrow> start' \<le> f \<and> f + gap \<le> start) \<and>
     spaced gap ((start', fin') # calls)"
| "spaced gap _ \<longleftrightarrow> True"

fun last_call_ok :: "nat \<Rightarrow> nat \<Rightarrow> nat \<Rightarrow> bool \<Rightarrow> (nat \<times> nat option) list \<Rightarrow> bool" where
  "last_call_ok gap now expires busy [] \<longleftrightarrow> \<not> busy \<and> expires = 0"
| "last_call_ok gap now expires busy ((start, None) # calls) \<longleftrightarrow> busy \<and> start \<le> now"
| "last_call_ok gap now expires busy ((start, Some f) # calls) \<longleftrightarrow>
     \<not> busy \<and> start \<le> f \<and> f \<le> now \<and> expires = f + gap"

definition spacing_inv :: "int \<Rightarrow> cache_sys \<Rightarrow> bool" where
  "spacing_inv ttl s \<longleftrightarrow> ca_ttl (cs_core s) = ttl \<and> spaced (nat ttl) (cs_calls s) \<and>
     last_call_ok (nat ttl) (cs_now s) (ca_expiresAt (cs_core s))
       (ca_inFlight (cs_core s) \<noteq> None) (cs_calls s)"

lemma last_call_ok_mono:
  "last_call_ok gap now expires busy calls \<Longrightarrow> now \<le> now' \<Longrightarrow> last_call_ok gap now' expires busy calls"
  by (induction gap now expires busy calls rule: last_call_ok.induct) auto

lemma spaced_start:
  "last_call_ok gap now expires False calls \<Longrightarrow> expires \<le> now \<Longrightarrow> spaced gap calls \<Longrightarrow>
   spaced gap ((now, None) # calls) \<and> last_call_ok gap now expires True ((now, None) # calls)"
  by (induction gap now expires False calls rule: last_call_ok.induct) auto

lemma spaced_finish:
  "last_call_ok gap now expires True calls \<Longrightarrow> spaced gap calls \<Longrightarrow>
   spaced gap (finish_call now calls) \<and> last_call_ok gap now (now + gap) False (finish_call now calls)"
proof (cases calls)
  case (Cons call rest)
  moreover obtain start fin where "call = (start, fin)" by fastforce
  moreover assume "last_call_ok gap now expires True calls" "spaced gap calls"
  ultimately show ?thesis by (cases fin; cases rest) auto
qed simp

lemma spacing_inv_init: "cache_init ttl s \<Longrightarrow> spacing_inv ttl s"
  by (simp add: cache_init_def spacing_inv_def newCachedAgent_def)

lemma fetching_busy:
  "cache_reach ttl s \<Longrightarrow> cs_pc s g = CFetching ch \<Longrightarrow> ca_inFlight (cs_core s) = Some ch"
  using sf_owner_inflight [OF cache_sim.reach_abs, of ttl s g ch] by simp

lemma spacing_inv_step:
  assumes "cache_step s t" "spacing_inv ttl s" "cache_reach ttl s"
  shows "spacing_inv ttl t"
  using assms
proof (induction rule: cache_step.induct)
  case (cs_tick s d)
  then show ?case by (auto simp: spacing_inv_def elim: last_call_ok_mono)
next
  case (cs_enter s g e core)
  from cs_enter.hyps(2) show ?case
  proof (cases rule: cache_enter_cases)
    case fetch
    with cs_enter.prems(1) spaced_start [of "nat ttl" "cs_now s" "ca_expiresAt (cs_core s)" "cs_calls s"]
    show ?thesis by (simp add: spacing_inv_def)
  qed (use cs_enter.prems(1) in \<open>simp_all add: spacing_inv_def\<close>)
next
  case (cs_finish s g ch res ks err core)
  note f = cache_finish_simps [OF cs_finish.hyps(2)]
  from fetching_busy [OF cs_finish.prems(2) cs_finish.hyps(1)] cs_finish.prems(1)
    spaced_finish [of "nat ttl" "cs_now s" "ca_expiresAt (cs_core s)" "cs_calls s"]
  show ?case by (simp add: spacing_inv_def f)
qed (simp_all add: spacing_inv_def)

lemma spacing_reach: "cache_reach ttl s \<Longrightarrow> spacing_inv ttl s"
  by (induction rule: reach.induct) (use spacing_inv_init spacing_inv_step in blast)+

section \<open>What is returned\<close>

definition served_inv :: "cache_sys \<Rightarrow> bool" where
  "served_inv s \<longleftrightarrow> core_inv (cs_listings s) (cs_core s) \<and>
     (ca_hasSnapshot (cs_core s) \<longleftrightarrow> cs_listings s \<noteq> {}) \<and>
     (\<forall>g ks. cs_pc s g = CReturned ks None \<longrightarrow> ks \<in> cs_listings s)"

lemma served_inv_init: "cache_init ttl s \<Longrightarrow> served_inv s"
  by (simp add: cache_init_def served_inv_def core_inv_new) (simp add: newCachedAgent_def)

lemma served_inv_step: "cache_step s t \<Longrightarrow> served_inv s \<Longrightarrow> served_inv t"
proof (induction rule: cache_step.induct)
  case (cs_enter s g e core)
  have ci: "core_inv (cs_listings s) core"
    using core_inv_enter [OF cs_enter.hyps(2)] cs_enter.prems by (simp add: served_inv_def)
  from cs_enter.hyps(2) show ?case
  proof (cases rule: cache_enter_cases)
    case hit
    with cs_enter.prems ci show ?thesis by (auto simp: served_inv_def core_inv_def)
  qed (use cs_enter.prems ci in \<open>auto simp: served_inv_def\<close>)
next
  case (cs_finish s g ch res ks err core)
  note f = cache_finish_simps [OF cs_finish.hyps(2)]
  let ?L = "cs_listings s \<union> (case res of Inr l \<Rightarrow> {l} | Inl _ \<Rightarrow> {})"
  have "core_inv ?L (cs_core s)" using cs_finish.prems
    by (auto simp: served_inv_def intro: core_inv_mono)
  from core_inv_finish [OF cs_finish.hyps(2) this] have ci: "core_inv ?L core" by auto
  have "ks \<in> ?L" if "err = None"
    using that ci f by (cases res) (auto simp: core_inv_def split: if_splits)
  with ci cs_finish.prems f(7) show ?case by (cases res) (auto simp: served_inv_def)
qed (auto simp: served_inv_def split: if_splits)

lemma served_reach: "cache_reach ttl s \<Longrightarrow> served_inv s"
  by (induction rule: reach.induct) (use served_inv_init served_inv_step in blast)+

lemma spaced_append: "spaced gap (xs @ ys) \<Longrightarrow> spaced gap ys"
proof (induction xs)
  case (Cons x xs)
  then show ?case by (cases "xs @ ys"; cases x) auto
qed simp

section \<open>A sample schedule\<close>

text \<open>Goroutine 0 fetches, goroutine 1 arrives and waits, then the answer arrives.\<close>

definition sched0 :: cache_sys where
  "sched0 = \<lparr>cs_core = newCachedAgent 10, cs_now = 5, cs_pc = (\<lambda>_. CIdle), cs_calls = [],
     cs_listings = {}\<rparr>"

definition sched_wait :: cache_sys where
  "sched_wait = sched0\<lparr>cs_pc := (\<lambda>_. CIdle)(0 := CFetching 0, 1 := CWaiting 0),
     cs_core := (newCachedAgent 10)\<lparr>ca_inFlight := Some 0, ch_closed := [False]\<rparr>,
     cs_calls := [(5, None)]\<rparr>"

definition sched_done :: cache_sys where
  "sched_done = sched_wait\<lparr>cs_pc := (cs_pc sched_wait)(0 := CReturned [sample_key] None),
     cs_core := \<lparr>ca_ttl = 10, ca_keys = [sample_key], ca_hasSnapshot = True, ca_cachedErr = None,
       ca_expiresAt = 15, ca_inFlight = None, ch_closed = [True]\<rparr>,
     cs_calls := [(5, Some 5)], cs_listings := {[sample_key]}\<rparr>"

lemma sched_wait_reach: "cache_reach 10 sched_wait"
proof -
  let ?R = "cache_reach 10"
  have r0: "?R sched0" by (rule reach_init) (simp add: cache_init_def sched0_def)
  define s1 where "s1 = sched0\<lparr>cs_pc := (cs_pc sched0)(0 := CLoop)\<rparr>"
  have r1: "?R s1" unfolding s1_def by (rule reach_step [OF r0 cs_call]) (simp add: sched0_def)
  have "cache_enter (cs_now s1) (cs_core s1) = (CacheFetch 0,
    (newCachedAgent 10)\<lparr>ca_inFlight := Some 0, ch_closed := [False]\<rparr>)"
    by (simp add: s1_def sched0_def cache_enter_def newCachedAgent_def)
  note r2 = reach_step [OF r1 cs_enter [of s1 0, OF _ this]]
  define s2 where "s2 = sched0\<lparr>cs_pc := (\<lambda>_. CIdle)(0 := CFetching 0),
    cs_core := (newCachedAgent 10)\<lparr>ca_inFlight := Some 0, ch_closed := [False]\<rparr>,
    cs_calls := [(5, None)]\<rparr>"
  have r2: "?R s2" using r2 by (simp add: s1_def s2_def sched0_def)
  define s3 where "s3 = s2\<lparr>cs_pc := (cs_pc s2)(1 := CLoop)\<rparr>"
  have r3: "?R s3" unfolding s3_def
    by (rule reach_step [OF r2 cs_call]) (simp add: s2_def)
  have "cache_enter (cs_now s3) (cs_core s3) = (CacheWait 0, cs_core s3)"
    by (simp add: s3_def s2_def sched0_def cache_enter_def newCachedAgent_def)
  from reach_step [OF r3 cs_enter [of s3 1, OF _ this]] show ?thesis
    by (simp add: s3_def s2_def sched0_def sched_wait_def)
qed

lemma sched_done_reach: "cache_reach 10 sched_done"
proof -
  have "cache_finish (cs_now sched_wait) 0 (Inr [sample_key]) (cs_core sched_wait) =
    (([sample_key], None), cs_core sched_done)"
    by (simp add: cache_finish_def sched_wait_def sched_done_def sched0_def newCachedAgent_def)
  from reach_step [OF sched_wait_reach cs_finish [of sched_wait 0, OF _ this]] show ?thesis
    by (simp add: sched_wait_def sched_done_def sched0_def)
qed

section \<open>Properties\<close>

text \<open>
  Property C7. In a cache with a positive time to live (with \<open>--cache 0\<close> every list call goes
  upstream and no goroutine waits), however goroutines interleave, at most one is in the upstream call, and a
  goroutine that waits either can continue or waits for the one that is in that call: no
  wake-up is lost.
\<close>

theorem cache_single_flight:
  assumes "cache_reach ttl s"
  shows "(cs_pc s g = CFetching ch \<and> cs_pc s h = CFetching ch' \<longrightarrow> g = h) \<and>
    (cs_pc s g = CWaiting ch \<longrightarrow> ch_closed (cs_core s) ! ch \<or> (\<exists>h. h \<noteq> g \<and> cs_pc s h = CFetching ch))"
proof -
  have r: "sf_reach (cache_abs s)" using cache_sim.reach_abs assms .
  have f: "fetching p = Some c \<longleftrightarrow> p = CFetching c" for p c
    by (cases p) auto
  show ?thesis
    using sf_one_owner [OF r, of g h] sf_no_lost_wakeup [OF r, of g ch] by (auto simp: f)
qed

theorem cache_single_flight_witness:
  "ch_closed (cs_core sched_wait) ! 0 \<or> (\<exists>h. h \<noteq> 1 \<and> cs_pc sched_wait h = CFetching 0)"
  using cache_single_flight [OF sched_wait_reach, of 1 0] by (simp add: sched_wait_def)

text \<open>
  Property C8. A cache with a positive time to live (with \<open>--cache 0\<close> nothing is limited) asks
  the upstream agent for its keys no more often than that time allows: of two successive calls, the later starts at least \<open>ttl\<close> after the earlier
  finished.
\<close>

theorem cache_rate_limited:
  assumes "cache_reach ttl s" "cs_calls s = later @ (start, fin) # (start', fin') # earlier"
  shows "\<exists>f. fin' = Some f \<and> start' \<le> f \<and> f + nat ttl \<le> start"
proof -
  have "spaced (nat ttl) ((start, fin) # (start', fin') # earlier)"
    using spacing_reach [OF assms(1)] assms(2) by (auto simp: spacing_inv_def dest: spaced_append)
  then show ?thesis by (cases fin') auto
qed

definition sched_again :: cache_sys where
  "sched_again = sched_done\<lparr>cs_now := 20,
     cs_pc := (cs_pc sched_done)(2 := CFetching 1),
     cs_core := (cs_core sched_done)\<lparr>ca_inFlight := Some 1, ch_closed := [True, False]\<rparr>,
     cs_calls := [(20, None), (5, Some 5)]\<rparr>"

lemma sched_again_reach: "cache_reach 10 sched_again"
proof -
  define s1 where "s1 = sched_done\<lparr>cs_now := cs_now sched_done + 15\<rparr>"
  have r1: "cache_reach 10 s1" unfolding s1_def by (rule reach_step [OF sched_done_reach cs_tick])
  define s2 where "s2 = s1\<lparr>cs_pc := (cs_pc s1)(2 := CLoop)\<rparr>"
  have r2: "cache_reach 10 s2" unfolding s2_def
    by (rule reach_step [OF r1 cs_call]) (simp add: s1_def sched_done_def sched_wait_def)
  have "cache_enter (cs_now s2) (cs_core s2) = (CacheFetch 1, cs_core sched_again)"
    by (simp add: s2_def s1_def sched_again_def sched_done_def sched_wait_def sched0_def cache_enter_def)
  from reach_step [OF r2 cs_enter [of s2 2, OF _ this]] show ?thesis
    by (simp add: s2_def s1_def sched_again_def sched_done_def sched_wait_def sched0_def)
qed

theorem cache_rate_limited_witness: "\<exists>f. Some (5::nat) = Some f \<and> 5 \<le> f \<and> f + nat 10 \<le> (20::nat)"
  by (rule cache_rate_limited [OF sched_again_reach, of "[]" 20 None 5 "Some 5" "[]"])
    (simp add: sched_again_def)

text \<open>
  Property C9. The cache serves listings of the agent and nothing else, and from the first
  successful listing on a failed refresh is answered with the cached keys and no error.
\<close>

theorem cache_serves_listings:
  assumes "cache_reach ttl s"
  shows "(cs_pc s g = CReturned ks None \<longrightarrow> ks \<in> cs_listings s) \<and>
    (cs_listings s \<noteq> {} \<and> cs_pc s h = CFetching ch \<longrightarrow>
       (\<exists>core. cache_finish (cs_now s) ch (Inl e) (cs_core s) = ((ca_keys (cs_core s), None), core) \<and>
          ca_keys (cs_core s) \<in> cs_listings s \<and> ca_keys core = ca_keys (cs_core s)))"
  using served_reach [OF assms]
  by (auto simp: served_inv_def core_inv_def cache_finish_def)

theorem cache_serves_listings_witness:
  "\<exists>core. cache_finish 20 1 (Inl (ErrText ''down'')) (cs_core sched_again) = (([sample_key], None), core)"
  using cache_serves_listings [OF sched_again_reach, of 0 "[]" 2 1 "ErrText ''down''"]
  by (auto simp: sched_again_def sched_done_def)

text \<open>
  Over the reconnecting client: until the entry expires, a repeated list call
  returns the same keys or error and does not touch the upstream connection.
\<close>

theorem cached_list_repeats:
  assumes "cached_List rc_tel rc_now reconnect_agent (c, r) = Some (res, (c', r'))"
    and "ca_ttl c > 0" "rc_now r'' < ca_expiresAt c'"
  shows "cached_List rc_tel rc_now reconnect_agent (c', r'') = Some (res, (c', rc_tel addCacheHit r''))"
  using cached_List_result [OF assms(1,2)] assms(2,3) by (simp add: cached_List_hit)

theorem cached_list_repeats_witness:
  "\<exists>c' r'. cached_List rc_tel rc_now reconnect_agent (c', r') =
     Some (Inr [sample_key], (c', rc_tel addCacheHit r')) \<and> requests (rc_wire r') = [ReqList]"
proof -
  have "\<exists>c' r'. cached_List rc_tel rc_now reconnect_agent (newCachedAgent 10, new_client) =
    Some (Inr [sample_key], (c', r')) \<and> rc_now r' < ca_expiresAt c' \<and> requests (rc_wire r') = [ReqList]"
    by (simp add: cached_List_def cache_enter_def cache_finish_def newCachedAgent_def
      reconnect_agent_def rc_List_def client_ops connection_locked_def sample_defs rc_now_def
      rc_wire_def list_result_def)
  then obtain c' r' where l: "cached_List rc_tel rc_now reconnect_agent (newCachedAgent 10, new_client) =
    Some (Inr [sample_key], (c', r'))" and "rc_now r' < ca_expiresAt c'" "requests (rc_wire r') = [ReqList]"
    by blast
  with cached_list_repeats [OF l _ this(2)] show ?thesis by (auto simp: newCachedAgent_def)
qed

end
