(* ===== verification/FilterAgent.thy ===== *)
theory FilterAgent
  imports Authorization CacheLaws
begin

text \<open>
  \<open>internal/proxy/agent.go\<close>: the agent a client connection talks to. It lists and signs for
  one group only and refuses every request that would change the upstream agent.

  \<open>filtered_source\<close> proves, over any list and sign source, that what reaches the source is
  list requests and signing requests for keys of the group; it is interpreted on the
  program's stack, the cache over the reconnecting client.
\<close>

section \<open>The agent of one group\<close>

definition errReadOnly :: goerr where "errReadOnly = ErrSentinel ErrReadOnly"
definition errKeyNotInGroup :: goerr where "errKeyNotInGroup = ErrSentinel ErrKeyNotInGroup"

definition filter_List ::
  "((proxy_telemetry \<Rightarrow> proxy_telemetry) \<Rightarrow> 'u \<Rightarrow> 'u) \<Rightarrow> fingerprints \<Rightarrow> 'u extended_agent \<Rightarrow>
   group_auth \<times> 'u \<Rightarrow> ((goerr + agent_key list) \<times> (group_auth \<times> 'u)) option" where
  "filter_List tel fp up = (\<lambda>(a, u).
     let u = tel addListRequest u
     in do {
       (res, (a, u)) \<leftarrow> authorization_list fp up (a, u);
       (case res of
          Inl err \<Rightarrow> Some (Inl err, (a, tel addListError u))
        | Inr ks \<Rightarrow> Some (Inr ks, (a, u)))
     })"

definition filter_SignWithFlags ::
  "((proxy_telemetry \<Rightarrow> proxy_telemetry) \<Rightarrow> 'u \<Rightarrow> 'u) \<Rightarrow> fingerprints \<Rightarrow> 'u extended_agent \<Rightarrow>
   blob \<Rightarrow> string \<Rightarrow> sig_flags \<Rightarrow> group_auth \<times> 'u \<Rightarrow> ((goerr + string) \<times> (group_auth \<times> 'u)) option" where
  "filter_SignWithFlags tel fp up key data flags = (\<lambda>(a, u).
     let u = tel addSignRequest u
     in do {
       (res, (a, u)) \<leftarrow> authorize fp up key (a, u);
       (case res of
          Inl err \<Rightarrow> Some (Inl err, (a, tel addSignError u))
        | Inr allowed \<Rightarrow>
            if \<not> allowed then Some (Inl errKeyNotInGroup, (a, tel addSignError u))
            else do {
              (sig, u) \<leftarrow> ag_SignWithFlags up key data flags u;
              Some (sig, (a, case sig of Inl err \<Rightarrow> tel addSignError u | Inr _ \<Rightarrow> u))
            })
     })"

definition filter_Sign where
  "filter_Sign tel fp up key data = filter_SignWithFlags tel fp up key data 0"

definition refuse :: "'s \<Rightarrow> (goerr option \<times> 's) option" where
  "refuse s = Some (Some errReadOnly, s)"

definition filterAgent ::
  "((proxy_telemetry \<Rightarrow> proxy_telemetry) \<Rightarrow> 'u \<Rightarrow> 'u) \<Rightarrow> fingerprints \<Rightarrow> 'u extended_agent \<Rightarrow>
   (group_auth \<times> 'u) extended_agent" where
  "filterAgent tel fp up =
     \<lparr>ag_List = filter_List tel fp up,
      ag_Sign = filter_Sign tel fp up,
      ag_SignWithFlags = filter_SignWithFlags tel fp up,
      ag_Add = (\<lambda>key. refuse), ag_Remove = (\<lambda>key. refuse), ag_RemoveAll = refuse,
      ag_Lock = (\<lambda>p. refuse), ag_Unlock = (\<lambda>p. refuse),
      ag_Signers = (\<lambda>s. Some (Inl errReadOnly, s)),
      ag_Extension = (\<lambda>name contents s. Some (Inl (ErrSentinel ErrExtensionUnsupported), s))\<rparr>"

section \<open>A client session\<close>

text \<open>
  What \<open>agent.ServeAgent\<close> does with one request of the client, as far as the agent's state
  is concerned: it calls the method of that name. A session is a list of requests.
\<close>

fun serve :: "'s extended_agent \<Rightarrow> request \<Rightarrow> 's \<Rightarrow> 's option" where
  "serve ag ReqList s = map_option snd (ag_List ag s)"
| "serve ag (ReqSign k d) s = map_option snd (ag_Sign ag k d s)"
| "serve ag (ReqSignWithFlags k d f) s = map_option snd (ag_SignWithFlags ag k d f s)"
| "serve ag (ReqAdd key) s = map_option snd (ag_Add ag key s)"
| "serve ag (ReqRemove key) s = map_option snd (ag_Remove ag key s)"
| "serve ag ReqRemoveAll s = map_option snd (ag_RemoveAll ag s)"
| "serve ag (ReqLock p) s = map_option snd (ag_Lock ag p s)"
| "serve ag (ReqUnlock p) s = map_option snd (ag_Unlock ag p s)"
| "serve ag ReqSigners s = map_option snd (ag_Signers ag s)"
| "serve ag (ReqExtension name b) s = map_option snd (ag_Extension ag name b s)"

fun session :: "'s extended_agent \<Rightarrow> request list \<Rightarrow> 's \<Rightarrow> 's option" where
  "session ag [] s = Some s"
| "session ag (q # qs) s = (case serve ag q s of None \<Rightarrow> None | Some s \<Rightarrow> session ag qs s)"

section \<open>Which requests may reach the source\<close>

text \<open>\<open>in_group fp ms w k\<close>: some listing on the wire \<open>w\<close> holds key \<open>k\<close> and a selector of the
  group matches it.\<close>

definition in_group :: "fingerprints \<Rightarrow> matcher list \<Rightarrow> wire_event list \<Rightarrow> blob \<Rightarrow> bool" where
  "in_group fp ms w k \<longleftrightarrow>
     (\<exists>ks \<in> listings w. \<exists>key \<in> set ks. \<exists>m \<in> set ms. k_Blob key = k \<and> Matches fp m key)"

fun permitted :: "fingerprints \<Rightarrow> matcher list \<Rightarrow> wire_event list \<Rightarrow> request \<Rightarrow> bool" where
  "permitted fp ms w ReqList \<longleftrightarrow> True"
| "permitted fp ms w (ReqSignWithFlags k d f) \<longleftrightarrow> in_group fp ms w k"
| "permitted fp ms w _ \<longleftrightarrow> False"

definition permitted_growth :: "fingerprints \<Rightarrow> matcher list \<Rightarrow> wire_event list \<Rightarrow> wire_event list \<Rightarrow> bool" where
  "permitted_growth fp ms w w' \<longleftrightarrow>
     (\<exists>evs. w' = w @ evs \<and> (\<forall>q \<in> set (requests evs). permitted fp ms w' q))"

lemma in_group_mono: "in_group fp ms w k \<Longrightarrow> listings w \<subseteq> listings w' \<Longrightarrow> in_group fp ms w' k"
  by (auto simp: in_group_def)

lemma permitted_mono: "permitted fp ms w q \<Longrightarrow> permitted fp ms (w @ evs) q"
  by (cases q) (auto intro: in_group_mono)

lemma permitted_growth_refl [simp]: "permitted_growth fp ms w w"
  by (simp add: permitted_growth_def)

lemma permitted_growth_trans:
  assumes "permitted_growth fp ms w w'" "permitted_growth fp ms w' w''"
  shows "permitted_growth fp ms w w''"
proof -
  from assms obtain evs evs' where evs: "w' = w @ evs" "\<forall>q \<in> set (requests evs). permitted fp ms w' q"
    "w'' = w' @ evs'" "\<forall>q \<in> set (requests evs'). permitted fp ms w'' q"
    by (auto simp: permitted_growth_def)
  then have "\<forall>q \<in> set (requests evs). permitted fp ms w'' q"
    using permitted_mono [of fp ms w' _ evs'] by blast
  with evs show ?thesis unfolding permitted_growth_def
    by (intro exI [of _ "evs @ evs'"]) auto
qed

lemma list_only_permitted: "list_only w w' \<Longrightarrow> permitted_growth fp ms w w'"
proof -
  assume "list_only w w'"
  then obtain evs where evs: "w' = w @ evs" "set (requests evs) \<subseteq> {ReqList}" by (auto simp: list_only_def)
  have "permitted fp ms w' q" if "q \<in> set (requests evs)" for q
  proof -
    from evs(2) that have "q = ReqList" by blast
    then show ?thesis by simp
  qed
  with evs(1) show ?thesis by (auto simp: permitted_growth_def)
qed

lemma sign_only_permitted: "sign_only k d f w w' \<Longrightarrow> in_group fp ms w k \<Longrightarrow> permitted_growth fp ms w w'"
  unfolding sign_only_def permitted_growth_def by (auto simp: in_group_mono [of fp ms w])

section \<open>The filter over any source\<close>

definition auth_inv :: "fingerprints \<Rightarrow> wire_event list \<Rightarrow> group_auth \<Rightarrow> bool" where
  "auth_inv fp w a \<longleftrightarrow> ga_inFlight a = None \<and>
     (\<forall>s. ga_snapshot a = Some s \<longrightarrow> (\<exists>ks \<in> listings w. s = BuildAllowSet fp ks (ga_matchers a)))"

lemma auth_inv_new: "auth_inv fp w (newGroupAuthorization ms)"
  by (simp add: auth_inv_def newGroupAuthorization_def)

lemma Allowed_BuildAllowSet [simp]:
  "Allowed (BuildAllowSet fp ks ms) k \<longleftrightarrow>
     (\<exists>key \<in> set ks. \<exists>m \<in> set ms. k_Blob key = k \<and> Matches fp m key)"
  by (auto simp: BuildAllowSet_def blobs_Filter)

lemma allows_in_group: "auth_inv fp w a \<Longrightarrow> allows a k \<Longrightarrow> in_group fp (ga_matchers a) w k"
  by (fastforce simp: allows_def auth_inv_def in_group_def split: option.splits)

lemma auth_inv_mono: "auth_inv fp w a \<Longrightarrow> listings w \<subseteq> listings w' \<Longrightarrow> auth_inv fp w' a"
  unfolding auth_inv_def by blast

locale filtered_source = agent_source up wire uinv tel
  for up :: "'u extended_agent" and wire :: "'u \<Rightarrow> wire_event list" and uinv :: "'u \<Rightarrow> bool"
    and tel :: "(proxy_telemetry \<Rightarrow> proxy_telemetry) \<Rightarrow> 'u \<Rightarrow> 'u" +
  fixes fp :: fingerprints
begin

definition ok :: "group_auth \<times> 'u \<Rightarrow> bool" where
  "ok s \<longleftrightarrow> uinv (snd s) \<and> auth_inv fp (wire (snd s)) (fst s)"

definition grows :: "group_auth \<times> 'u \<Rightarrow> group_auth \<times> 'u \<Rightarrow> bool" where
  "grows s s' \<longleftrightarrow> ok s' \<and> ga_matchers (fst s') = ga_matchers (fst s) \<and>
     permitted_growth fp (ga_matchers (fst s)) (wire (snd s)) (wire (snd s'))"

lemma ok_tel: "ok (a, u) \<Longrightarrow> ok (a, tel g u)"
  by (simp add: ok_def tel_inv)

lemma grows_refl: "ok s \<Longrightarrow> grows s s"
  by (simp add: grows_def)

lemma grows_trans: "grows s s' \<Longrightarrow> grows s' s'' \<Longrightarrow> grows s s''"
  by (auto simp: grows_def intro: permitted_growth_trans)

lemma grows_tel: "ok (a, u) \<Longrightarrow> grows (a, u) (a, tel g u)"
  by (simp add: grows_def ok_tel)

text \<open>A refresh of an idle group: the listing is published, the wire saw list requests only.\<close>

lemma refresh_owner:
  assumes "ok (a, u)" "joinRefreshLocked trigger a = ((r, owner), a1)"
    and "runRefresh fp up r (a1, u) = Some (a2, u2)"
  shows "owner \<and> grows (a, u) (a2, u2) \<and> (\<exists>refresh. await_refresh r a2 = Some refresh \<and>
    (\<forall>e. rf_err refresh = Some e \<longrightarrow> ga_snapshot a2 = ga_snapshot a) \<and>
    (rf_err refresh = None \<longrightarrow> (\<exists>ks \<in> listings (wire u2).
       rf_visible refresh = Filter fp ks (ga_matchers a) \<and>
       ga_snapshot a2 = Some (BuildAllowSet fp ks (ga_matchers a)))))"
proof -
  from assms(1) have u: "uinv u" and ai: "auth_inv fp (wire u) a" and idle: "ga_inFlight a = None"
    by (simp_all add: ok_def auth_inv_def)
  from assms(2) have r: "r = length (ga_refreshes a)" "owner" and a1: "ga_matchers a1 = ga_matchers a"
    "ga_snapshot a1 = ga_snapshot a" "r < length (ga_refreshes a1)"
    by (auto simp: join_idle [OF idle])
  from assms(3) obtain res where l: "ag_List up u = Some (res, u2)"
    and a2: "a2 = finishRefresh fp r res a1" by (auto simp: runRefresh_def bind_eq_Some_conv)
  note w = list_wire [OF u l]
  have "ks \<in> listings (wire u2)" if "res = Inr ks" for ks
    using list_listed [OF u l [unfolded that]] .
  moreover have "auth_inv fp (wire u2) a" using auth_inv_mono [OF ai list_only_listings [OF w]] .
  ultimately have "auth_inv fp (wire u2) a2"
    by (cases res) (auto simp: auth_inv_def a2 a1)
  then have "grows (a, u) (a2, u2)"
    using list_inv [OF u l] list_only_permitted [OF w] by (simp add: grows_def ok_def a2 a1)
  with r a1 \<open>\<And>ks. res = Inr ks \<Longrightarrow> ks \<in> listings (wire u2)\<close> show ?thesis
    by (cases res) (auto simp: a2 await_refresh_def)
qed

lemma authorization_list_spec:
  assumes "ok (a, u)" "authorization_list fp up (a, u) = Some (res, (a', u'))"
  shows "grows (a, u) (a', u') \<and> (\<forall>ks. res = Inr ks \<longrightarrow>
    (\<exists>l \<in> listings (wire u'). ks = Filter fp l (ga_matchers a)))"
proof -
  from assms(1) have idle: "ga_inFlight a = None" by (simp add: ok_def auth_inv_def)
  obtain r owner a1 where j: "joinRefreshLocked ''client-list'' a = ((r, owner), a1)"
    by (metis surj_pair)
  then have o: "owner" by (auto simp: join_idle [OF idle])
  from assms(2) j o obtain refresh where run: "runRefresh fp up r (a1, u) = Some (a', u')"
    and aw: "await_refresh r a' = Some refresh"
    and res: "res = (case rf_err refresh of None \<Rightarrow> Inr (rf_visible refresh) | Some e \<Rightarrow> Inl e)"
    by (auto simp: authorization_list_def bind_eq_Some_conv)
  from refresh_owner [OF assms(1) j run] aw show ?thesis
    by (auto simp: res split: option.splits)
qed

lemma authorize_spec:
  assumes "ok (a, u)" "authorize fp up k (a, u) = Some (res, (a', u'))"
  shows "grows (a, u) (a', u') \<and> (res = Inr True \<longrightarrow> allows a' k)"
proof (cases "allows a k")
  case True
  with assms grows_refl [OF assms(1)] show ?thesis by (auto simp: authorize_def)
next
  case False
  from assms(1) have idle: "ga_inFlight a = None" by (simp add: ok_def auth_inv_def)
  obtain r owner a1 where j: "joinRefreshLocked ''sign-miss'' a = ((r, owner), a1)"
    by (metis surj_pair)
  then have o: "owner" by (auto simp: join_idle [OF idle])
  from assms(2) j o False obtain refresh where run: "runRefresh fp up r (a1, u) = Some (a', u')"
    and aw: "await_refresh r a' = Some refresh" and res: "res = (case rf_err refresh of Some e \<Rightarrow> Inl e | None \<Rightarrow> Inr (allows a' k))"
    by (auto simp: authorize_def recheck_or_join_def bind_eq_Some_conv)
  from refresh_owner [OF assms(1) j run] aw res show ?thesis by (auto split: option.splits)
qed

lemma filter_List_spec:
  assumes "ok (a, u)" "filter_List tel fp up (a, u) = Some (res, (a', u'))"
  shows "grows (a, u) (a', u') \<and> (\<forall>ks. res = Inr ks \<longrightarrow>
    (\<exists>l \<in> listings (wire u'). ks = Filter fp l (ga_matchers a)))"
proof -
  from assms(2) obtain res1 a1 u1 where
    l: "authorization_list fp up (a, tel addListRequest u) = Some (res1, (a1, u1))"
    and r: "res = res1" "a' = a1" "u' = u1 \<or> u' = tel addListError u1"
    by (cases "authorization_list fp up (a, tel addListRequest u)")
      (auto simp: filter_List_def split: sum.splits prod.splits)
  note s = authorization_list_spec [OF ok_tel [OF assms(1)] l]
  have "grows (a, u) (a1, u1)" using grows_trans [OF grows_tel [OF assms(1)]] s by blast
  moreover from this have "grows (a1, u1) (a1, tel addListError u1)" by (intro grows_tel) (simp add: grows_def)
  ultimately show ?thesis using r s grows_trans by auto
qed

lemma filter_Sign_spec:
  assumes "ok (a, u)" "filter_SignWithFlags tel fp up k d f (a, u) = Some (res, (a', u'))"
  shows "grows (a, u) (a', u')"
proof -
  from assms(2) obtain res1 a1 u1 where
    l: "authorize fp up k (a, tel addSignRequest u) = Some (res1, (a1, u1))"
    and r: "(case res1 of Inl err \<Rightarrow> Some (Inl err, (a1, tel addSignError u1))
      | Inr allowed \<Rightarrow> if \<not> allowed then Some (Inl errKeyNotInGroup, (a1, tel addSignError u1))
          else do { (sig, u) \<leftarrow> ag_SignWithFlags up k d f u1;
            Some (sig, (a1, case sig of Inl err \<Rightarrow> tel addSignError u | Inr _ \<Rightarrow> u)) }) = Some (res, (a', u'))"
    by (auto simp: filter_SignWithFlags_def bind_eq_Some_conv)
  note s = authorize_spec [OF ok_tel [OF assms(1)] l]
  have g1: "grows (a, u) (a1, u1)" using grows_trans [OF grows_tel [OF assms(1)]] s by blast
  then have ok1: "ok (a1, u1)" by (simp add: grows_def)
  show ?thesis
  proof (cases "res1 = Inr True")
    case False
    with r have "a' = a1" "u' = tel addSignError u1" by (auto split: sum.splits if_splits)
    with grows_trans [OF g1 grows_tel [OF ok1]] show ?thesis by simp
  next
    case True
    with r obtain sig u2 where sg: "ag_SignWithFlags up k d f u1 = Some (sig, u2)" and "a' = a1"
      and u': "u' = u2 \<or> u' = tel addSignError u2"
      by (cases "ag_SignWithFlags up k d f u1") (auto split: sum.splits prod.splits)
    have ok1': "uinv u1" "auth_inv fp (wire u1) a1" using ok1 by (simp_all add: ok_def)
    note w = sign_wire [OF ok1'(1) sg]
    have "permitted_growth fp (ga_matchers a1) (wire u1) (wire u2)"
      using sign_only_permitted [OF w allows_in_group [OF ok1'(2)]] s True by blast
    moreover have "ok (a1, u2)" using sign_inv [OF ok1'(1) sg] auth_inv_mono [OF ok1'(2)]
      sign_only_listings [OF w] by (simp add: ok_def)
    ultimately have "grows (a1, u1) (a1, u2)" by (simp add: grows_def)
    moreover from this have "grows (a1, u2) (a1, tel addSignError u2)"
      by (intro grows_tel) (simp add: grows_def)
    ultimately show ?thesis using g1 u' \<open>a' = a1\<close> grows_trans by blast
  qed
qed

lemma serve_grows:
  assumes "ok s" "serve (filterAgent tel fp up) q s = Some s'"
  shows "grows s s'"
proof -
  obtain a u a' u' where s: "s = (a, u)" "s' = (a', u')" by fastforce
  have refl: "grows s s" using assms(1) by (rule grows_refl)
  show ?thesis
  proof (cases q)
    case ReqList
    with assms s obtain res where "filter_List tel fp up (a, u) = Some (res, (a', u'))"
      by (auto simp: filterAgent_def)
    with filter_List_spec assms(1) s show ?thesis by blast
  next
    case (ReqSign k d)
    with assms s obtain res where "filter_SignWithFlags tel fp up k d 0 (a, u) = Some (res, (a', u'))"
      by (auto simp: filterAgent_def filter_Sign_def)
    with filter_Sign_spec assms(1) s show ?thesis by blast
  next
    case (ReqSignWithFlags k d f)
    with assms s obtain res where "filter_SignWithFlags tel fp up k d f (a, u) = Some (res, (a', u'))"
      by (auto simp: filterAgent_def)
    with filter_Sign_spec assms(1) s show ?thesis by blast
  qed (use assms(2) refl in \<open>auto simp: filterAgent_def refuse_def\<close>)
qed

lemma session_grows: "ok s \<Longrightarrow> session (filterAgent tel fp up) qs s = Some s' \<Longrightarrow> grows s s'"
proof (induction qs arbitrary: s)
  case Nil
  then show ?case by (simp add: grows_refl)
next
  case (Cons q qs)
  then obtain s1 where "serve (filterAgent tel fp up) q s = Some s1"
    "session (filterAgent tel fp up) qs s1 = Some s'" by (auto split: option.splits)
  then have g: "grows s s1" "session (filterAgent tel fp up) qs s1 = Some s'"
    using serve_grows [OF Cons.prems(1)] by blast+
  then have "ok s1" by (simp add: grows_def)
  from grows_trans [OF g(1) Cons.IH [OF this g(2)]] show ?case .
qed

end

section \<open>The program's stack\<close>

text \<open>
  A group's agent over the cache over the reconnecting client, as \<open>runWithTelemetry\<close> in
  \<open>server.go\<close> builds it.
\<close>

definition stack_tel ::
  "(proxy_telemetry \<Rightarrow> proxy_telemetry) \<Rightarrow> cache_core \<times> reconnect_client \<Rightarrow> cache_core \<times> reconnect_client" where
  "stack_tel f = (\<lambda>(c, r). (c, rc_tel f r))"

definition stack_wire :: "cache_core \<times> reconnect_client \<Rightarrow> wire_event list" where
  "stack_wire = (\<lambda>(c, r). rc_wire r)"

definition upstream_stack :: "(cache_core \<times> reconnect_client) extended_agent" where
  "upstream_stack = cachedAgent rc_tel rc_now reconnect_agent"

definition group_agent :: "fingerprints \<Rightarrow> (group_auth \<times> cache_core \<times> reconnect_client) extended_agent" where
  "group_agent fp = filterAgent stack_tel fp upstream_stack"

definition stack_inv :: "cache_core \<times> reconnect_client \<Rightarrow> bool" where
  "stack_inv = cached_inv rc_wire rc_inv"

interpretation stack: agent_source upstream_stack stack_wire stack_inv stack_tel
  unfolding upstream_stack_def stack_wire_def stack_inv_def stack_tel_def
  by (rule chain.cached.agent_source_axioms)

interpretation filtered: filtered_source upstream_stack stack_wire stack_inv stack_tel fp for fp
  by unfold_locales

text \<open>Where a server starts: nothing fetched, nothing published.\<close>

definition start_state ::
  "matcher list \<Rightarrow> int \<Rightarrow> reconnect_client \<Rightarrow> group_auth \<times> cache_core \<times> reconnect_client" where
  "start_state ms ttl r = (newGroupAuthorization ms, newCachedAgent ttl, r)"

definition group_wire :: "group_auth \<times> cache_core \<times> reconnect_client \<Rightarrow> wire_event list" where
  "group_wire = (\<lambda>(a, c, r). rc_wire r)"

lemma start_ok: "rc_run r \<Longrightarrow> filtered.ok fp (start_state ms ttl r)"
  using rc_run_inv unfolding filtered.ok_def
  by (simp add: start_state_def auth_inv_new stack_inv_def cached_inv_def core_inv_new)
    (simp add: newCachedAgent_def)

lemma session_reaches:
  assumes "rc_run r" "session (group_agent fp) qs (start_state ms ttl r) = Some s'"
  shows "filtered.ok fp s' \<and> ga_matchers (fst s') = ms \<and>
    permitted_growth fp ms (rc_wire r) (group_wire s')"
proof -
  have "filtered.grows fp (start_state ms ttl r) s'"
    using filtered.session_grows [OF start_ok [OF assms(1)] assms(2) [unfolded group_agent_def]] .
  then have g: "filtered.ok fp s'" "ga_matchers (fst s') = ms"
    "permitted_growth fp ms (stack_wire (newCachedAgent ttl, r)) (stack_wire (snd s'))"
    unfolding filtered.grows_def by (simp_all add: start_state_def newGroupAuthorization_def)
  then show ?thesis by (cases s') (simp add: group_wire_def stack_wire_def)
qed

section \<open>Properties\<close>

definition group_fps :: fingerprints where
  "group_fps = \<lparr>FingerprintLegacyMD5 = (\<lambda>b. b), FingerprintSHA256 = (\<lambda>b. b)\<rparr>"

definition laptop_only :: "matcher list" where
  "laptop_only = [\<lparr>m_Type = MatchComment, m_value = ''laptop''\<rparr>]"

definition sample_start :: "group_auth \<times> cache_core \<times> reconnect_client" where
  "sample_start = start_state laptop_only 10 new_client"

lemmas stack_ops = group_agent_def filterAgent_def filter_List_def filter_SignWithFlags_def
  authorization_list_def authorize_def allows_def recheck_or_join_def joinRefreshLocked_def
  runRefresh_def await_refresh_def finishRefresh_def resolve_view_def logResolution_def
  newlyUnmatched_def publish_def complete_refresh_def upstream_stack_def stack_tel_def
  cachedAgent_def cached_List_def cache_enter_def cache_finish_def list_result_def on_up_def
  reconnect_agent_def rc_List_def rc_SignWithFlags_def rc_sign_def client_ops connection_locked_def
  rc_now_def rc_wire_def

lemmas stack_samples = sample_start_def start_state_def newGroupAuthorization_def newCachedAgent_def
  laptop_only_def group_fps_def sample_key_def Resolve_def Matches_def MatchComment_def
  NewAllowSet_def Allowed_def sample_defs

text \<open>
  Whatever a client of a group sends, in any order, all that reaches the
  upstream agent is list requests and signing requests for keys that some selector of the
  group matches in a listing of that agent; no other request of a client is ever forwarded.
\<close>

theorem session_confined_to_group:
  assumes "rc_run r" "session (group_agent fp) qs (start_state ms ttl r) = Some s'"
  shows "\<exists>evs. group_wire s' = rc_wire r @ evs \<and>
    (\<forall>q \<in> set (requests evs). q = ReqList \<or>
       (\<exists>k d f ks key m. q = ReqSignWithFlags k d f \<and> ks \<in> listings (group_wire s') \<and>
          key \<in> set ks \<and> m \<in> set ms \<and> k_Blob key = k \<and> Matches fp m key))"
proof -
  from session_reaches [OF assms] obtain evs where evs: "group_wire s' = rc_wire r @ evs"
    "\<forall>q \<in> set (requests evs). permitted fp ms (group_wire s') q"
    by (auto simp: permitted_growth_def)
  have "q = ReqList \<or> (\<exists>k d f ks key m. q = ReqSignWithFlags k d f \<and> ks \<in> listings (group_wire s') \<and>
      key \<in> set ks \<and> m \<in> set ms \<and> k_Blob key = k \<and> Matches fp m key)"
    if "permitted fp ms (group_wire s') q" for q
    using that by (cases q) (auto simp: in_group_def)
  with evs show ?thesis by blast
qed

lemma sample_session:
  "\<exists>s'. session (group_agent group_fps) [ReqList, ReqSignWithFlags ''blob'' ''data'' 0, ReqRemoveAll]
     sample_start = Some s' \<and>
     requests (group_wire s') = [ReqList, ReqSignWithFlags ''blob'' ''data'' 0] \<and>
     listings (group_wire s') = {[sample_key]}"
  by (simp add: stack_ops stack_samples group_wire_def refuse_def go_simps)

theorem session_confined_to_group_witness:
  "\<exists>s' evs. session (group_agent group_fps) [ReqList, ReqSignWithFlags ''blob'' ''data'' 0, ReqRemoveAll]
     sample_start = Some s' \<and> group_wire s' = rc_wire new_client @ evs \<and>
     (\<forall>q \<in> set (requests evs). q = ReqList \<or>
       (\<exists>k d f ks key m. q = ReqSignWithFlags k d f \<and> ks \<in> listings (group_wire s') \<and>
          key \<in> set ks \<and> m \<in> set laptop_only \<and> k_Blob key = k \<and> Matches group_fps m key))"
proof -
  have run: "rc_run new_client" unfolding new_client_def by (rule run_new)
  obtain s' where s': "session (group_agent group_fps)
    [ReqList, ReqSignWithFlags ''blob'' ''data'' 0, ReqRemoveAll] sample_start = Some s'"
    using sample_session by blast
  from session_confined_to_group [OF run s' [unfolded sample_start_def]] s' show ?thesis by blast
qed

text \<open>
  Property C4. What a client of a group is shown is exactly the group's filter of one
  listing of the upstream agent: after any session, a successful list call returns the
  filter of a listing on the wire, and publishes the matching allow set.
\<close>

theorem group_list_is_filtered_listing:
  assumes "rc_run r" "session (group_agent fp) qs (start_state ms ttl r) = Some s"
    and "ag_List (group_agent fp) s = Some (Inr ks, s')"
  shows "\<exists>l \<in> listings (group_wire s'). ks = Filter fp l ms"
proof -
  obtain a u where s0: "s = (a, u)" by (cases s)
  obtain a' u' where s1: "s' = (a', u')" by (cases s')
  note s = s0 s1
  note i = session_reaches [OF assms(1,2)]
  have "filter_List stack_tel fp upstream_stack (a, u) = Some (Inr ks, (a', u'))"
    using assms(3) by (simp add: group_agent_def filterAgent_def s)
  from filtered.filter_List_spec [OF _ this] i s show ?thesis
    by (cases u') (simp add: group_wire_def stack_wire_def)
qed

theorem group_list_is_filtered_listing_witness:
  "\<exists>s' ks l. ag_List (group_agent group_fps) sample_start = Some (Inr ks, s') \<and>
     l \<in> listings (group_wire s') \<and> ks = Filter group_fps l laptop_only"
proof -
  have run: "rc_run new_client" unfolding new_client_def by (rule run_new)
  have "\<exists>ks s'. ag_List (group_agent group_fps) sample_start = Some (Inr ks, s')"
    by (simp add: stack_ops stack_samples go_simps)
  then obtain ks s' where l: "ag_List (group_agent group_fps) sample_start = Some (Inr ks, s')" by blast
  have "session (group_agent group_fps) [] (start_state laptop_only 10 new_client) = Some sample_start"
    by (simp add: sample_start_def)
  from group_list_is_filtered_listing [OF run this l] l show ?thesis by blast
qed

lemma permitted_sign_path:
  assumes "filtered.ok fp (a, u)" "allows a k"
    and "filter_SignWithFlags stack_tel fp upstream_stack k d f (a, u) = Some (res, (a', u'))"
  shows "a' = a \<and> sign_only k d f (stack_wire u) (stack_wire u')"
proof -
  have u: "stack_inv u" using assms(1) by (simp add: filtered.ok_def)
  from assms(2,3) obtain sig u1 where
    sg: "ag_SignWithFlags upstream_stack k d f (stack_tel addSignRequest u) = Some (sig, u1)"
    and r: "a' = a" "u' = u1 \<or> u' = stack_tel addSignError u1"
    by (cases "ag_SignWithFlags upstream_stack k d f (stack_tel addSignRequest u)")
      (auto simp: filter_SignWithFlags_def authorize_def split: sum.splits prod.splits)
  from stack.sign_wire [OF stack.tel_inv [OF u] sg] r show ?thesis by auto
qed

text \<open>
  Signing with a key the current view allows costs no upstream listing: the
  call writes nothing but that one request, and leaves the group's view alone.
\<close>

theorem sign_fast_path:
  assumes "rc_run r" "session (group_agent fp) qs (start_state ms ttl r) = Some (a, u)" "allows a k"
    and "ag_SignWithFlags (group_agent fp) k d f (a, u) = Some (res, (a', u'))"
  shows "a' = a \<and> (\<exists>evs. stack_wire u' = stack_wire u @ evs \<and>
    requests evs \<in> {[], [ReqSignWithFlags k d f]})"
proof -
  have "filter_SignWithFlags stack_tel fp upstream_stack k d f (a, u) = Some (res, (a', u'))"
    using assms(4) by (simp add: group_agent_def filterAgent_def)
  with permitted_sign_path [OF _ assms(3) this] session_reaches [OF assms(1,2)] show ?thesis
    by (auto simp: sign_only_def)
qed

theorem sign_fast_path_witness:
  "\<exists>a u res u' evs. ag_SignWithFlags (group_agent group_fps) ''blob'' ''data'' 0 (a, u) = Some (res, (a, u')) \<and>
     allows a ''blob'' \<and> stack_wire u' = stack_wire u @ evs \<and>
     requests evs \<in> {[], [ReqSignWithFlags ''blob'' ''data'' 0]}"
proof -
  have run: "rc_run new_client" unfolding new_client_def by (rule run_new)
  have "\<exists>a u res a' u'. session (group_agent group_fps) [ReqList] sample_start = Some (a, u) \<and>
    allows a ''blob'' \<and>
    ag_SignWithFlags (group_agent group_fps) ''blob'' ''data'' 0 (a, u) = Some (res, (a', u'))"
    by (simp add: stack_ops stack_samples go_simps)
  then obtain a u res a' u' where
    s: "session (group_agent group_fps) [ReqList] sample_start = Some (a, u)" "allows a ''blob''"
      "ag_SignWithFlags (group_agent group_fps) ''blob'' ''data'' 0 (a, u) = Some (res, (a', u'))"
    by blast
  from sign_fast_path [OF run s(1) [unfolded sample_start_def] s(2,3)] s show ?thesis by blast
qed

end
