(* ===== verification/AuthorizationConc.thy ===== *)
theory AuthorizationConc
  imports Authorization StepSystems
begin

text \<open>
  Any number of goroutines on one group's authorization: client list and sign calls and the
  startup refresh that \<open>Run\<close> claims before a socket exists. A step is an atomic section of
  \<open>Authorization\<close>, one atomic load or store, or the return of the upstream list, whose
  result is arbitrary.
\<close>

section \<open>The system\<close>

datatype auth_goal = GStart | GList | GSign blob

datatype auth_pc =
    AIdle
  | ASignCheck blob
  | ASignLock blob
  | AListJoin
  | AListing auth_goal nat
  | APublishing auth_goal nat "agent_key list"
  | ANoting auth_goal nat "agent_key list"
  | ACompleting auth_goal nat "agent_key list" "goerr option"
  | AWaiting auth_goal nat
  | ASignDecide blob
  | AListed "goerr + agent_key list"
  | ASigned blob "goerr + bool"

text \<open>\<open>as_listings\<close> is the ghost set of the listings the upstream layer returned.\<close>

record auth_sys =
  as_auth :: group_auth
  as_started :: bool
  as_pc :: "nat \<Rightarrow> auth_pc"
  as_listings :: "agent_key list set"

definition auth_init :: "matcher list \<Rightarrow> auth_sys \<Rightarrow> bool" where
  "auth_init ms s \<longleftrightarrow> as_auth s = newGroupAuthorization ms \<and> \<not> as_started s \<and>
     as_pc s = (\<lambda>_. AIdle) \<and> as_listings s = {}"

text \<open>Where a goroutine goes after it joined a refresh, and after it was woken.\<close>

definition joined_pc :: "auth_goal \<Rightarrow> nat \<times> bool \<Rightarrow> auth_pc" where
  "joined_pc goal = (\<lambda>(r, owner). if owner then AListing goal r else AWaiting goal r)"

fun completed_pc :: "auth_goal \<Rightarrow> nat \<Rightarrow> auth_pc" where
  "completed_pc GStart r = AIdle"
| "completed_pc goal r = AWaiting goal r"

fun woken_pc :: "auth_goal \<Rightarrow> authorization_refresh \<Rightarrow> auth_pc" where
  "woken_pc GStart refresh = AIdle"
| "woken_pc GList refresh =
     AListed (case rf_err refresh of None \<Rightarrow> Inr (rf_visible refresh) | Some e \<Rightarrow> Inl e)"
| "woken_pc (GSign k) refresh =
     (case rf_err refresh of Some e \<Rightarrow> ASigned k (Inl e) | None \<Rightarrow> ASignDecide k)"

definition goto :: "nat \<Rightarrow> auth_pc \<Rightarrow> auth_sys \<Rightarrow> auth_sys" where
  "goto g pc s = s\<lparr>as_pc := (as_pc s)(g := pc)\<rparr>"

inductive auth_step :: "fingerprints \<Rightarrow> auth_sys \<Rightarrow> auth_sys \<Rightarrow> bool" for fp where
  startup: "\<not> as_started s \<Longrightarrow> joinRefreshLocked ''startup'' (as_auth s) = ((r, owner), a) \<Longrightarrow>
    auth_step fp s (goto g (AListing GStart r) (s\<lparr>as_auth := a, as_started := True\<rparr>))"
| call_list: "as_started s \<Longrightarrow> as_pc s g = AIdle \<Longrightarrow> auth_step fp s (goto g AListJoin s)"
| call_sign: "as_started s \<Longrightarrow> as_pc s g = AIdle \<Longrightarrow> auth_step fp s (goto g (ASignCheck k) s)"
| check: "as_pc s g = ASignCheck k \<Longrightarrow>
    auth_step fp s (goto g (if allows (as_auth s) k then ASigned k (Inr True) else ASignLock k) s)"
| recheck: "as_pc s g = ASignLock k \<Longrightarrow> recheck_or_join k (as_auth s) = (joined, a) \<Longrightarrow>
    auth_step fp s (goto g (case joined of None \<Rightarrow> ASigned k (Inr True)
      | Some ro \<Rightarrow> joined_pc (GSign k) ro) (s\<lparr>as_auth := a\<rparr>))"
| join: "as_pc s g = AListJoin \<Longrightarrow> joinRefreshLocked ''client-list'' (as_auth s) = (ro, a) \<Longrightarrow>
    auth_step fp s (goto g (joined_pc GList ro) (s\<lparr>as_auth := a\<rparr>))"
| listed: "as_pc s g = AListing goal r \<Longrightarrow>
    auth_step fp s (goto g (APublishing goal r ks) (s\<lparr>as_listings := insert ks (as_listings s)\<rparr>))"
| list_failed: "as_pc s g = AListing goal r \<Longrightarrow>
    auth_step fp s (goto g (ACompleting goal r [] (Some e)) s)"
| publishing: "as_pc s g = APublishing goal r ks \<Longrightarrow>
    auth_step fp s (goto g (ANoting goal r ks) (s\<lparr>as_auth := publish fp ks (as_auth s)\<rparr>))"
| noting: "as_pc s g = ANoting goal r ks \<Longrightarrow> Resolve fp ks (ga_matchers (as_auth s)) = (visible, counts) \<Longrightarrow>
    auth_step fp s (goto g (ACompleting goal r visible None)
      (s\<lparr>as_auth := logResolution counts (as_auth s)\<rparr>))"
| completing: "as_pc s g = ACompleting goal r visible err \<Longrightarrow>
    auth_step fp s (goto g (completed_pc goal r)
      (s\<lparr>as_auth := complete_refresh r visible err (as_auth s)\<rparr>))"
| wake: "as_pc s g = AWaiting goal r \<Longrightarrow> rf_done (ga_refreshes (as_auth s) ! r) \<Longrightarrow>
    auth_step fp s (goto g (woken_pc goal (ga_refreshes (as_auth s) ! r)) s)"
| decide: "as_pc s g = ASignDecide k \<Longrightarrow>
    auth_step fp s (goto g (ASigned k (Inr (allows (as_auth s) k))) s)"
| return_list: "as_pc s g = AListed res \<Longrightarrow> auth_step fp s (goto g AIdle s)"
| return_sign: "as_pc s g = ASigned k res' \<Longrightarrow> auth_step fp s (goto g AIdle s)"

abbreviation auth_reach :: "fingerprints \<Rightarrow> matcher list \<Rightarrow> auth_sys \<Rightarrow> bool" where
  "auth_reach fp ms \<equiv> reach (auth_init ms) (auth_step fp)"

section \<open>The authorization implements single flight\<close>

fun owns :: "auth_pc \<Rightarrow> nat option" where
  "owns (AListing goal r) = Some r"
| "owns (APublishing goal r ks) = Some r"
| "owns (ANoting goal r ks) = Some r"
| "owns (ACompleting goal r ks e) = Some r"
| "owns _ = None"

fun waits :: "auth_pc \<Rightarrow> nat option" where
  "waits (AWaiting goal r) = Some r"
| "waits _ = None"

definition auth_abs :: "auth_sys \<Rightarrow> single_flight" where
  "auth_abs s = \<lparr>sf_inflight = ga_inFlight (as_auth s), sf_next = length (ga_refreshes (as_auth s)),
     sf_done = {r. r < length (ga_refreshes (as_auth s)) \<and> rf_done (ga_refreshes (as_auth s) ! r)},
     sf_owner = (\<lambda>g. owns (as_pc s g)), sf_wait = (\<lambda>g. waits (as_pc s g))\<rparr>"

lemma auth_abs_sel [simp]:
  "sf_inflight (auth_abs s) = ga_inFlight (as_auth s)"
  "sf_next (auth_abs s) = length (ga_refreshes (as_auth s))"
  "sf_owner (auth_abs s) g = owns (as_pc s g)" "sf_wait (auth_abs s) g = waits (as_pc s g)"
  "r \<in> sf_done (auth_abs s) \<longleftrightarrow> r < length (ga_refreshes (as_auth s)) \<and> rf_done (ga_refreshes (as_auth s) ! r)"
  by (simp_all add: auth_abs_def)

lemma goto_sel [simp]:
  "as_auth (goto g pc s) = as_auth s" "as_started (goto g pc s) = as_started s"
  "as_listings (goto g pc s) = as_listings s" "as_pc (goto g pc s) = (as_pc s)(g := pc)"
  by (simp_all add: goto_def)

text \<open>Tickets in use name refreshes that exist; before startup nothing has happened.\<close>

definition auth_wf :: "auth_sys \<Rightarrow> bool" where
  "auth_wf s \<longleftrightarrow>
     (\<forall>g r. owns (as_pc s g) = Some r \<or> waits (as_pc s g) = Some r \<or> ga_inFlight (as_auth s) = Some r \<longrightarrow>
        r < length (ga_refreshes (as_auth s))) \<and>
     (\<not> as_started s \<longrightarrow> ga_inFlight (as_auth s) = None \<and> as_pc s = (\<lambda>_. AIdle))"

lemma auth_wf_owns: "auth_wf s \<Longrightarrow> owns (as_pc s g) = Some r \<Longrightarrow> r < length (ga_refreshes (as_auth s))"
  by (simp add: auth_wf_def)

lemma auth_wf_waits: "auth_wf s \<Longrightarrow> waits (as_pc s g) = Some r \<Longrightarrow> r < length (ga_refreshes (as_auth s))"
  by (simp add: auth_wf_def)

lemma join_cases:
  assumes "joinRefreshLocked trigger a = ((r, owner), a')"
  obtains (joined) "\<not> owner" "a' = a" "ga_inFlight a = Some r"
  | (claimed) "owner" "ga_inFlight a = None" "r = length (ga_refreshes a)"
      "a' = a\<lparr>ga_inFlight := Some (length (ga_refreshes a)), ga_refreshes := ga_refreshes a @
         [\<lparr>rf_done = False, rf_trigger = trigger, rf_visible = [], rf_err = None\<rparr>]\<rparr>"
  using assms by (cases "ga_inFlight a") (auto simp: joinRefreshLocked_def Let_def)

lemma owns_joined [simp]:
  "owns (joined_pc goal (r, owner)) = (if owner then Some r else None)"
  "waits (joined_pc goal (r, owner)) = (if owner then None else Some r)"
  by (simp_all add: joined_pc_def)

lemma completed_simps [simp]:
  "owns (completed_pc goal r) = None"
  "waits (completed_pc goal r) = (if goal = GStart then None else Some r)"
  by (cases goal; simp)+

lemma waits_completed: "waits (completed_pc goal r) = None \<or> waits (completed_pc goal r) = Some r"
  by (cases goal) simp_all

lemma woken_simps [simp]: "owns (woken_pc goal refresh) = None" "waits (woken_pc goal refresh) = None"
  by (cases goal; simp split: option.split)+

text \<open>The abstract step of a join and of a completion, whatever the goroutine does next.\<close>

lemma auth_abs_join:
  assumes "joinRefreshLocked trigger (as_auth s) = ((r, owner), a)"
    and "owns (as_pc s g) = None" "waits (as_pc s g) = None"
    and "owns pc = (if owner then Some r else None)" "waits pc = (if owner then None else Some r)"
    and "as_auth t = a" "as_pc t = (as_pc s)(g := pc)"
  shows "sf_step (auth_abs s) (auth_abs t)"
  using assms(1)
proof (cases rule: join_cases)
  case joined
  have "sf_step (auth_abs s) ((auth_abs s)\<lparr>sf_wait := (sf_wait (auth_abs s))(g \<mapsto> r)\<rparr>)"
    by (rule sf_join) (simp_all add: joined assms)
  then show ?thesis
    by (rule back_subst [of "sf_step (auth_abs s)"])
      (use joined assms in \<open>auto simp: auth_abs_def fun_eq_iff\<close>)
next
  case claimed
  let ?a = "auth_abs s"
  have "sf_step ?a (?a\<lparr>sf_inflight := Some (sf_next ?a), sf_next := Suc (sf_next ?a),
    sf_owner := (sf_owner ?a)(g \<mapsto> sf_next ?a)\<rparr>)"
    by (rule sf_claim) (simp_all add: claimed assms)
  then show ?thesis
    by (rule back_subst [of "sf_step (auth_abs s)"])
      (use claimed assms in \<open>auto simp: auth_abs_def fun_eq_iff nth_append less_Suc_eq\<close>)
qed

lemma auth_abs_complete:
  assumes "owns (as_pc s g) = Some r" "auth_wf s" "owns pc = None" "waits pc = None \<or> waits pc = Some r"
    and "as_auth t = complete_refresh r visible err (as_auth s)" "as_pc t = (as_pc s)(g := pc)"
  shows "sf_step (auth_abs s) (auth_abs t)"
proof -
  let ?a = "auth_abs s"
  note r = auth_wf_owns [OF assms(2,1)]
  have "sf_step ?a (?a\<lparr>sf_inflight := None, sf_done := insert r (sf_done ?a),
    sf_owner := (sf_owner ?a)(g := None), sf_wait := (sf_wait ?a)(g := waits pc)\<rparr>)"
    by (rule sf_finish) (simp_all add: assms)
  then show ?thesis
    by (rule back_subst [of "sf_step (auth_abs s)"])
      (use r assms in \<open>auto simp: auth_abs_def fun_eq_iff complete_refresh_def nth_list_update_if\<close>)
qed

text \<open>Every other step leaves the tickets alone, or a waiter goes on.\<close>

lemma auth_abs_same:
  "ga_inFlight (as_auth t) = ga_inFlight (as_auth s) \<Longrightarrow>
   ga_refreshes (as_auth t) = ga_refreshes (as_auth s) \<Longrightarrow> as_pc t = (as_pc s)(g := pc) \<Longrightarrow>
   owns pc = owns (as_pc s g) \<Longrightarrow> waits pc = waits (as_pc s g) \<Longrightarrow> auth_abs t = auth_abs s"
  by (auto simp: auth_abs_def fun_eq_iff)

lemma auth_abs_goto:
  assumes "ga_inFlight (as_auth u) = ga_inFlight (as_auth s)" "ga_refreshes (as_auth u) = ga_refreshes (as_auth s)"
    and "as_pc u = as_pc s" "owns pc = owns (as_pc s g)" "waits pc = waits (as_pc s g)"
  shows "auth_abs (goto g pc u) = auth_abs s"
  by (rule auth_abs_same [where g = g and pc = pc]) (simp_all add: assms)

lemma auth_abs_wake:
  assumes "waits (as_pc s g) = Some r" "auth_wf s" "rf_done (ga_refreshes (as_auth s) ! r)"
    and "owns (as_pc s g) = None" "owns pc = None" "waits pc = None"
  shows "sf_step (auth_abs s) (auth_abs (goto g pc s))"
proof -
  let ?a = "auth_abs s"
  have "sf_step ?a (?a\<lparr>sf_wait := (sf_wait ?a)(g := None)\<rparr>)"
    by (rule sf_wake [of _ _ r]) (simp_all add: assms auth_wf_waits [OF assms(2,1)])
  then show ?thesis
    by (rule back_subst [of "sf_step (auth_abs s)"]) (use assms in \<open>auto simp: auth_abs_def fun_eq_iff\<close>)
qed

lemma auth_abs_step:
  "auth_step fp s t \<Longrightarrow> auth_wf s \<Longrightarrow> sf_step (auth_abs s) (auth_abs t) \<or> auth_abs t = auth_abs s"
proof (induction rule: auth_step.induct)
  case (startup s r owner a g)
  from startup.prems startup.hyps(1) have idle: "ga_inFlight (as_auth s) = None" "as_pc s g = AIdle"
    by (simp_all add: auth_wf_def)
  with startup.hyps(2) have "owner" by (auto simp: join_idle)
  with startup.hyps idle show ?case
    by (intro disjI1 auth_abs_join [OF startup.hyps(2), where g = g and pc = "AListing GStart r"]) simp_all
next
  case (recheck s g k joined a)
  show ?case
  proof (cases "allows (as_auth s) k")
    case True
    with recheck.hyps show ?thesis by (intro disjI2 auth_abs_same [where g = g])
      (auto simp: recheck_or_join_def)
  next
    case False
    obtain r owner a1 where j: "joinRefreshLocked ''sign-miss'' (as_auth s) = ((r, owner), a1)"
      by (metis surj_pair)
    with False recheck.hyps have "joined = Some (r, owner)" "a = a1" by (auto simp: recheck_or_join_def)
    with j recheck.hyps(1) show ?thesis
      by (intro disjI1 auth_abs_join [OF j, where g = g and pc = "joined_pc (GSign k) (r, owner)"]) simp_all
  qed
next
  case (join s g ro a)
  obtain r owner where ro: "ro = (r, owner)" by fastforce
  with join.hyps show ?case
    by (intro disjI1 auth_abs_join [where g = g and pc = "joined_pc GList (r, owner)"]) simp_all
next
  case (completing s g goal r visible err)
  then show ?case
    by (intro disjI1 auth_abs_complete [where g = g and r = r, OF _ _ _ waits_completed]) auto
next
  case (wake s g goal r)
  then show ?case by (intro disjI1 auth_abs_wake [where r = r]) simp_all
qed (auto intro: auth_abs_goto)

lemma auth_wf_init: "auth_init ms s \<Longrightarrow> auth_wf s"
  by (simp add: auth_init_def auth_wf_def newGroupAuthorization_def)

lemma auth_abs_init: "auth_init ms s \<Longrightarrow> sf_init (auth_abs s)"
  by (simp add: auth_init_def sf_init_def auth_abs_def newGroupAuthorization_def)

text \<open>A step keeps \<open>auth_wf\<close> when it adds refreshes and its goroutine's ticket exists.\<close>

lemma auth_wf_goto:
  assumes "auth_wf s" "length (ga_refreshes (as_auth s)) \<le> length (ga_refreshes (as_auth t))"
    and "as_pc t = (as_pc s)(g := pc)" "as_started t"
    and "\<And>r. owns pc = Some r \<or> waits pc = Some r \<Longrightarrow> r < length (ga_refreshes (as_auth t))"
    and "ga_inFlight (as_auth t) = ga_inFlight (as_auth s) \<or> ga_inFlight (as_auth t) = None \<or>
      (\<exists>r. ga_inFlight (as_auth t) = Some r \<and> r < length (ga_refreshes (as_auth t)))"
  shows "auth_wf t"
proof -
  let ?n = "length (ga_refreshes (as_auth t))"
  have "r < ?n" if "owns (as_pc t d) = Some r \<or> waits (as_pc t d) = Some r" for d r
  proof (cases "d = g")
    case True
    with that assms(3,5) show ?thesis by simp
  next
    case False
    with that assms(3) have "owns (as_pc s d) = Some r \<or> waits (as_pc s d) = Some r" by simp
    with assms(1) have "r < length (ga_refreshes (as_auth s))" unfolding auth_wf_def by blast
    with assms(2) show ?thesis by simp
  qed
  moreover have "r < ?n" if "ga_inFlight (as_auth t) = Some r" for r
  proof (cases "ga_inFlight (as_auth t) = ga_inFlight (as_auth s)")
    case True
    with that assms(1) have "r < length (ga_refreshes (as_auth s))" unfolding auth_wf_def by simp
    with assms(2) show ?thesis by simp
  next
    case False
    with that assms(6) show ?thesis by auto
  qed
  ultimately show ?thesis using assms(4) unfolding auth_wf_def by blast
qed

lemma started_of_pc: "auth_wf s \<Longrightarrow> as_pc s g \<noteq> AIdle \<Longrightarrow> as_started s"
  by (auto simp: auth_wf_def)

lemma started_of_pcD: "as_pc s g = pc \<Longrightarrow> auth_wf s \<Longrightarrow> pc \<noteq> AIdle \<Longrightarrow> as_started s"
  by (auto simp: auth_wf_def)

lemma joined_wf:
  assumes "auth_wf s" "joinRefreshLocked trigger (as_auth s) = ((r, owner), a)"
  shows "length (ga_refreshes (as_auth s)) \<le> length (ga_refreshes a) \<and> r < length (ga_refreshes a) \<and>
    ga_inFlight a = Some r"
  using assms(2) by (cases rule: join_cases) (use assms(1) in \<open>auto simp: auth_wf_def\<close>)

lemma auth_wf_along:
  assumes wf: "auth_wf s" and len: "length (ga_refreshes (as_auth u)) = length (ga_refreshes (as_auth s))"
    and flight: "ga_inFlight (as_auth u) = ga_inFlight (as_auth s) \<or> ga_inFlight (as_auth u) = None"
    and pcs: "as_pc u = as_pc s" "as_started u"
    and tickets: "\<And>r. owns pc = Some r \<or> waits pc = Some r \<Longrightarrow> owns (as_pc s g) = Some r"
  shows "auth_wf (goto g pc u)"
proof (rule auth_wf_goto [OF wf, where g = g and pc = pc])
  show "r < length (ga_refreshes (as_auth (goto g pc u)))" if "owns pc = Some r \<or> waits pc = Some r" for r
    using auth_wf_owns [OF wf tickets [OF that]] len by simp
qed (use len flight pcs in auto)

lemma auth_wf_step: "auth_step fp s t \<Longrightarrow> auth_wf s \<Longrightarrow> auth_wf t"
proof (induction rule: auth_step.induct)
  case (startup s r owner a g)
  from joined_wf [OF startup.prems startup.hyps(2)] show ?case
    by (intro auth_wf_goto [OF startup.prems, where g = g and pc = "AListing GStart r"]) auto
next
  case (recheck s g k joined a)
  note st = started_of_pc [OF recheck.prems, of g]
  show ?case
  proof (cases joined)
    case None
    with recheck.hyps have "a = as_auth s" by (auto simp: recheck_or_join_def split: if_splits prod.splits)
    with None st recheck show ?thesis
      by (intro auth_wf_goto [OF recheck.prems, where g = g and pc = "ASigned k (Inr True)"]) auto
  next
    case (Some ro)
    obtain r owner where ro: "ro = (r, owner)" by fastforce
    with recheck.hyps Some have j: "joinRefreshLocked ''sign-miss'' (as_auth s) = ((r, owner), a)"
      by (auto simp: recheck_or_join_def split: if_splits prod.splits)
    from joined_wf [OF recheck.prems j] st recheck.hyps(1) Some ro show ?thesis
      by (intro auth_wf_goto [OF recheck.prems, where g = g and pc = "joined_pc (GSign k) (r, owner)"])
        (auto split: if_splits)
  qed
next
  case (join s g ro a)
  obtain r owner where ro: "ro = (r, owner)" by fastforce
  from joined_wf [OF join.prems join.hyps(2) [unfolded ro]] started_of_pc [OF join.prems, of g]
    join.hyps(1) ro show ?case
    by (intro auth_wf_goto [OF join.prems, where g = g and pc = "joined_pc GList (r, owner)"])
      (auto split: if_splits)
qed (auto intro!: auth_wf_along dest: started_of_pcD split: if_splits)

interpretation auth_sim: simulation "auth_init ms" "auth_step fp" auth_wf sf_init sf_step auth_abs
  for fp ms
  by unfold_locales (use auth_wf_init auth_wf_step auth_abs_init auth_abs_step in blast)+

section \<open>Decisions rest on listings\<close>

text \<open>
  Every published view, every finished refresh, every result of a list call and every
  positive answer to a signing client comes from a listing.
\<close>

definition view_of :: "fingerprints \<Rightarrow> matcher list \<Rightarrow> agent_key list set \<Rightarrow> agent_key list \<Rightarrow> bool" where
  "view_of fp ms L visible \<longleftrightarrow> (\<exists>l \<in> L. visible = Filter fp l ms)"

definition allowed_by :: "fingerprints \<Rightarrow> matcher list \<Rightarrow> agent_key list set \<Rightarrow> blob \<Rightarrow> bool" where
  "allowed_by fp ms L k \<longleftrightarrow> (\<exists>l \<in> L. Allowed (BuildAllowSet fp l ms) k)"

fun pc_ok :: "fingerprints \<Rightarrow> matcher list \<Rightarrow> agent_key list set \<Rightarrow> auth_pc \<Rightarrow> bool" where
  "pc_ok fp ms L (APublishing goal r ks) \<longleftrightarrow> ks \<in> L"
| "pc_ok fp ms L (ANoting goal r ks) \<longleftrightarrow> ks \<in> L"
| "pc_ok fp ms L (ACompleting goal r visible err) \<longleftrightarrow> err = None \<longrightarrow> view_of fp ms L visible"
| "pc_ok fp ms L (AListed res) \<longleftrightarrow> (\<forall>ks. res = Inr ks \<longrightarrow> view_of fp ms L ks)"
| "pc_ok fp ms L (ASigned k res) \<longleftrightarrow> res = Inr True \<longrightarrow> allowed_by fp ms L k"
| "pc_ok fp ms L _ \<longleftrightarrow> True"

definition auth_data :: "fingerprints \<Rightarrow> matcher list \<Rightarrow> auth_sys \<Rightarrow> bool" where
  "auth_data fp ms s \<longleftrightarrow> ga_matchers (as_auth s) = ms \<and>
     (\<forall>k. allows (as_auth s) k \<longrightarrow> allowed_by fp ms (as_listings s) k) \<and>
     (\<forall>r < length (ga_refreshes (as_auth s)). rf_done (ga_refreshes (as_auth s) ! r) \<longrightarrow>
        rf_err (ga_refreshes (as_auth s) ! r) = None \<longrightarrow>
        view_of fp ms (as_listings s) (rf_visible (ga_refreshes (as_auth s) ! r))) \<and>
     (\<forall>g. pc_ok fp ms (as_listings s) (as_pc s g))"

lemma view_of_mono: "view_of fp ms L v \<Longrightarrow> L \<subseteq> L' \<Longrightarrow> view_of fp ms L' v"
  unfolding view_of_def by blast

lemma allowed_by_mono: "allowed_by fp ms L k \<Longrightarrow> L \<subseteq> L' \<Longrightarrow> allowed_by fp ms L' k"
  unfolding allowed_by_def by blast

lemma auth_data_pc: "auth_data fp ms s \<Longrightarrow> as_pc s g = pc \<Longrightarrow> pc_ok fp ms (as_listings s) pc"
  by (auto simp: auth_data_def)

lemma pc_ok_mono: "pc_ok fp ms L pc \<Longrightarrow> L \<subseteq> L' \<Longrightarrow> pc_ok fp ms L' pc"
  by (cases pc) (auto intro: view_of_mono allowed_by_mono)

lemma auth_data_init: "auth_init ms s \<Longrightarrow> auth_data fp ms s"
  by (simp add: auth_init_def auth_data_def newGroupAuthorization_def allows_def)

text \<open>A step that keeps the authorization keeps the data when its new position is justified.\<close>

lemma auth_data_goto:
  "auth_data fp ms s \<Longrightarrow> pc_ok fp ms (as_listings s) pc \<Longrightarrow> auth_data fp ms (goto g pc s)"
  by (simp add: auth_data_def)

lemma auth_data_join:
  assumes "auth_data fp ms s" "joinRefreshLocked trigger (as_auth s) = (ro, a)"
    "pc_ok fp ms (as_listings s) pc" "as_auth s' = a" "as_listings s' = as_listings s" "as_pc s' = as_pc s"
  shows "auth_data fp ms (goto g pc s')"
proof -
  obtain r owner where "ro = (r, owner)" by fastforce
  from assms(2) [unfolded this] show ?thesis
    by (cases rule: join_cases)
      (use assms(1,3-) in \<open>auto simp: auth_data_def nth_append less_Suc_eq allows_def\<close>)
qed

lemma pc_ok_joined [simp]: "pc_ok fp ms L (joined_pc goal ro)"
  by (simp add: joined_pc_def split: prod.split)

lemma pc_ok_completed [simp]: "pc_ok fp ms L (completed_pc goal r)"
  by (cases goal) simp_all

lemma auth_data_step:
  "auth_step fp s t \<Longrightarrow> auth_data fp ms s \<Longrightarrow> auth_wf s \<Longrightarrow> auth_data fp ms t"
proof (induction rule: auth_step.induct)
  case (startup s r owner a g)
  then show ?case by (intro auth_data_join [OF startup.prems(1) startup.hyps(2)]) simp_all
next
  case (recheck s g k joined a)
  show ?case
  proof (cases "allows (as_auth s) k")
    case True
    with recheck.hyps have "joined = None" "a = as_auth s" by (simp_all add: recheck_or_join_def)
    with recheck.prems(1) True auth_data_goto [OF recheck.prems(1), of "ASigned k (Inr True)" g]
    show ?thesis by (simp add: auth_data_def)
  next
    case False
    obtain ro a1 where j: "joinRefreshLocked ''sign-miss'' (as_auth s) = (ro, a1)" by fastforce
    with False recheck.hyps have "joined = Some ro" "a = a1" by (auto simp: recheck_or_join_def)
    then show ?thesis by (simp, intro auth_data_join [OF recheck.prems(1) j]) simp_all
  qed
next
  case (join s g ro a)
  then show ?case by (intro auth_data_join [OF join.prems(1) join.hyps(2)]) simp_all
next
  case (listed s g goal r ks)
  have m: "as_listings s \<subseteq> insert ks (as_listings s)" by blast
  from listed.prems(1) show ?case
    by (auto simp: auth_data_def intro: pc_ok_mono [OF _ m] view_of_mono [OF _ m] allowed_by_mono [OF _ m])
next
  case (publishing s g goal r ks)
  note pc = auth_data_pc [OF publishing.prems(1) publishing.hyps(1)]
  then have "ks \<in> as_listings s" by simp
  with publishing.prems(1) show ?case
    by (auto simp: auth_data_def allowed_by_def allows_def)
next
  case (noting s g goal r ks visible counts)
  note pc = auth_data_pc [OF noting.prems(1) noting.hyps(1)]
  with noting.hyps(2) have "ks \<in> as_listings s" "visible = Filter fp ks (ga_matchers (as_auth s))"
    by (simp_all add: Filter_def)
  with noting.prems(1) show ?case by (auto simp: auth_data_def view_of_def allows_def)
next
  case (completing s g goal r visible err)
  note pc = auth_data_pc [OF completing.prems(1) completing.hyps(1)]
  then have v: "err = None \<longrightarrow> view_of fp ms (as_listings s) visible" by simp
  have "allows (complete_refresh r visible err a) k = allows a k" for a k
    by (simp add: allows_def)
  with v completing.prems(1) show ?case
    by (auto simp: auth_data_def complete_refresh_def nth_list_update_if)
next
  case (wake s g goal r)
  then have "r < length (ga_refreshes (as_auth s))" by (intro auth_wf_waits [where g = g]) auto
  with wake have "rf_err (ga_refreshes (as_auth s) ! r) = None \<longrightarrow>
    view_of fp ms (as_listings s) (rf_visible (ga_refreshes (as_auth s) ! r))"
    by (simp add: auth_data_def)
  then show ?case
    by (intro auth_data_goto [OF wake.prems(1)]) (cases goal; simp split: option.split)
qed (auto intro!: auth_data_goto simp: auth_data_def)

lemma auth_data_reach: "auth_reach fp ms s \<Longrightarrow> auth_data fp ms s"
proof (induction rule: reach.induct)
  case (reach_init s)
  then show ?case by (rule auth_data_init)
next
  case (reach_step s t)
  from auth_sim.reach_cinv [OF reach_step.hyps(1)] show ?case
    using auth_data_step [OF reach_step.hyps(2) reach_step.IH] by blast
qed

end
