(* ===== verification/AuthorizationLaws.thy ===== *)
theory AuthorizationLaws
  imports AuthorizationConc
begin

text \<open>
  What the shared group authorization promises, for any interleaving: one upstream listing
  at a time and no lost wake-up; answers that rest on listings; and one warning each time a
  selector stops matching.
\<close>

section \<open>Warnings over a sequence of resolutions\<close>

definition matched_by :: "fingerprints \<Rightarrow> matcher list \<Rightarrow> agent_key list \<Rightarrow> nat \<Rightarrow> bool" where
  "matched_by fp ms l j \<longleftrightarrow> (\<exists>k \<in> set l. Matches fp (ms ! j) k)"

definition unmatched_by :: "fingerprints \<Rightarrow> matcher list \<Rightarrow> agent_key list \<Rightarrow> nat \<Rightarrow> bool" where
  "unmatched_by fp ms l j \<longleftrightarrow> \<not> matched_by fp ms l j"

definition warnings_at :: "fingerprints \<Rightarrow> matcher list \<Rightarrow> agent_key list list \<Rightarrow> nat \<Rightarrow> (nat \<times> match_type) list" where
  "warnings_at fp ms ls i = map (\<lambda>j. (j + 1, m_Type (ms ! j)))
     (filter (\<lambda>j. unmatched_by fp ms (ls ! i) j \<and> (i = 0 \<or> \<not> unmatched_by fp ms (ls ! (i - 1)) j))
       [0..<length ms])"

definition resolve_all :: "fingerprints \<Rightarrow> agent_key list list \<Rightarrow> group_auth \<Rightarrow> group_auth" where
  "resolve_all fp ls a = fold (\<lambda>l a. snd (resolve_view fp l a)) ls a"

lemma count_zero_unmatched:
  "j < length ms \<Longrightarrow> snd (Resolve fp l ms) ! j = 0 \<longleftrightarrow> unmatched_by fp ms l j"
  by (auto simp: Resolve_spec unmatched_by_def matched_by_def filter_empty_conv)

lemma length_counts [simp]: "length (snd (Resolve fp l ms)) = length ms"
  by (simp add: Resolve_spec)

lemma resolve_view_log:
  "ga_matchers a = ms \<Longrightarrow>
   ga_unmatched (snd (resolve_view fp l a)) = map (unmatched_by fp ms l) [0..<length ms] \<and>
   ga_matchers (snd (resolve_view fp l a)) = ms \<and>
   ga_warned (snd (resolve_view fp l a)) = ga_warned a @ map (\<lambda>j. (j + 1, m_Type (ms ! j)))
     (filter (\<lambda>j. unmatched_by fp ms l j \<and> (length (ga_unmatched a) \<noteq> length ms \<or> \<not> ga_unmatched a ! j))
       [0..<length ms])"
proof -
  assume ms: "ga_matchers a = ms"
  have "map (\<lambda>c. c = 0) (snd (Resolve fp l ms)) = map (unmatched_by fp ms l) [0..<length ms]"
    by (rule nth_equalityI) (simp_all add: count_zero_unmatched)
  moreover have "filter (\<lambda>j. snd (Resolve fp l ms) ! j = 0 \<and>
      (length (ga_unmatched a) \<noteq> length ms \<or> \<not> ga_unmatched a ! j)) [0..<length ms] =
    filter (\<lambda>j. unmatched_by fp ms l j \<and>
      (length (ga_unmatched a) \<noteq> length ms \<or> \<not> ga_unmatched a ! j)) [0..<length ms]"
    by (rule filter_cong) (simp_all add: count_zero_unmatched)
  moreover have "ga_unmatched (publish fp l a) = ga_unmatched a" "ga_warned (publish fp l a) = ga_warned a"
    by (simp_all add: publish_def)
  ultimately show ?thesis
    by (simp add: resolve_view_def logResolution_def newlyUnmatched_spec split_beta ms)
qed

lemma resolve_all_log:
  "ga_matchers (resolve_all fp ls (newGroupAuthorization ms)) = ms \<and>
   ga_unmatched (resolve_all fp ls (newGroupAuthorization ms)) =
     (if ls = [] then [] else map (unmatched_by fp ms (last ls)) [0..<length ms]) \<and>
   ga_warned (resolve_all fp ls (newGroupAuthorization ms)) =
     concat (map (warnings_at fp ms ls) [0..<length ls])"
proof (induction ls rule: rev_induct)
  case Nil
  then show ?case by (simp add: resolve_all_def newGroupAuthorization_def)
next
  case (snoc l ls)
  let ?a = "resolve_all fp ls (newGroupAuthorization ms)"
  from snoc have m: "ga_matchers ?a = ms"
    and u: "ga_unmatched ?a = (if ls = [] then [] else map (unmatched_by fp ms (last ls)) [0..<length ms])"
    and w: "ga_warned ?a = concat (map (warnings_at fp ms ls) [0..<length ls])" by blast+
  have step: "resolve_all fp (ls @ [l]) (newGroupAuthorization ms) = snd (resolve_view fp l ?a)"
    by (simp add: resolve_all_def)
  have "filter (\<lambda>j. unmatched_by fp ms l j \<and> (length (ga_unmatched ?a) \<noteq> length ms \<or> \<not> ga_unmatched ?a ! j))
      [0..<length ms] =
    filter (\<lambda>j. unmatched_by fp ms ((ls @ [l]) ! length ls) j \<and>
      (length ls = 0 \<or> \<not> unmatched_by fp ms ((ls @ [l]) ! (length ls - 1)) j)) [0..<length ms]"
    by (rule filter_cong) (auto simp: u nth_append last_conv_nth)
  then have "map (\<lambda>j. (j + 1, m_Type (ms ! j))) (filter (\<lambda>j. unmatched_by fp ms l j \<and>
      (length (ga_unmatched ?a) \<noteq> length ms \<or> \<not> ga_unmatched ?a ! j)) [0..<length ms]) =
    warnings_at fp ms (ls @ [l]) (length ls)"
    by (simp add: warnings_at_def)
  moreover have c: "map (warnings_at fp ms (ls @ [l])) [0..<length ls] = map (warnings_at fp ms ls) [0..<length ls]"
  proof (rule map_cong [OF refl])
    fix i assume "i \<in> set [0..<length ls]"
    then have "(ls @ [l]) ! i = ls ! i" "(ls @ [l]) ! (i - 1) = ls ! (i - 1)" by (auto simp: nth_append)
    then show "warnings_at fp ms (ls @ [l]) i = warnings_at fp ms ls i" by (simp only: warnings_at_def)
  qed
  moreover have "concat (map (warnings_at fp ms (ls @ [l])) [0..<length (ls @ [l])]) =
    concat (map (warnings_at fp ms ls) [0..<length ls]) @ warnings_at fp ms (ls @ [l]) (length ls)"
    using arg_cong [OF c, of concat] by simp
  ultimately show ?case using resolve_view_log [OF m, of fp l] by (simp only: step w) simp
qed

section \<open>A sample schedule\<close>

text \<open>Goroutine 0 claims the startup refresh; goroutine 1 lists and waits for it.\<close>

definition auth_sched0 :: "matcher list \<Rightarrow> auth_sys" where
  "auth_sched0 ms = \<lparr>as_auth = newGroupAuthorization ms, as_started = False, as_pc = (\<lambda>_. AIdle),
     as_listings = {}\<rparr>"

definition auth_wait :: "matcher list \<Rightarrow> auth_sys" where
  "auth_wait ms = \<lparr>as_auth = (newGroupAuthorization ms)\<lparr>ga_inFlight := Some 0, ga_refreshes :=
       [\<lparr>rf_done = False, rf_trigger = ''startup'', rf_visible = [], rf_err = None\<rparr>]\<rparr>,
     as_started = True, as_pc = (\<lambda>_. AIdle)(0 := AListing GStart 0, 1 := AWaiting GList 0),
     as_listings = {}\<rparr>"

lemma auth_wait_reach: "auth_reach fp ms (auth_wait ms)"
proof -
  have r0: "auth_reach fp ms (auth_sched0 ms)"
    by (rule reach_init) (simp add: auth_init_def auth_sched0_def)
  define a where "a = (newGroupAuthorization ms)\<lparr>ga_inFlight := Some 0, ga_refreshes :=
    [\<lparr>rf_done = False, rf_trigger = ''startup'', rf_visible = [], rf_err = None\<rparr>]\<rparr>"
  define s1 where "s1 = goto 0 (AListing GStart 0) ((auth_sched0 ms)\<lparr>as_auth := a, as_started := True\<rparr>)"
  define s2 where "s2 = goto 1 AListJoin s1"
  define s3 where "s3 = goto 1 (joined_pc GList (0, False)) (s2\<lparr>as_auth := a\<rparr>)"
  have "joinRefreshLocked ''startup'' (as_auth (auth_sched0 ms)) = ((0, True), a)"
    by (simp add: auth_sched0_def newGroupAuthorization_def joinRefreshLocked_def a_def)
  moreover have "\<not> as_started (auth_sched0 ms)" by (simp add: auth_sched0_def)
  ultimately have "auth_step fp (auth_sched0 ms) s1" unfolding s1_def by (intro auth_step.startup)
  with r0 have r1: "auth_reach fp ms s1" by (rule reach_step)
  have "auth_step fp s1 s2" unfolding s2_def
    by (rule auth_step.call_list) (simp_all add: s1_def auth_sched0_def)
  with r1 have r2: "auth_reach fp ms s2" by (rule reach_step)
  have "joinRefreshLocked ''client-list'' (as_auth s2) = ((0, False), a)"
    by (simp add: s2_def s1_def a_def joinRefreshLocked_def)
  moreover have "as_pc s2 1 = AListJoin" by (simp add: s2_def)
  ultimately have "auth_step fp s2 s3" unfolding s3_def by (intro auth_step.join)
  with r2 have r3: "auth_reach fp ms s3" by (rule reach_step)
  have "s3 = auth_wait ms"
    by (simp add: s3_def s2_def s1_def a_def auth_sched0_def auth_wait_def goto_def joined_pc_def)
  with r3 show ?thesis by simp
qed

text \<open>The startup listing arrives, is published and completes the refresh of both.\<close>

definition auth_served :: "fingerprints \<Rightarrow> matcher list \<Rightarrow> agent_key list \<Rightarrow> auth_sys \<Rightarrow> bool" where
  "auth_served fp ms ks s \<longleftrightarrow> auth_reach fp ms s \<and> as_listings s = {ks} \<and>
     (\<exists>v. as_pc s 1 = AListed (Inr v))"

lemma auth_served_ex: "\<exists>s. auth_served fp ms ks s"
proof -
  note r0 = auth_wait_reach [where fp = fp and ms = ms]
  define s1 where "s1 = goto 0 (APublishing GStart 0 ks) ((auth_wait ms)\<lparr>as_listings := insert ks {}\<rparr>)"
  have r1: "auth_reach fp ms s1" unfolding s1_def
    using reach_step [OF r0 auth_step.listed [of "auth_wait ms" 0 GStart 0]] by (simp add: auth_wait_def)
  define s2 where "s2 = goto 0 (ANoting GStart 0 ks) (s1\<lparr>as_auth := publish fp ks (as_auth s1)\<rparr>)"
  have r2: "auth_reach fp ms s2" unfolding s2_def
    by (rule reach_step [OF r1 auth_step.publishing]) (simp add: s1_def)
  obtain v counts where rs: "Resolve fp ks (ga_matchers (as_auth s2)) = (v, counts)" by fastforce
  define s3 where "s3 = goto 0 (ACompleting GStart 0 v None) (s2\<lparr>as_auth := logResolution counts (as_auth s2)\<rparr>)"
  have r3: "auth_reach fp ms s3" unfolding s3_def
    by (rule reach_step [OF r2 auth_step.noting [OF _ rs]]) (simp add: s2_def)
  define s4 where "s4 = goto 0 (completed_pc GStart 0) (s3\<lparr>as_auth := complete_refresh 0 v None (as_auth s3)\<rparr>)"
  have r4: "auth_reach fp ms s4" unfolding s4_def
    by (rule reach_step [OF r3 auth_step.completing]) (simp add: s3_def)
  have w: "as_pc s4 1 = AWaiting GList 0" by (simp add: s4_def s3_def s2_def s1_def auth_wait_def)
  have d: "ga_refreshes (as_auth s4) ! 0 =
    \<lparr>rf_done = True, rf_trigger = ''startup'', rf_visible = v, rf_err = None\<rparr>"
    by (simp add: s4_def s3_def s2_def s1_def auth_wait_def)
  have "auth_reach fp ms (goto 1 (AListed (Inr v)) s4)"
    using reach_step [OF r4 auth_step.wake [OF w]] by (simp add: d)
  moreover have "as_listings s4 = {ks}" by (simp add: s4_def s3_def s2_def s1_def)
  ultimately have "auth_served fp ms ks (goto 1 (AListed (Inr v)) s4)" by (simp add: auth_served_def)
  then show ?thesis ..
qed

section \<open>Properties\<close>

text \<open>
  Property C5. However client and startup goroutines interleave, at most one of them is
  refreshing a group, its refresh is the one in flight that later callers join, and a
  goroutine that waits can continue or waits for the goroutine that is refreshing.
\<close>

theorem auth_single_flight:
  assumes "auth_reach fp ms s"
  shows "(owns (as_pc s g) = Some r \<and> owns (as_pc s h) = Some r' \<longrightarrow> g = h \<and> ga_inFlight (as_auth s) = Some r) \<and>
    (as_pc s g = AWaiting goal r \<longrightarrow> rf_done (ga_refreshes (as_auth s) ! r) \<or>
       (\<exists>h. h \<noteq> g \<and> owns (as_pc s h) = Some r))"
proof -
  have r: "sf_reach (auth_abs s)" using auth_sim.reach_abs assms .
  show ?thesis
    using sf_one_owner [OF r, of g h] sf_owner_inflight [OF r, of g] sf_no_lost_wakeup [OF r, of g r] by auto
qed

theorem auth_single_flight_witness:
  "\<exists>h. h \<noteq> 1 \<and> owns (as_pc (auth_wait []) h) = Some 0"
  using auth_single_flight [OF auth_wait_reach [where fp = sample_fps and ms = "[]"], of 1 0 0 0 GList]
  by (simp add: auth_wait_def)

text \<open>
  Property C6. Under any interleaving, a list call that succeeds returns the group's filter
  of one listing of the upstream agent, and a signing client is told yes only for a key that
  the allow set of some listing admits.
\<close>

theorem auth_answers_justified:
  assumes "auth_reach fp ms s"
  shows "(as_pc s g = AListed (Inr ks) \<longrightarrow> (\<exists>l \<in> as_listings s. ks = Filter fp l ms)) \<and>
    (as_pc s g = ASigned k (Inr True) \<longrightarrow> (\<exists>l \<in> as_listings s. Allowed (BuildAllowSet fp l ms) k))"
  using auth_data_pc [OF auth_data_reach [OF assms], of g] by (auto simp: view_of_def allowed_by_def)

definition laptop_matcher :: matcher where
  "laptop_matcher = \<lparr>m_Type = MatchComment, m_value = ''laptop''\<rparr>"

definition two_keys :: "agent_key list" where
  "two_keys = [sample_key\<lparr>k_Blob := ''other'', k_Comment := ''desktop''\<rparr>, sample_key]"

theorem auth_answers_justified_witness:
  "\<exists>s :: auth_sys. auth_reach sample_fps [laptop_matcher] s \<and> as_listings s = {two_keys} \<and> as_pc s 1 = AListed (Inr [sample_key])"
proof -
  have f: "Filter sample_fps two_keys [laptop_matcher] = [sample_key]"
    by (simp add: Filter_def Resolve_def laptop_matcher_def sample_key_def two_keys_def Matches_def match_type_defs)
  obtain s v where s: "auth_reach sample_fps [laptop_matcher] s" "as_pc s 1 = AListed (Inr v)" "as_listings s = {two_keys}"
    using auth_served_ex [of sample_fps "[laptop_matcher]" two_keys] by (auto simp: auth_served_def)
  with auth_answers_justified [OF s(1), of 1 v "''''"] f show ?thesis by auto
qed

text \<open>
  Over any sequence of resolutions of a group, a selector is warned about in
  exactly those that leave it unmatched while the resolution before matched it (or was none),
  in configuration order, with its position counted from one.
\<close>

theorem unmatched_warned_once:
  "ga_warned (resolve_all fp ls (newGroupAuthorization ms)) =
     concat (map (\<lambda>i. map (\<lambda>j. (j + 1, m_Type (ms ! j)))
       (filter (\<lambda>j. \<not> matched_by fp ms (ls ! i) j \<and> (i = 0 \<or> matched_by fp ms (ls ! (i - 1)) j))
         [0..<length ms])) [0..<length ls])"
  using resolve_all_log [of fp ls ms] by (simp add: warnings_at_def [abs_def] unmatched_by_def)

end
