(* ===== verification/SocketLock.thy ===== *)
theory SocketLock
  imports GoPath GoErr GoTime "HOL-Library.List_Lexorder" "HOL-Library.Char_ord"
begin

text \<open>
  \<open>internal/proxy/socketlock.go\<close> and \<open>socketlock_unix.go\<close>: the advisory locks a server
  takes for its group sockets before it touches any of them.

  The kernel's part is the state \<open>lock_os\<close>: open descriptors, and which descriptor holds the
  exclusive \<open>flock\<close> of a lock file. Which system calls fail otherwise is the parameter
  \<open>lock_env\<close>.
\<close>

section \<open>The kernel\<close>

record lock_os =
  os_held :: "string \<Rightarrow> nat option"
  os_open :: "nat set"
  os_next :: nat

text \<open>\<open>le_wrap\<close> is the case that \<open>os.NewFile\<close> returns nil.\<close>

record lock_env =
  le_mkdir :: "string \<Rightarrow> goerr option"
  le_open :: "string \<Rightarrow> goerr option"
  le_wrap :: "string \<Rightarrow> bool"
  le_stat :: "string \<Rightarrow> goerr option"
  le_regular :: "string \<Rightarrow> bool"
  le_chmod :: "string \<Rightarrow> goerr option"
  le_flock :: "string \<Rightarrow> goerr option"
  le_unlock :: "string \<Rightarrow> goerr option"
  le_close :: "string \<Rightarrow> goerr option"

text \<open>Closing a descriptor releases its locks, and frees it also when it reports an error.\<close>

definition close_fd :: "nat \<Rightarrow> lock_os \<Rightarrow> lock_os" where
  "close_fd fd os = os\<lparr>os_open := os_open os - {fd},
     os_held := (\<lambda>p. if os_held os p = Some fd then None else os_held os p)\<rparr>"

definition open_fd :: "lock_os \<Rightarrow> nat \<times> lock_os" where
  "open_fd os = (os_next os, os\<lparr>os_open := insert (os_next os) (os_open os), os_next := Suc (os_next os)\<rparr>)"

text \<open>\<open>flock(fd, LOCK_EX|LOCK_NB)\<close>: refused while another descriptor holds the lock.\<close>

definition flock_ex :: "lock_env \<Rightarrow> nat \<Rightarrow> string \<Rightarrow> lock_os \<Rightarrow> goerr option \<times> lock_os" where
  "flock_ex env fd path os =
     (case le_flock env path of
        Some e \<Rightarrow> (Some e, os)
      | None \<Rightarrow> if os_held os path \<noteq> None then (Some (ErrSentinel SysEWOULDBLOCK), os)
                else (None, os\<lparr>os_held := (os_held os)(path \<mapsto> fd)\<rparr>))"

definition flock_un :: "nat \<Rightarrow> string \<Rightarrow> lock_os \<Rightarrow> lock_os" where
  "flock_un fd path os =
     (if os_held os path = Some fd then os\<lparr>os_held := (os_held os)(path := None)\<rparr> else os)"

section \<open>One lock\<close>

record file_socket_lock =
  fl_file :: nat
  fl_path :: string

definition closeOnError :: "lock_env \<Rightarrow> nat \<Rightarrow> string \<Rightarrow> goerr \<Rightarrow> lock_os \<Rightarrow> goerr \<times> lock_os" where
  "closeOnError env fd lockPath operationErr os =
     (case le_close env lockPath of
        Some e \<Rightarrow> (ErrJoin [operationErr, ErrWrap (''closing lock file: '' @ err_text e) [e]], close_fd fd os)
      | None \<Rightarrow> (operationErr, close_fd fd os))"

definition acquireSocketLock ::
  "lock_env \<Rightarrow> string \<Rightarrow> lock_os \<Rightarrow> (goerr + file_socket_lock) \<times> lock_os" where
  "acquireSocketLock env socketPath os =
     (case le_mkdir env (Dir socketPath) of
        Some e \<Rightarrow> (Inl (ErrWrap (''creating socket directory: '' @ err_text e) [e]), os)
      | None \<Rightarrow>
     (let lockPath = socketPath @ ''.lock'' in
      case le_open env lockPath of
        Some e \<Rightarrow> (Inl (ErrWrap (''opening lock file: '' @ err_text e) [e]), os)
      | None \<Rightarrow>
     (let (fd, os) = open_fd os in
      if le_wrap env lockPath then
        (case le_close env lockPath of
           Some e \<Rightarrow> (Inl (ErrJoin [ErrText ''wrapping lock file'',
                       ErrWrap (''closing lock descriptor: '' @ err_text e) [e]]), close_fd fd os)
         | None \<Rightarrow> (Inl (ErrText ''wrapping lock file''), close_fd fd os))
      else
      case le_stat env lockPath of
        Some e \<Rightarrow> (let (err, os) = closeOnError env fd lockPath
                      (ErrWrap (''inspecting lock file: '' @ err_text e) [e]) os in (Inl err, os))
      | None \<Rightarrow>
      if \<not> le_regular env lockPath then
        (let (err, os) = closeOnError env fd lockPath (ErrText ''lock path is not a regular file'') os
         in (Inl err, os))
      else
      case le_chmod env lockPath of
        Some e \<Rightarrow> (let (err, os) = closeOnError env fd lockPath
                      (ErrWrap (''restricting lock file: '' @ err_text e) [e]) os in (Inl err, os))
      | None \<Rightarrow>
     (case flock_ex env fd lockPath os of
        (Some e, os) \<Rightarrow>
          if errors_Is e SysEWOULDBLOCK \<or> errors_Is e SysEAGAIN
          then (let (err, os) = closeOnError env fd lockPath
                  (ErrWrap ''socket is already in use'' [ErrSentinel ErrSocketInUse]) os in (Inl err, os))
          else (let (err, os) = closeOnError env fd lockPath
                  (ErrWrap (''locking file: '' @ err_text e) [e]) os in (Inl err, os))
      | (None, os) \<Rightarrow> (Inr \<lparr>fl_file = fd, fl_path = lockPath\<rparr>, os)))))"

definition lock_Close :: "lock_env \<Rightarrow> file_socket_lock \<Rightarrow> lock_os \<Rightarrow> goerr option \<times> lock_os" where
  "lock_Close env l os =
     (let os = (case le_unlock env (fl_path l) of None \<Rightarrow> flock_un (fl_file l) (fl_path l) os | Some _ \<Rightarrow> os);
          closeErr = map_option (\<lambda>e. ErrJoin [ErrWrap (''unlocking file: '' @ err_text e) [e]])
                       (le_unlock env (fl_path l))
      in (case le_close env (fl_path l) of
            None \<Rightarrow> (closeErr, close_fd (fl_file l) os)
          | Some e \<Rightarrow> (errors_Join [closeErr, Some (ErrWrap (''closing lock file: '' @ err_text e) [e])],
                       close_fd (fl_file l) os)))"

section \<open>All locks of a server\<close>

text \<open>\<open>closeSocketLocks\<close> runs from the last index down: over the reversed list.\<close>

fun close_locks_loop ::
  "lock_env \<Rightarrow> file_socket_lock list \<Rightarrow> goerr option \<Rightarrow> lock_os \<Rightarrow> goerr option \<times> lock_os" where
  "close_locks_loop env [] closeErr os = (closeErr, os)"
| "close_locks_loop env (l # ls) closeErr os =
     (case lock_Close env l os of
        (None, os) \<Rightarrow> close_locks_loop env ls closeErr os
      | (Some e, os) \<Rightarrow> close_locks_loop env ls (errors_Join [closeErr, Some e]) os)"

definition closeSocketLocks ::
  "lock_env \<Rightarrow> file_socket_lock list \<Rightarrow> lock_os \<Rightarrow> goerr option \<times> lock_os" where
  "closeSocketLocks env locks os = close_locks_loop env (rev locks) None os"

fun join_err :: "goerr \<Rightarrow> goerr option \<Rightarrow> goerr" where
  "join_err e None = ErrJoin [e]"
| "join_err e (Some e') = ErrJoin [e, e']"

fun acquire_loop ::
  "lock_env \<Rightarrow> string option \<Rightarrow> string list \<Rightarrow> file_socket_lock list \<Rightarrow> lock_os \<Rightarrow>
   (goerr + file_socket_lock list) \<times> lock_os" where
  "acquire_loop env prev [] locks os = (Inr locks, os)"
| "acquire_loop env prev (path # ordered) locks os =
     (if prev = Some path then
        (let (closeErr, os) = closeSocketLocks env locks os
         in (Inl (join_err (ErrText (''duplicate group socket path '' @ path)) closeErr), os))
      else case acquireSocketLock env path os of
        (Inl err, os) \<Rightarrow>
          (let (closeErr, os) = closeSocketLocks env locks os
           in (Inl (join_err (ErrWrap (''locking socket: '' @ err_text err) [err]) closeErr), os))
      | (Inr lock, os) \<Rightarrow> acquire_loop env (Some path) ordered (locks @ [lock]) os)"

definition acquireSocketLocks ::
  "lock_env \<Rightarrow> string list \<Rightarrow> lock_os \<Rightarrow> (goerr + file_socket_lock list) \<times> lock_os" where
  "acquireSocketLocks env paths os = acquire_loop env None (sort (map Clean paths)) [] os"

section \<open>Effects on the kernel\<close>

text \<open>Descriptors are fresh, and a lock is held by an open descriptor.\<close>

definition os_ok :: "lock_os \<Rightarrow> bool" where
  "os_ok os \<longleftrightarrow> (\<forall>fd \<in> os_open os. fd < os_next os) \<and>
     (\<forall>p fd. os_held os p = Some fd \<longrightarrow> fd \<in> os_open os)"

text \<open>\<open>same_locks\<close>: nothing is locked or open that was not before, and the other way round.\<close>

definition same_locks :: "lock_os \<Rightarrow> lock_os \<Rightarrow> bool" where
  "same_locks os os' \<longleftrightarrow> os_held os' = os_held os \<and> os_open os' = os_open os"

lemma fresh_not_held: "os_ok os \<Longrightarrow> os_held os p \<noteq> Some (os_next os)"
  by (auto simp: os_ok_def)

lemma fresh_not_open: "os_ok os \<Longrightarrow> os_next os \<notin> os_open os"
  by (auto simp: os_ok_def)

lemma close_fresh:
  "os_ok os \<Longrightarrow> same_locks os (close_fd (os_next os) (snd (open_fd os))) \<and>
     os_ok (close_fd (os_next os) (snd (open_fd os)))"
  using fresh_not_held [of os] fresh_not_open [of os]
  by (auto simp: same_locks_def close_fd_def open_fd_def os_ok_def less_Suc_eq)

lemma acquire_failed:
  assumes "acquireSocketLock env path os = (Inl err, os')" "os_ok os"
  shows "same_locks os os' \<and> os_ok os'"
  using assms close_fresh [OF assms(2)]
  by (auto simp: acquireSocketLock_def closeOnError_def flock_ex_def Let_def open_fd_def same_locks_def
      split: option.splits if_splits prod.splits)

lemma acquire_ok:
  assumes "acquireSocketLock env path os = (Inr l, os')" "os_ok os"
  shows "fl_path l = path @ ''.lock'' \<and> fl_file l = os_next os \<and> os_held os (fl_path l) = None \<and>
    os_held os' = (os_held os)(fl_path l \<mapsto> fl_file l) \<and> os_open os' = insert (fl_file l) (os_open os) \<and>
    fl_file l \<notin> os_open os \<and> os_ok os'"
  using assms fresh_not_open [OF assms(2)]
  by (auto simp: acquireSocketLock_def closeOnError_def flock_ex_def Let_def open_fd_def os_ok_def
      less_Suc_eq split: option.splits if_splits prod.splits)

lemma lock_Close_effect:
  "lock_Close env l os = (err, os') \<Longrightarrow> os' = close_fd (fl_file l) os"
  by (auto simp: lock_Close_def Let_def flock_un_def close_fd_def fun_eq_iff
      split: option.splits if_splits)

lemma close_fd_ok: "os_ok os \<Longrightarrow> os_ok (close_fd fd os)"
  by (auto simp: os_ok_def close_fd_def split: if_splits)

text \<open>Releasing a set of descriptors, of which \<open>close_fd\<close> is the case of one.\<close>

definition release :: "nat set \<Rightarrow> lock_os \<Rightarrow> lock_os" where
  "release fds os = os\<lparr>os_open := os_open os - fds,
     os_held := (\<lambda>p. if os_held os p \<in> Some ` fds then None else os_held os p)\<rparr>"

lemma release_empty [simp]: "release {} os = os"
  by (simp add: release_def)

lemma release_close: "release fds (close_fd fd os) = release (insert fd fds) os"
proof -
  have "os_open os - {fd} - fds = os_open os - insert fd fds" by blast
  then show ?thesis by (simp add: release_def close_fd_def fun_eq_iff)
qed

lemma close_locks_loop_effect:
  "snd (close_locks_loop env ls err os) = release (fl_file ` set ls) os"
proof (induction ls arbitrary: err os)
  case (Cons l ls)
  obtain e os1 where c: "lock_Close env l os = (e, os1)" by fastforce
  from lock_Close_effect [OF c] c Cons.IH show ?case by (cases e) (simp_all add: release_close)
qed simp

lemma closeSocketLocks_effect:
  "snd (closeSocketLocks env locks os) = release (fl_file ` set locks) os"
  by (simp add: closeSocketLocks_def close_locks_loop_effect)

text \<open>\<open>holds\<close>: from \<open>os0\<close>, exactly the locks \<open>ls\<close> were added.\<close>

definition holds :: "lock_os \<Rightarrow> file_socket_lock list \<Rightarrow> lock_os \<Rightarrow> bool" where
  "holds os0 ls os \<longleftrightarrow> os_ok os \<and> distinct (map fl_path ls) \<and>
     os_open os = os_open os0 \<union> fl_file ` set ls \<and> os_open os0 \<inter> fl_file ` set ls = {} \<and>
     (\<forall>l \<in> set ls. os_held os0 (fl_path l) = None \<and> os_held os (fl_path l) = Some (fl_file l)) \<and>
     (\<forall>p. p \<notin> fl_path ` set ls \<longrightarrow> os_held os p = os_held os0 p)"

lemma holds_nil: "os_ok os \<Longrightarrow> holds os [] os"
  by (simp add: holds_def)

lemma holds_failed: "holds os0 ls os \<Longrightarrow> same_locks os os' \<Longrightarrow> os_ok os' \<Longrightarrow> holds os0 ls os'"
  by (simp add: holds_def same_locks_def)

lemma holds_acquired:
  assumes "holds os0 ls os" "acquireSocketLock env path os = (Inr l, os')"
  shows "holds os0 (ls @ [l]) os'"
proof -
  from assms(1) have ok: "os_ok os" by (simp add: holds_def)
  note a = acquire_ok [OF assms(2) ok]
  from a assms(1) have new: "fl_path l \<notin> fl_path ` set ls" by (force simp: holds_def)
  with assms(1) have "os_held os0 (fl_path l) = None" using a by (auto simp: holds_def)
  with a new assms(1) show ?thesis by (auto simp: holds_def)
qed

lemma holds_released:
  assumes "holds os0 ls os" "os_ok os0"
  shows "same_locks os0 (snd (closeSocketLocks env ls os))"
proof -
  have "(if os_held os p \<in> Some ` fl_file ` set ls then None else os_held os p) = os_held os0 p" for p
  proof (cases "p \<in> fl_path ` set ls")
    case True
    with assms(1) show ?thesis by (auto simp: holds_def)
  next
    case False
    then have eq: "os_held os p = os_held os0 p" using assms(1) by (simp add: holds_def)
    have "os_held os0 p \<notin> Some ` fl_file ` set ls"
    proof
      assume "os_held os0 p \<in> Some ` fl_file ` set ls"
      then obtain fd where fd: "os_held os0 p = Some fd" "fd \<in> fl_file ` set ls" by auto
      with assms(2) have "fd \<in> os_open os0" by (auto simp: os_ok_def)
      with fd(2) assms(1) show False unfolding holds_def by blast
    qed
    then show ?thesis by (simp add: eq)
  qed
  moreover have "os_open os - fl_file ` set ls = os_open os0" using assms(1) by (auto simp: holds_def)
  ultimately show ?thesis by (simp add: same_locks_def closeSocketLocks_effect release_def)
qed

lemma acquire_loop_spec:
  assumes "holds os0 ls os" "os_ok os0" "acquire_loop env prev ps ls os = (res, os')"
  shows "case res of
      Inl e \<Rightarrow> same_locks os0 os'
    | Inr ls' \<Rightarrow> holds os0 ls' os' \<and> map fl_path ls' = map fl_path ls @ map (\<lambda>p. p @ ''.lock'') ps"
  using assms
proof (induction ps arbitrary: prev ls os)
  case Nil
  then show ?case by auto
next
  case (Cons p ps)
  show ?case
  proof (cases "prev = Some p")
    case True
    with Cons.prems(3) have "\<exists>e. res = Inl e" "os' = snd (closeSocketLocks env ls os)"
      by (auto simp: split_beta Let_def)
    with holds_released [OF Cons.prems(1,2)] show ?thesis by auto
  next
    case False
    obtain r os1 where a: "acquireSocketLock env p os = (r, os1)" by fastforce
    have ok: "os_ok os" using Cons.prems(1) by (simp add: holds_def)
    show ?thesis
    proof (cases r)
      case (Inl err)
      with a acquire_failed ok have "holds os0 ls os1" using holds_failed [OF Cons.prems(1)] by blast
      moreover from Inl a False Cons.prems(3) have "\<exists>e. res = Inl e" "os' = snd (closeSocketLocks env ls os1)"
        by (auto simp: split_beta Let_def)
      ultimately show ?thesis using holds_released [OF _ Cons.prems(2)] by auto
    next
      case (Inr l)
      note a = a [unfolded Inr]
      from a False Cons.prems(3) have "acquire_loop env (Some p) ps (ls @ [l]) os1 = (res, os')" by simp
      from Cons.IH [OF holds_acquired [OF Cons.prems(1) a] Cons.prems(2) this] acquire_ok [OF a ok]
      show ?thesis by (auto split: sum.splits)
    qed
  qed
qed

lemma acquireSocketLocks_spec:
  assumes "os_ok os" "acquireSocketLocks env paths os = (res, os')"
  shows "case res of
      Inl e \<Rightarrow> same_locks os os'
    | Inr locks \<Rightarrow> holds os locks os' \<and> map fl_path locks = map (\<lambda>p. p @ ''.lock'') (sort (map Clean paths))"
  using acquire_loop_spec [OF holds_nil [OF assms(1)] assms(1) assms(2) [unfolded acquireSocketLocks_def]]
  by (simp split: sum.splits)

definition healthy :: lock_env where
  "healthy = \<lparr>le_mkdir = (\<lambda>_. None), le_open = (\<lambda>_. None), le_wrap = (\<lambda>_. False),
     le_stat = (\<lambda>_. None), le_regular = (\<lambda>_. True), le_chmod = (\<lambda>_. None), le_flock = (\<lambda>_. None),
     le_unlock = (\<lambda>_. None), le_close = (\<lambda>_. None)\<rparr>"

definition no_locks :: lock_os where
  "no_locks = \<lparr>os_held = (\<lambda>_. None), os_open = {}, os_next = 3\<rparr>"

lemma no_locks_ok: "os_ok no_locks"
  by (simp add: no_locks_def os_ok_def)

section \<open>Properties\<close>

text \<open>
  Property C25. Acquiring the locks of a server is all or nothing: on any failure no lock is
  kept and no descriptor leaks; on success exactly the lock of each cleaned socket path is
  held, in sorted order and each once, no other lock changed, and releasing them restores
  the state before.
\<close>

theorem locks_all_or_nothing:
  assumes "os_ok os" "acquireSocketLocks env paths os = (res, os')"
  shows "case res of
      Inl e \<Rightarrow> os_held os' = os_held os \<and> os_open os' = os_open os
    | Inr locks \<Rightarrow> map fl_path locks = map (\<lambda>p. p @ ''.lock'') (sort (map Clean paths)) \<and>
        distinct (map Clean paths) \<and>
        (\<forall>l \<in> set locks. os_held os' (fl_path l) = Some (fl_file l) \<and> os_held os (fl_path l) = None) \<and>
        (\<forall>p. p \<notin> fl_path ` set locks \<longrightarrow> os_held os' p = os_held os p) \<and>
        os_held (snd (closeSocketLocks env' locks os')) = os_held os \<and>
        os_open (snd (closeSocketLocks env' locks os')) = os_open os"
proof (cases res)
  case (Inl e)
  with acquireSocketLocks_spec [OF assms] show ?thesis by (simp add: same_locks_def)
next
  case (Inr locks)
  with acquireSocketLocks_spec [OF assms] have h: "holds os locks os'"
    and m: "map fl_path locks = map (\<lambda>p. p @ ''.lock'') (sort (map Clean paths))" by simp_all
  from h have "distinct (map fl_path locks)" by (simp add: holds_def)
  then have "distinct (sort (map Clean paths))" unfolding m by (simp add: distinct_map)
  then have "distinct (map Clean paths)" by simp
  with m h holds_released [OF h assms(1), of env'] show ?thesis
    unfolding Inr by (simp add: holds_def same_locks_def)
qed

lemma sample_locks:
  "fst (acquireSocketLocks healthy [''/b/x'', ''/a//y''] no_locks) =
     Inr [\<lparr>fl_file = 3, fl_path = ''/a/y.lock''\<rparr>, \<lparr>fl_file = 4, fl_path = ''/b/x.lock''\<rparr>]"
  by code_simp

theorem locks_all_or_nothing_witness:
  "\<exists>locks os'. acquireSocketLocks healthy [''/b/x'', ''/a//y''] no_locks = (Inr locks, os') \<and>
     os_held os' ''/a/y.lock'' = Some 3 \<and> os_open (snd (closeSocketLocks healthy locks os')) = {}"
proof -
  obtain os' where a: "acquireSocketLocks healthy [''/b/x'', ''/a//y''] no_locks =
    (Inr [\<lparr>fl_file = 3, fl_path = ''/a/y.lock''\<rparr>, \<lparr>fl_file = 4, fl_path = ''/b/x.lock''\<rparr>], os')"
    using sample_locks by (metis prod.collapse)
  from locks_all_or_nothing [OF no_locks_ok a, of healthy] a show ?thesis
    by (intro exI conjI) (auto simp: no_locks_def)
qed

text \<open>
  Property C26. Two servers never both own a socket: while one holds the locks of its
  sockets, acquiring the locks of a set with a socket in common (after cleaning the paths)
  fails whatever its order, and leaves the first server's locks held.
\<close>

theorem locks_exclude_second_server:
  assumes "os_ok os" "acquireSocketLocks env paths os = (Inr locks, os1)"
    and "Clean ` set paths \<inter> Clean ` set paths' \<noteq> {}"
    and "acquireSocketLocks env' paths' os1 = (res, os2)"
  shows "(\<exists>e. res = Inl e) \<and> (\<forall>l \<in> set locks. os_held os2 (fl_path l) = Some (fl_file l))"
proof -
  from acquireSocketLocks_spec [OF assms(1,2)] have h: "holds os locks os1"
    and m: "map fl_path locks = map (\<lambda>p. p @ ''.lock'') (sort (map Clean paths))" by simp_all
  have ok1: "os_ok os1" using h by (simp add: holds_def)
  note second = acquireSocketLocks_spec [OF ok1 assms(4)]
  show ?thesis
  proof (cases res)
    case (Inl e)
    with second h show ?thesis by (simp add: holds_def same_locks_def)
  next
    case (Inr locks')
    with second have h': "holds os1 locks' os2"
      and m': "map fl_path locks' = map (\<lambda>p. p @ ''.lock'') (sort (map Clean paths'))" by simp_all
    from assms(3) obtain p where p: "p \<in> Clean ` set paths" "p \<in> Clean ` set paths'" by blast
    have "fl_path ` set locks = (\<lambda>p. p @ ''.lock'') ` Clean ` set paths"
      using arg_cong [OF m, of set] by simp
    with p(1) have "p @ ''.lock'' \<in> fl_path ` set locks" by (simp only: image_eqI)
    then obtain l where l: "p @ ''.lock'' = fl_path l" "l \<in> set locks" by (rule imageE)
    have "fl_path ` set locks' = (\<lambda>p. p @ ''.lock'') ` Clean ` set paths'"
      using arg_cong [OF m', of set] by simp
    with p(2) have "p @ ''.lock'' \<in> fl_path ` set locks'" by (simp only: image_eqI)
    then obtain l' where "p @ ''.lock'' = fl_path l'" "l' \<in> set locks'" by (rule imageE)
    with h' have "os_held os1 (p @ ''.lock'') = None" by (simp add: holds_def)
    moreover from l h have "os_held os1 (p @ ''.lock'') = Some (fl_file l)" by (simp add: holds_def)
    ultimately show ?thesis by simp
  qed
qed

theorem locks_exclude_second_server_witness:
  "\<exists>locks os1 e os2. acquireSocketLocks healthy [''/b/x'', ''/a//y''] no_locks = (Inr locks, os1) \<and>
     acquireSocketLocks healthy [''/a/y/''] os1 = (Inl e, os2) \<and>
     os_held os2 ''/a/y.lock'' = Some 3"
proof -
  obtain os1 where a: "acquireSocketLocks healthy [''/b/x'', ''/a//y''] no_locks =
    (Inr [\<lparr>fl_file = 3, fl_path = ''/a/y.lock''\<rparr>, \<lparr>fl_file = 4, fl_path = ''/b/x.lock''\<rparr>], os1)"
    using sample_locks by (metis prod.collapse)
  obtain res os2 where b: "acquireSocketLocks healthy [''/a/y/''] os1 = (res, os2)" by fastforce
  have "Clean ''/a//y'' = Clean ''/a/y/''" by code_simp
  then have "Clean ` set [''/b/x'', ''/a//y''] \<inter> Clean ` set [''/a/y/''] \<noteq> {}" by simp
  from locks_exclude_second_server [OF no_locks_ok a this b] a b show ?thesis by auto
qed

end
