(* ===== verification/SocketFiles.thy ===== *)
theory SocketFiles
  imports GoPath GoErr
begin

text \<open>
  The socket files of \<open>internal/proxy/server.go\<close> (\<open>listenUnix\<close>, \<open>removeStaleSocket\<close>) and
  \<open>listener.go\<close> (\<open>ownedUnixListener.Close\<close>): a server binds its path, removes a socket
  there only when nobody serves it, and on close removes the path only while it is its own.

  The file system is shared with other processes. The parameter \<open>fs_env\<close> says what they do
  to it before the n-th system call, which calls fail for reasons of their own, and when the
  context of the server or of the probe ends.
\<close>

section \<open>The file system\<close>

text \<open>\<open>en_live\<close>: a process accepts connections on the socket. An inode identifies a file, which
  is what \<open>os.SameFile\<close> compares.\<close>

record dir_entry =
  en_socket :: bool
  en_inode :: nat
  en_live :: bool
  en_mode :: nat

record fs =
  fs_files :: "string \<Rightarrow> dir_entry option"
  fs_next :: nat
  fs_closed :: "nat set"

record fs_env =
  fe_other :: "nat \<Rightarrow> fs \<Rightarrow> fs"
  fe_err :: "nat \<Rightarrow> goerr option"
  fe_ctx :: "nat \<Rightarrow> goerr option"
  fe_probe :: "nat \<Rightarrow> goerr option"

record fs_world =
  fw_fs :: fs
  fw_tick :: nat

text \<open>One system call begins: others act, the call may fail.\<close>

definition sys :: "fs_env \<Rightarrow> fs_world \<Rightarrow> goerr option \<times> fs_world" where
  "sys env w = (fe_err env (fw_tick w),
     w\<lparr>fw_fs := fe_other env (fw_tick w) (fw_fs w), fw_tick := Suc (fw_tick w)\<rparr>)"

definition file_at :: "string \<Rightarrow> fs_world \<Rightarrow> dir_entry option" where
  "file_at path w = fs_files (fw_fs w) path"

definition set_file :: "string \<Rightarrow> dir_entry option \<Rightarrow> fs_world \<Rightarrow> fs_world" where
  "set_file path e w = w\<lparr>fw_fs := (fw_fs w)\<lparr>fs_files := (fs_files (fw_fs w))(path := e)\<rparr>\<rparr>"

definition os_MkdirAll :: "fs_env \<Rightarrow> string \<Rightarrow> fs_world \<Rightarrow> goerr option \<times> fs_world" where
  "os_MkdirAll env dir w = sys env w"

definition os_Lstat :: "fs_env \<Rightarrow> string \<Rightarrow> fs_world \<Rightarrow> (goerr + dir_entry) \<times> fs_world" where
  "os_Lstat env path w =
     (case sys env w of
        (Some e, w) \<Rightarrow> (Inl e, w)
      | (None, w) \<Rightarrow> (case file_at path w of None \<Rightarrow> (Inl (ErrSentinel OsErrNotExist), w)
                     | Some e \<Rightarrow> (Inr e, w)))"

definition os_Remove :: "fs_env \<Rightarrow> string \<Rightarrow> fs_world \<Rightarrow> goerr option \<times> fs_world" where
  "os_Remove env path w =
     (case sys env w of
        (Some e, w) \<Rightarrow> (Some e, w)
      | (None, w) \<Rightarrow> (case file_at path w of None \<Rightarrow> (Some (ErrSentinel OsErrNotExist), w)
                     | Some _ \<Rightarrow> (None, set_file path None w)))"

text \<open>Connecting to a path: refused when nobody listens, also on a file of another kind.\<close>

definition dial_unix :: "fs_env \<Rightarrow> string \<Rightarrow> fs_world \<Rightarrow> goerr option \<times> fs_world" where
  "dial_unix env path w =
     (case sys env w of
        (Some e, w) \<Rightarrow> (Some e, w)
      | (None, w) \<Rightarrow>
          (case file_at path w of
             None \<Rightarrow> (Some (ErrSentinel OsErrNotExist), w)
           | Some e \<Rightarrow> if en_live e then (None, w) else (Some (ErrSentinel SysECONNREFUSED), w)))"

definition listen_unix :: "fs_env \<Rightarrow> string \<Rightarrow> fs_world \<Rightarrow> (goerr + nat) \<times> fs_world" where
  "listen_unix env path w =
     (case sys env w of
        (Some e, w) \<Rightarrow> (Inl e, w)
      | (None, w) \<Rightarrow>
          (case file_at path w of
             Some _ \<Rightarrow> (Inl (ErrText ''address already in use''), w)
           | None \<Rightarrow>
               (let ino = fs_next (fw_fs w);
                    w = w\<lparr>fw_fs := (fw_fs w)\<lparr>fs_next := Suc ino\<rparr>\<rparr>
                in (Inr ino, set_file path
                     (Some \<lparr>en_socket = True, en_inode = ino, en_live = True, en_mode = 493\<rparr>) w))))"

definition os_Chmod :: "fs_env \<Rightarrow> string \<Rightarrow> nat \<Rightarrow> fs_world \<Rightarrow> goerr option \<times> fs_world" where
  "os_Chmod env path mode w =
     (case sys env w of
        (Some e, w) \<Rightarrow> (Some e, w)
      | (None, w) \<Rightarrow> (case file_at path w of None \<Rightarrow> (Some (ErrSentinel OsErrNotExist), w)
                     | Some e \<Rightarrow> (None, set_file path (Some (e\<lparr>en_mode := mode\<rparr>)) w)))"

text \<open>\<open>UnixListener.Close\<close> with unlink-on-close off: the socket stops being served.\<close>

definition unix_listener_Close :: "fs_env \<Rightarrow> nat \<Rightarrow> fs_world \<Rightarrow> goerr option \<times> fs_world" where
  "unix_listener_Close env ino w =
     (case sys env w of
        (Some e, w) \<Rightarrow> (Some e, w)
      | (None, w) \<Rightarrow>
          if ino \<in> fs_closed (fw_fs w) then (Some (ErrSentinel NetErrClosed), w)
          else (None, w\<lparr>fw_fs := (fw_fs w)
                  \<lparr>fs_closed := insert ino (fs_closed (fw_fs w)),
                   fs_files := (\<lambda>p. map_option (\<lambda>e. if en_inode e = ino then e\<lparr>en_live := False\<rparr> else e)
                                     (fs_files (fw_fs w) p))\<rparr>\<rparr>))"

section \<open>The program\<close>

text \<open>
  Error texts keep their fixed words; what \<open>%q\<close> would print of a path is left out. The type
  assertion to \<open>*net.UnixListener\<close> holds for the network \<open>unix\<close>, so its failure branch is
  not modelled.
\<close>

definition wrap :: "string \<Rightarrow> goerr \<Rightarrow> goerr" where
  "wrap msg e = ErrWrap (msg @ '': '' @ err_text e) [e]"

definition in_use :: "string \<Rightarrow> goerr" where
  "in_use msg = ErrWrap (''socket is already in use: '' @ msg) [ErrSentinel ErrSocketInUse]"

definition removeStaleSocket ::
  "fs_env \<Rightarrow> string \<Rightarrow> dir_entry \<Rightarrow> fs_world \<Rightarrow> goerr option \<times> fs_world" where
  "removeStaleSocket env path original w =
     (case fe_ctx env (fw_tick w) of
        Some e \<Rightarrow> (Some (wrap ''probing existing socket'' e), w)
      | None \<Rightarrow>
     (case dial_unix env path w of
        (None, w) \<Rightarrow>
          (let inUseErr = in_use ''accepted a connection''; (closeErr, w) = sys env w
           in case closeErr of
                Some e \<Rightarrow> if \<not> errors_Is e NetErrClosed
                    then (Some (ErrJoin [inUseErr, wrap ''closing socket probe connection'' e]), w)
                    else (Some inUseErr, w)
              | None \<Rightarrow> (Some inUseErr, w))
      | (Some err, w) \<Rightarrow>
     (case fe_ctx env (fw_tick w) of
        Some e \<Rightarrow> (Some (wrap ''probing existing socket'' e), w)
      | None \<Rightarrow>
     (case fe_probe env (fw_tick w) of
        Some e \<Rightarrow> (Some (ErrJoin [in_use ''probe was inconclusive'', wrap ''socket probe'' e]), w)
      | None \<Rightarrow>
      if \<not> errors_Is err SysECONNREFUSED \<and> \<not> errors_Is err OsErrNotExist
      then (Some (ErrJoin [in_use ''probe failed without proving staleness'', wrap ''socket probe'' err]), w)
      else
     (case os_Lstat env path w of
        (Inl e, w) \<Rightarrow> if os_IsNotExist e then (None, w) else (Some (wrap ''rechecking stale socket'' e), w)
      | (Inr current, w) \<Rightarrow>
          if en_inode original \<noteq> en_inode current
          then (Some (in_use ''socket changed while it was being probed''), w)
          else (case os_Remove env path w of
                  (Some e, w) \<Rightarrow> if \<not> os_IsNotExist e then (Some (wrap ''removing stale socket'' e), w)
                                 else (None, w)
                | (None, w) \<Rightarrow> (None, w)))))))"

record owned_listener =
  ow_inode :: nat
  ow_path :: string
  ow_identity :: dir_entry

definition owned_Close :: "fs_env \<Rightarrow> owned_listener \<Rightarrow> fs_world \<Rightarrow> goerr option \<times> fs_world" where
  "owned_Close env l w =
     (case unix_listener_Close env (ow_inode l) w of
        (Some e, w) \<Rightarrow> if errors_Is e NetErrClosed then (Some e, w)
                       else (Some (wrap ''closing Unix listener'' e), w)
      | (None, w) \<Rightarrow>
     (case os_Lstat env (ow_path l) w of
        (Inl e, w) \<Rightarrow> if os_IsNotExist e then (None, w)
                       else (Some (wrap ''inspecting listener path during cleanup'' e), w)
      | (Inr current, w) \<Rightarrow>
          if en_inode (ow_identity l) \<noteq> en_inode current then (None, w)
          else (case os_Remove env (ow_path l) w of
                  (Some e, w) \<Rightarrow> if \<not> os_IsNotExist e
                      then (Some (wrap ''removing owned listener socket'' e), w) else (None, w)
                | (None, w) \<Rightarrow> (None, w))))"

definition bindUnix :: "fs_env \<Rightarrow> string \<Rightarrow> fs_world \<Rightarrow> (goerr + owned_listener) \<times> fs_world" where
  "bindUnix env path w =
     (case listen_unix env path w of
        (Inl e, w) \<Rightarrow> (Inl (wrap ''binding Unix socket'' e), w)
      | (Inr ino, w) \<Rightarrow>
     (case os_Lstat env path w of
        (Inl e, w) \<Rightarrow>
          (case unix_listener_Close env ino w of
             (Some ce, w) \<Rightarrow> if \<not> errors_Is ce NetErrClosed
                 then (Inl (ErrJoin [wrap ''inspecting newly bound socket'' e,
                        wrap ''closing listener after inspection failure'' ce]), w)
                 else (Inl (wrap ''inspecting newly bound socket'' e), w)
           | (None, w) \<Rightarrow> (Inl (wrap ''inspecting newly bound socket'' e), w))
      | (Inr identity, w) \<Rightarrow>
          (let owned = \<lparr>ow_inode = ino, ow_path = path, ow_identity = identity\<rparr>
           in case os_Chmod env path 384 w of
                (Some e, w) \<Rightarrow>
                  (case owned_Close env owned w of
                     (Some ce, w) \<Rightarrow> if \<not> errors_Is ce NetErrClosed
                         then (Inl (ErrJoin [e, wrap ''closing listener after chmod failure'' ce]), w)
                         else (Inl (wrap ''restricting socket permissions'' e), w)
                   | (None, w) \<Rightarrow> (Inl (wrap ''restricting socket permissions'' e), w))
              | (None, w) \<Rightarrow> (Inr owned, w))))"

definition listenUnix :: "fs_env \<Rightarrow> string \<Rightarrow> fs_world \<Rightarrow> (goerr + owned_listener) \<times> fs_world" where
  "listenUnix env path w =
     (case os_MkdirAll env (Dir path) w of
        (Some e, w) \<Rightarrow> (Inl (wrap ''creating socket directory'' e), w)
      | (None, w) \<Rightarrow>
     (case os_Lstat env path w of
        (Inr info, w) \<Rightarrow>
          if \<not> en_socket info then (Inl (ErrText ''socket path exists and is not a Unix socket''), w)
          else (case removeStaleSocket env path info w of
                  (Some e, w) \<Rightarrow> (Inl e, w)
                | (None, w) \<Rightarrow> bindUnix env path w)
      | (Inl e, w) \<Rightarrow>
          if \<not> os_IsNotExist e then (Inl (wrap ''inspecting socket path'' e), w)
          else bindUnix env path w))"

section \<open>Without other processes\<close>

text \<open>
  \<open>alone\<close>: between the system calls of this operation nobody else changes the file system,
  and \<open>ECONNREFUSED\<close> and \<open>ENOENT\<close> are reported only when they are true.
\<close>

definition alone :: "fs_env \<Rightarrow> bool" where
  "alone env \<longleftrightarrow> (\<forall>n f. fe_other env n f = f) \<and>
     (\<forall>n e. fe_err env n = Some e \<longrightarrow> \<not> errors_Is e SysECONNREFUSED \<and> \<not> errors_Is e OsErrNotExist)"

lemma sys_alone:
  "alone env \<Longrightarrow> sys env w = (err, w') \<Longrightarrow> fw_fs w' = fw_fs w \<and>
     (\<forall>e. err = Some e \<longrightarrow> \<not> errors_Is e SysECONNREFUSED \<and> \<not> errors_Is e OsErrNotExist)"
  by (auto simp: sys_def alone_def)

definition same_files :: "fs_world \<Rightarrow> fs_world \<Rightarrow> bool" where
  "same_files w w' \<longleftrightarrow> fw_fs w' = fw_fs w"

lemma Lstat_alone:
  "alone env \<Longrightarrow> os_Lstat env path w = (r, w') \<Longrightarrow> same_files w w' \<and>
     (\<forall>e. r = Inr e \<longrightarrow> file_at path w = Some e) \<and>
     (\<forall>e. r = Inl e \<longrightarrow> os_IsNotExist e \<longrightarrow> file_at path w = None)"
  by (auto simp: os_Lstat_def same_files_def file_at_def os_IsNotExist_def
      dest!: sys_alone split: prod.splits option.splits)

lemma dial_alone:
  "alone env \<Longrightarrow> dial_unix env path w = (r, w') \<Longrightarrow> same_files w w' \<and>
     (\<forall>e. r = Some e \<longrightarrow> errors_Is e SysECONNREFUSED \<or> errors_Is e OsErrNotExist \<longrightarrow>
        (case file_at path w of None \<Rightarrow> True | Some f \<Rightarrow> \<not> en_live f))"
  by (auto simp: dial_unix_def same_files_def file_at_def
      dest!: sys_alone split: prod.splits option.splits if_splits)

lemma Remove_alone:
  "alone env \<Longrightarrow> os_Remove env path w = (r, w') \<Longrightarrow>
     same_files w w' \<or> r = None \<and> fw_fs w' = fw_fs (set_file path None w)"
  by (auto simp: os_Remove_def same_files_def set_file_def dest!: sys_alone
      split: prod.splits option.splits)

lemma same_files_trans: "same_files w w' \<Longrightarrow> same_files w' w'' \<Longrightarrow> same_files w w''"
  by (simp add: same_files_def)

lemma same_files_at: "same_files w w' \<Longrightarrow> file_at path w' = file_at path w"
  by (simp add: same_files_def file_at_def)

text \<open>A stale socket is removed only when nobody serves it; otherwise nothing changes.\<close>

lemma removeStale_alone:
  assumes "alone env" "removeStaleSocket env path original w = (r, w')" "file_at path w = Some f"
  shows "same_files w w' \<or> \<not> en_live f \<and> fw_fs w' = fw_fs (set_file path None w)"
proof -
  obtain d w1 where d: "dial_unix env path w = (d, w1)" by fastforce
  note da = dial_alone [OF assms(1) d]
  obtain l w2 where l: "os_Lstat env path w1 = (l, w2)" by fastforce
  note la = Lstat_alone [OF assms(1) l]
  obtain m w3 where m: "os_Remove env path w2 = (m, w3)" by fastforce
  note ma = Remove_alone [OF assms(1) m]
  have s2: "same_files w w2" using da la same_files_trans by blast
  obtain c w4 where c: "sys env w1 = (c, w4)" by fastforce
  have s4: "same_files w w4" using da sys_alone [OF assms(1) c] by (simp add: same_files_def)
  show ?thesis
  proof (cases "w' = w3")
    case False
    with assms(2) d l m c have "w' = w \<or> w' = w1 \<or> w' = w2 \<or> w' = w4"
      by (auto simp: removeStaleSocket_def Let_def split: option.splits sum.splits if_splits)
    with da s2 s4 show ?thesis by (auto simp: same_files_def)
  next
    case True
    show ?thesis
    proof (cases "same_files w w'")
      case False
      with assms(2) d l m c s2 s4 da have "\<exists>e. d = Some e \<and> (errors_Is e SysECONNREFUSED \<or> errors_Is e OsErrNotExist)"
        by (auto simp: removeStaleSocket_def Let_def same_files_def split: option.splits sum.splits if_splits)
      with da assms(3) have "\<not> en_live f" by auto
      moreover from False True ma s2 have "fw_fs w' = fw_fs (set_file path None w)"
        by (auto simp: same_files_def set_file_def)
      ultimately show ?thesis by blast
    qed simp
  qed
qed

lemma bind_occupied:
  assumes "alone env" "file_at path w = Some f"
  shows "\<exists>e w'. bindUnix env path w = (Inl e, w') \<and> same_files w w'"
proof -
  obtain s w1 where s: "sys env w = (s, w1)" by fastforce
  with sys_alone [OF assms(1) s] assms(2) show ?thesis
    by (auto simp: bindUnix_def listen_unix_def same_files_def file_at_def split: option.splits)
qed

lemma listen_occupied:
  assumes a: "alone env" and f: "file_at path w = Some f" and owned: "\<not> en_socket f \<or> en_live f"
  shows "\<exists>e w'. listenUnix env path w = (Inl e, w') \<and> same_files w w'"
proof -
  obtain m w1 where m: "os_MkdirAll env (Dir path) w = (m, w1)" by fastforce
  have s1: "same_files w w1" using sys_alone [OF a m [unfolded os_MkdirAll_def]] by (simp add: same_files_def)
  obtain l w2 where l: "os_Lstat env path w1 = (l, w2)" by fastforce
  note la = Lstat_alone [OF a l]
  have s2: "same_files w w2" using s1 la same_files_trans by blast
  have f2: "file_at path w2 = Some f" using same_files_at [OF s2] f by simp
  obtain r w3 where r: "removeStaleSocket env path f w2 = (r, w3)" by fastforce
  show ?thesis
  proof (cases m)
    case (Some e)
    with m s1 show ?thesis by (simp add: listenUnix_def)
  next
    case None
    note m = m [unfolded None]
    show ?thesis
    proof (cases l)
      case (Inl e)
      with la f same_files_at [OF s1] have "\<not> os_IsNotExist e" by auto
      with m l Inl s2 show ?thesis by (simp add: listenUnix_def)
    next
      case (Inr info)
      with la f same_files_at [OF s1] have info: "info = f" by simp
      show ?thesis
      proof (cases "en_socket f")
        case False
        with m l Inr info s2 show ?thesis by (simp add: listenUnix_def)
      next
        case True
        with owned have "en_live f" by simp
        with removeStale_alone [OF a r f2] s2 have s3: "same_files w w3" using same_files_trans by blast
        have f3: "file_at path w3 = Some f" using same_files_at [OF s3] f by simp
        from bind_occupied [OF a f3] obtain e w4 where "bindUnix env path w3 = (Inl e, w4)" "same_files w3 w4"
          by blast
        with m l Inr info True r s3 same_files_trans [OF s3] show ?thesis
          by (cases r) (auto simp: listenUnix_def)
      qed
    qed
  qed
qed

lemma bind_success:
  assumes "alone env" "bindUnix env path w = (Inr l, w')"
  shows "file_at path w = None \<and> ow_inode l = fs_next (fw_fs w) \<and> ow_path l = path \<and>
    en_inode (ow_identity l) = ow_inode l \<and>
    file_at path w' = Some \<lparr>en_socket = True, en_inode = ow_inode l, en_live = True, en_mode = 384\<rparr> \<and>
    (\<forall>p. p \<noteq> path \<longrightarrow> file_at p w' = file_at p w)"
proof -
  obtain b w1 where b: "listen_unix env path w = (b, w1)" by fastforce
  from assms(2) b obtain ino where ino: "b = Inr ino" by (cases b) (auto simp: bindUnix_def)
  note b = b [unfolded ino]
  obtain s w0 where s: "sys env w = (s, w0)" by fastforce
  note sa = sys_alone [OF assms(1) s]
  from b s sa have bind: "file_at path w = None" "ino = fs_next (fw_fs w)"
    "file_at path w1 = Some \<lparr>en_socket = True, en_inode = ino, en_live = True, en_mode = 493\<rparr>"
    "\<forall>p. p \<noteq> path \<longrightarrow> file_at p w1 = file_at p w"
    by (auto simp: listen_unix_def file_at_def set_file_def Let_def split: option.splits)
  obtain i w2 where i: "os_Lstat env path w1 = (i, w2)" by fastforce
  note ia = Lstat_alone [OF assms(1) i]
  obtain c w3 where c: "os_Chmod env path 384 w2 = (c, w3)" by fastforce
  from assms(2) b i obtain identity where identity: "i = Inr identity"
    by (cases i) (auto simp: bindUnix_def split: prod.splits option.splits if_splits)
  with assms(2) b i c have "c = None" "l = \<lparr>ow_inode = ino, ow_path = path, ow_identity = identity\<rparr>" "w' = w3"
    by (auto simp: bindUnix_def Let_def split: option.splits prod.splits if_splits)
  moreover from ia identity have id: "file_at path w1 = Some identity" and same: "same_files w1 w2" by simp_all
  obtain s2 w4 where s2: "sys env w2 = (s2, w4)" by fastforce
  note sa2 = sys_alone [OF assms(1) s2]
  have f4: "file_at p w4 = file_at p w1" for p
    using sa2 same by (simp add: file_at_def same_files_def)
  from calculation(1) c s2 f4 [of path] id have "w3 = set_file path (Some (identity\<lparr>en_mode := 384\<rparr>)) w4"
    by (auto simp: os_Chmod_def split: option.splits)
  then have "file_at path w3 = Some (identity\<lparr>en_mode := 384\<rparr>)"
    "\<forall>p. p \<noteq> path \<longrightarrow> file_at p w3 = file_at p w1"
    using f4 by (auto simp: file_at_def set_file_def)
  moreover have "identity = \<lparr>en_socket = True, en_inode = ino, en_live = True, en_mode = 493\<rparr>"
    using id bind(3) by simp
  ultimately show ?thesis using bind by simp
qed

lemma listen_success:
  assumes "alone env" "listenUnix env path w = (Inr l, w')"
  shows "(\<forall>f. file_at path w = Some f \<longrightarrow> en_socket f \<and> \<not> en_live f) \<and>
    file_at path w' = Some \<lparr>en_socket = True, en_inode = ow_inode l, en_live = True, en_mode = 384\<rparr> \<and>
    en_inode (ow_identity l) = ow_inode l \<and> ow_path l = path \<and>
    (\<forall>p. p \<noteq> path \<longrightarrow> file_at p w' = file_at p w)"
proof -
  have free: "en_socket f \<and> \<not> en_live f" if "file_at path w = Some f" for f
    using listen_occupied [OF assms(1) that] assms(2) by auto
  obtain m w1 where m: "os_MkdirAll env (Dir path) w = (m, w1)" by fastforce
  have s1: "same_files w w1"
    using sys_alone [OF assms(1) m [unfolded os_MkdirAll_def]] by (simp add: same_files_def)
  obtain i w2 where i: "os_Lstat env path w1 = (i, w2)" by fastforce
  note ia = Lstat_alone [OF assms(1) i]
  have s2: "same_files w w2" using s1 ia same_files_trans by blast
  have "\<exists>w3. bindUnix env path w3 = (Inr l, w') \<and> (\<forall>p. p \<noteq> path \<longrightarrow> file_at p w3 = file_at p w)"
  proof (cases i)
    case (Inl e)
    with assms(2) m i have "bindUnix env path w2 = (Inr l, w')"
      by (auto simp: listenUnix_def split: option.splits if_splits)
    with same_files_at [OF s2] show ?thesis by blast
  next
    case (Inr info)
    obtain r w3 where r: "removeStaleSocket env path info w2 = (r, w3)" by fastforce
    from Inr ia have f: "file_at path w2 = Some info" using same_files_at by auto
    from removeStale_alone [OF assms(1) r f] same_files_at [OF s2]
    have "\<forall>p. p \<noteq> path \<longrightarrow> file_at p w3 = file_at p w"
      by (auto simp: same_files_def file_at_def set_file_def)
    moreover from assms(2) m i Inr r have "bindUnix env path w3 = (Inr l, w')"
      by (auto simp: listenUnix_def split: option.splits if_splits)
    ultimately show ?thesis by blast
  qed
  then obtain w3 where "bindUnix env path w3 = (Inr l, w')" "\<forall>p. p \<noteq> path \<longrightarrow> file_at p w3 = file_at p w"
    by blast
  with bind_success [OF assms(1) this(1)] free show ?thesis by simp
qed

text \<open>Closing removes the path exactly while it still is this listener's file.\<close>

lemma owned_Close_effect:
  assumes "alone env" "owned_Close env l w = (None, w')" "file_at (ow_path l) w = Some f"
  shows "(if en_inode f = en_inode (ow_identity l) then file_at (ow_path l) w' = None
     else \<exists>f'. file_at (ow_path l) w' = Some f' \<and> en_inode f' = en_inode f) \<and>
    (\<forall>p. p \<noteq> ow_path l \<longrightarrow> map_option en_inode (file_at p w') = map_option en_inode (file_at p w))"
proof -
  obtain s w0 where s: "sys env w = (s, w0)" by fastforce
  note sa = sys_alone [OF assms(1) s]
  obtain c w1 where c: "unix_listener_Close env (ow_inode l) w = (c, w1)" by fastforce
  from assms(2) c have "c = None" by (auto simp: owned_Close_def split: option.splits if_splits)
  note c = c [unfolded this]
  have keep: "map_option en_inode (map_option (\<lambda>e. if en_inode e = ow_inode l then e\<lparr>en_live := False\<rparr> else e) x) =
    map_option en_inode x" for x
    by (cases x) simp_all
  have f1: "map_option en_inode (file_at p w1) = map_option en_inode (file_at p w)" for p
    using c s sa by (auto simp: unix_listener_Close_def file_at_def keep
        simp del: option.map_comp split: option.splits if_split_asm)
  obtain i w2 where i: "os_Lstat env (ow_path l) w1 = (i, w2)" by fastforce
  note ia = Lstat_alone [OF assms(1) i]
  have f2: "file_at p w2 = file_at p w1" for p using ia same_files_at by blast
  from f1 [of "ow_path l"] assms(3) obtain g where g: "file_at (ow_path l) w1 = Some g" "en_inode g = en_inode f"
    by (auto simp: map_option_eq_Some)
  show ?thesis
  proof (cases i)
    case (Inl e)
    with ia g have "\<not> os_IsNotExist e" by auto
    with assms(2) c i Inl show ?thesis by (simp add: owned_Close_def)
  next
    case (Inr current)
    with ia g have cur: "current = g" by simp
    show ?thesis
    proof (cases "en_inode f = en_inode (ow_identity l)")
      case False
      with assms(2) c i Inr cur g have "w' = w2" by (simp add: owned_Close_def)
      with False g f1 f2 show ?thesis by simp
    next
      case True
      obtain r w3 where r: "os_Remove env (ow_path l) w2 = (r, w3)" by fastforce
      obtain s3 w4 where s3: "sys env w2 = (s3, w4)" by fastforce
      note sa3 = sys_alone [OF assms(1) s3]
      have at4: "file_at p w4 = file_at p w1" for p using sa3 f2 [of p] by (simp add: file_at_def)
      from r s3 sa3 at4 [of "ow_path l"] g
      have ne: "\<not> os_IsNotExist e" if "r = Some e" for e
        using that by (auto simp: os_Remove_def os_IsNotExist_def split: option.splits)
      from assms(2) c i Inr cur g True r ne have "r = None" "w' = w3"
        by (auto simp: owned_Close_def split: option.splits if_splits)
      with r s3 have "w' = set_file (ow_path l) None w4"
        by (auto simp: os_Remove_def split: option.splits)
      then have "file_at (ow_path l) w' = None" "\<forall>p. p \<noteq> ow_path l \<longrightarrow> file_at p w' = file_at p w1"
        using at4 by (auto simp: file_at_def set_file_def)
      with True f1 show ?thesis by simp
    qed
  qed
qed

section \<open>Sample worlds\<close>

definition calm :: fs_env where
  "calm = \<lparr>fe_other = (\<lambda>_ f. f), fe_err = (\<lambda>_. None), fe_ctx = (\<lambda>_. None), fe_probe = (\<lambda>_. None)\<rparr>"

definition socket_world :: "bool \<Rightarrow> fs_world" where
  "socket_world live = \<lparr>fw_fs = \<lparr>fs_files = (\<lambda>_. None)(''/s'' \<mapsto>
       \<lparr>en_socket = True, en_inode = 1, en_live = live, en_mode = 384\<rparr>), fs_next = 2, fs_closed = {}\<rparr>,
     fw_tick = 0\<rparr>"

lemma calm_alone: "alone calm"
  by (simp add: alone_def calm_def)

lemmas file_ops = listenUnix_def os_MkdirAll_def sys_def os_Lstat_def removeStaleSocket_def
  dial_unix_def os_Remove_def bindUnix_def listen_unix_def os_Chmod_def owned_Close_def
  unix_listener_Close_def file_at_def set_file_def Let_def calm_def socket_world_def os_IsNotExist_def

lemma sample_listen: "\<exists>l w'. listenUnix calm ''/s'' (socket_world False) = (Inr l, w')"
  by (simp add: file_ops)

section \<open>Properties\<close>

text \<open>
  Property C27. A server never takes over a path another process uses: with no one else
  acting meanwhile, listening on a path that holds a served socket or any other kind of file
  fails and leaves the file system as it is, whatever system calls fail.
\<close>

theorem listen_respects_owner:
  assumes "alone env" "file_at path w = Some f" "\<not> en_socket f \<or> en_live f"
  shows "\<exists>e w'. listenUnix env path w = (Inl e, w') \<and> fw_fs w' = fw_fs w"
  using listen_occupied [OF assms] by (simp add: same_files_def)

theorem listen_respects_owner_witness:
  "\<exists>e w'. listenUnix calm ''/s'' (socket_world True) = (Inl e, w') \<and>
     fw_fs w' = fw_fs (socket_world True)"
  by (rule listen_respects_owner [OF calm_alone,
        of "''/s''" _ "\<lparr>en_socket = True, en_inode = 1, en_live = True, en_mode = 384\<rparr>"])
    (simp_all add: file_at_def socket_world_def)

text \<open>
  Property C28. A listener owns what it bound and gives up only that, when nobody else changes the
  file system while one of the two operations runs (between them anybody may): after a successful
  listen the path is a served socket of its own with mode 0600, in place of nothing or of a
  socket nobody served, and no other path changed; and a successful close removes the path
  when it is still that socket, and keeps it when another file has replaced it.
\<close>

theorem listener_owns_its_path:
  assumes "alone env" "listenUnix env path w = (Inr l, w1)" "alone env'"
    and "owned_Close env' l w2 = (None, w3)" "file_at path w2 = Some f"
  shows "file_at path w1 = Some \<lparr>en_socket = True, en_inode = ow_inode l, en_live = True, en_mode = 384\<rparr> \<and>
    (\<forall>p. p \<noteq> path \<longrightarrow> file_at p w1 = file_at p w) \<and>
    (en_inode f = ow_inode l \<longrightarrow> file_at path w3 = None) \<and>
    (en_inode f \<noteq> ow_inode l \<longrightarrow> (\<exists>f'. file_at path w3 = Some f' \<and> en_inode f' = en_inode f))"
proof -
  note s = listen_success [OF assms(1,2)]
  have "file_at (ow_path l) w2 = Some f" using assms(5) s by simp
  from owned_Close_effect [OF assms(3,4) this] s show ?thesis by (auto split: if_splits)
qed

theorem listener_owns_its_path_witness:
  "\<exists>l w1 w3. listenUnix calm ''/s'' (socket_world False) = (Inr l, w1) \<and>
     owned_Close calm l w1 = (None, w3) \<and> file_at ''/s'' w3 = None"
proof -
  have "\<exists>l w1 w3. listenUnix calm ''/s'' (socket_world False) = (Inr l, w1) \<and>
    owned_Close calm l w1 = (None, w3)" by (simp add: file_ops)
  then obtain l w1 w3 where l: "listenUnix calm ''/s'' (socket_world False) = (Inr l, w1)"
    "owned_Close calm l w1 = (None, w3)" by blast
  from listen_success [OF calm_alone l(1)] have
    "file_at ''/s'' w1 = Some \<lparr>en_socket = True, en_inode = ow_inode l, en_live = True, en_mode = 384\<rparr>"
    by simp
  from listener_owns_its_path [OF calm_alone l(1) calm_alone l(2) this] l show ?thesis by auto
qed

end
