(* ===== verification/Reload.thy ===== *)
theory Reload
  imports Config
begin

text \<open>
  \<open>internal/app/app.go\<close>: the loop that runs one proxy runtime at a time, reloads the
  configuration on SIGHUP, restores the last configuration that served when a new one fails
  to start, and idles rather than exits when it is run by a service manager.

  What the loop cannot decide is the parameter \<open>app_env\<close>: at each point where the code looks
  at the context, at the ready channel or at the done channel, whether the context has been
  cancelled and whether the current runtime has become ready or has returned; what
  \<open>config.Load\<close> returns; and which ready arm \<open>select\<close> picks. One iteration of the loop is a
  function of the state; \<open>app_runs\<close> iterates it.
\<close>

section \<open>State\<close>

datatype runtime_phase = runtimeIdle | runtimeStarting | runtimeRollingBack | runtimeServing

text \<open>\<open>in_ready\<close>: the ready channel is closed. \<open>in_done\<close>: what the done channel holds.\<close>

record runtime_instance =
  in_cfg :: config
  in_ready :: bool
  in_serving :: bool
  in_reloaded :: bool
  in_rollbackCause :: "goerr option"
  in_done :: "goerr option option"
  in_finished :: bool
  in_runErr :: "goerr option"

datatype app_log =
    LogLaunched config
  | LogStopped
  | LogServing config
  | LogRestored
  | LogReloaded
  | LogStopFailed goerr
  | LogReloadRequested
  | LogRestoring goerr
  | LogKeeping goerr
  | LogRemainingIdle goerr
  | LogConfigError goerr
  | LogRuntimeEnded runtime_phase goerr

record app_state =
  ap_cancelled :: bool
  ap_current :: "runtime_instance option"
  ap_lastGood :: "config option"
  ap_tick :: nat
  ap_loads :: nat
  ap_log :: "app_log list"

datatype select_arm = ArmCtxDone | ArmReload | ArmReady | ArmDone

record app_env =
  ae_cancel :: "nat \<Rightarrow> bool"
  ae_ready :: "nat \<Rightarrow> bool"
  ae_done :: "nat \<Rightarrow> goerr option option"
  ae_load :: "nat \<Rightarrow> goerr + config"
  ae_stop :: "nat \<Rightarrow> goerr option"
  ae_pick :: "nat \<Rightarrow> select_arm"

definition phase :: "runtime_instance option \<Rightarrow> runtime_phase" where
  "phase r = (case r of None \<Rightarrow> runtimeIdle
     | Some r \<Rightarrow> if in_serving r then runtimeServing
                 else if in_rollbackCause r \<noteq> None then runtimeRollingBack
                 else runtimeStarting)"

definition note_log :: "app_log list \<Rightarrow> app_state \<Rightarrow> app_state" where
  "note_log ls s = s\<lparr>ap_log := ap_log s @ ls\<rparr>"

text \<open>\<open>observe\<close>: time passes up to the next look at the channels and the context.\<close>

definition observe :: "app_env \<Rightarrow> app_state \<Rightarrow> app_state" where
  "observe env s =
     (let n = ap_tick s
      in s\<lparr>ap_tick := Suc n,
           ap_cancelled := ap_cancelled s \<or> ae_cancel env n,
           ap_current := map_option (\<lambda>r. r
             \<lparr>in_ready := in_ready r \<or> ae_ready env n,
              in_done := (if in_done r = None then ae_done env n else in_done r)\<rparr>) (ap_current s)\<rparr>)"

section \<open>Operations\<close>

text \<open>\<open>stop\<close> cancels the runtime and waits for what its \<open>Run\<close> returns.\<close>

definition instance_stop :: "app_env \<Rightarrow> runtime_instance \<Rightarrow> app_state \<Rightarrow> goerr option" where
  "instance_stop env r s =
     (if in_finished r then in_runErr r
      else case in_done r of Some err \<Rightarrow> err | None \<Rightarrow> ae_stop env (ap_tick s))"

definition stopCurrent :: "app_env \<Rightarrow> app_state \<Rightarrow> goerr option \<times> app_state" where
  "stopCurrent env s =
     (case ap_current s of
        None \<Rightarrow> (None, s)
      | Some r \<Rightarrow> (instance_stop env r s, note_log [LogStopped] (s\<lparr>ap_current := None\<rparr>)))"

definition observeReadiness :: "app_env \<Rightarrow> app_state \<Rightarrow> app_state" where
  "observeReadiness env s =
     (let s = observe env s
      in if phase (ap_current s) = runtimeIdle \<or> phase (ap_current s) = runtimeServing \<or> ap_cancelled s
         then s
         else case ap_current s of
                None \<Rightarrow> s
              | Some r \<Rightarrow>
                  if in_ready r then
                    (let restored = (phase (Some r) = runtimeRollingBack);
                         r' = r\<lparr>in_serving := True, in_rollbackCause := None\<rparr>;
                         s = s\<lparr>ap_current := Some r', ap_lastGood := Some (in_cfg r)\<rparr>;
                         s = note_log [LogServing (in_cfg r)] s
                     in if restored then note_log [LogRestored] s
                        else if in_reloaded r then note_log [LogReloaded] s else s)
                  else s)"

definition launchRuntime :: "config \<Rightarrow> runtime_instance" where
  "launchRuntime cfg =
     \<lparr>in_cfg = cfg, in_ready = False, in_serving = False, in_reloaded = False,
      in_rollbackCause = None, in_done = None, in_finished = False, in_runErr = None\<rparr>"

definition start ::
  "app_env \<Rightarrow> config \<Rightarrow> goerr option \<Rightarrow> bool \<Rightarrow> app_state \<Rightarrow> goerr option \<times> app_state" where
  "start env cfg rollbackCause reloaded s =
     (let (stopErr, s) = stopCurrent env s; s = observe env s
      in if ap_cancelled s then (stopErr, s)
         else let s = (case stopErr of Some e \<Rightarrow> note_log [LogStopFailed e] s | None \<Rightarrow> s);
                  r = (launchRuntime cfg)\<lparr>in_reloaded := reloaded, in_rollbackCause := rollbackCause\<rparr>
              in (None, note_log [LogLaunched cfg] (s\<lparr>ap_current := Some r\<rparr>)))"

definition loadConfiguration ::
  "app_env \<Rightarrow> bool \<Rightarrow> bool \<Rightarrow> app_state \<Rightarrow> goerr option \<times> app_state" where
  "loadConfiguration env foreground initial s =
     (let s = observe env s
      in if ap_cancelled s then stopCurrent env s
         else let candidate = ae_load env (ap_loads s);
                  s = observe env (s\<lparr>ap_loads := Suc (ap_loads s)\<rparr>)
              in if ap_cancelled s then stopCurrent env s
                 else let s = observeReadiness env s
                      in case candidate of
                           Inr cfg \<Rightarrow>
                             start env cfg None (\<not> initial)
                               (if initial then s else note_log [LogReloadRequested] s)
                         | Inl loadErr \<Rightarrow>
                             (case phase (ap_current s) of
                                runtimeStarting \<Rightarrow>
                                  (case ap_lastGood s of
                                     Some good \<Rightarrow> start env good (Some loadErr) True (note_log [LogRestoring loadErr] s)
                                   | None \<Rightarrow> (None, note_log [LogKeeping loadErr] s))
                              | runtimeRollingBack \<Rightarrow> (None, note_log [LogKeeping loadErr] s)
                              | runtimeServing \<Rightarrow> (None, note_log [LogKeeping loadErr] s)
                              | runtimeIdle \<Rightarrow>
                                  if ap_lastGood s \<noteq> None then (None, note_log [LogRemainingIdle loadErr] s)
                                  else if foreground then (Some loadErr, s)
                                  else (None, note_log [LogConfigError loadErr] s)))"

definition shouldReturnProxyError :: "bool \<Rightarrow> goerr \<Rightarrow> bool" where
  "shouldReturnProxyError foreground err \<longleftrightarrow> foreground \<or> errors_Is err ErrListenerFailure"

text \<open>An operation of the loop either returns from \<open>runWithServers\<close> or goes on.\<close>

datatype app_next = AppReturn "goerr option" | AppContinue

definition on_error :: "goerr option \<times> app_state \<Rightarrow> app_next \<times> app_state" where
  "on_error = (\<lambda>(err, s). case err of Some e \<Rightarrow> (AppReturn (Some e), s) | None \<Rightarrow> (AppContinue, s))"

definition returning :: "goerr option \<times> app_state \<Rightarrow> app_next \<times> app_state" where
  "returning = (\<lambda>(err, s). (AppReturn err, s))"

text \<open>The arm \<open>case runtimeErr := <-done\<close>.\<close>

definition runtime_ended :: "app_env \<Rightarrow> bool \<Rightarrow> goerr option \<Rightarrow> app_state \<Rightarrow> app_next \<times> app_state" where
  "runtime_ended env foreground runtimeErr s =
     (let s = observeReadiness env s;
          state = phase (ap_current s);
          rollbackCause = (case ap_current s of None \<Rightarrow> None | Some r \<Rightarrow> in_rollbackCause r);
          s = s\<lparr>ap_current := map_option (\<lambda>r. r\<lparr>in_runErr := runtimeErr, in_finished := True\<rparr>) (ap_current s)\<rparr>;
          s = observe env s
      in if ap_cancelled s then returning (stopCurrent env s)
         else let s = note_log [LogStopped] (s\<lparr>ap_current := None\<rparr>);
                  err = (case runtimeErr of Some e \<Rightarrow> e
                         | None \<Rightarrow> ErrText ''proxy runtime stopped unexpectedly'')
              in if state = runtimeStarting \<and> ap_lastGood s \<noteq> None
                 then on_error (start env (the (ap_lastGood s)) (Some err) True (note_log [LogRestoring err] s))
                 else let err = (if state = runtimeRollingBack
                                 then the (errors_Join [rollbackCause,
                                   Some (ErrWrap (''restoring previous configuration: '' @ err_text err) [err])])
                                 else err)
                      in if shouldReturnProxyError foreground err then (AppReturn (Some err), s)
                         else (AppContinue, note_log [LogRuntimeEnded state err] s))"

text \<open>
  One iteration. \<open>None\<close>: the arm that the environment picked is not ready, so \<open>select\<close>
  cannot have picked it.
\<close>

definition app_iteration :: "app_env \<Rightarrow> bool \<Rightarrow> app_state \<Rightarrow> (app_next \<times> app_state) option" where
  "app_iteration env foreground s =
     (let s = observe env s
      in if ap_cancelled s then Some (returning (stopCurrent env s))
         else let s = observeReadiness env s;
                  s' = observe env s
              in case ae_pick env (ap_tick s) of
                   ArmCtxDone \<Rightarrow> if ap_cancelled s' then Some (returning (stopCurrent env s')) else None
                 | ArmReload \<Rightarrow> Some (on_error (loadConfiguration env foreground False s'))
                 | ArmReady \<Rightarrow>
                     (case ap_current s' of
                        None \<Rightarrow> None
                      | Some r \<Rightarrow> if \<not> in_serving r \<and> in_ready r then Some (AppContinue, s') else None)
                 | ArmDone \<Rightarrow>
                     (case ap_current s' of
                        None \<Rightarrow> None
                      | Some r \<Rightarrow> (case in_done r of None \<Rightarrow> None
                                  | Some err \<Rightarrow> Some (runtime_ended env foreground err s'))))"

definition app_start :: "app_state" where
  "app_start = \<lparr>ap_cancelled = False, ap_current = None, ap_lastGood = None, ap_tick = 0,
     ap_loads = 0, ap_log = []\<rparr>"

text \<open>\<open>app_runs env fg n\<close>: the first load and \<open>n\<close> iterations at most.\<close>

fun app_iterate :: "app_env \<Rightarrow> bool \<Rightarrow> nat \<Rightarrow> app_next \<times> app_state \<Rightarrow> (app_next \<times> app_state) option" where
  "app_iterate env foreground 0 ns = Some ns"
| "app_iterate env foreground (Suc n) (AppReturn err, s) = Some (AppReturn err, s)"
| "app_iterate env foreground (Suc n) (AppContinue, s) =
     (case app_iteration env foreground s of None \<Rightarrow> None | Some ns \<Rightarrow> app_iterate env foreground n ns)"

definition runWithServers :: "app_env \<Rightarrow> bool \<Rightarrow> nat \<Rightarrow> (app_next \<times> app_state) option" where
  "runWithServers env foreground n =
     app_iterate env foreground n (on_error (loadConfiguration env foreground True app_start))"

end
