(* ===== verification/ReloadLaws.thy ===== *)
theory ReloadLaws
  imports Reload
begin

text \<open>
  What the reload loop promises over any run: one runtime at a time, the last good
  configuration is one that served, a bounded number of launches per reload, no return but
  for cancellation, foreground mode or a listener failure, and the two branches a reload
  depends on: a configuration that does not load disturbs nothing, one that does not start
  is rolled back.
\<close>

section \<open>The invariant\<close>

fun is_launch :: "app_log \<Rightarrow> bool" where
  "is_launch (LogLaunched c) = True" | "is_launch _ = False"

definition launches :: "app_state \<Rightarrow> nat" where
  "launches s = length (filter is_launch (ap_log s))"

definition stops :: "app_state \<Rightarrow> nat" where
  "stops s = length (filter (\<lambda>l. l = LogStopped) (ap_log s))"

definition live :: "app_state \<Rightarrow> nat" where
  "live s = (if ap_current s = None then 0 else 1)"

definition starting :: "app_state \<Rightarrow> nat" where
  "starting s = (if phase (ap_current s) = runtimeStarting then 1 else 0)"

text \<open>What is known of the current runtime and of the last good configuration.\<close>

definition runtime_ok :: "app_state \<Rightarrow> bool" where
  "runtime_ok s \<longleftrightarrow>
     (\<forall>r. ap_current s = Some r \<longrightarrow> phase (Some r) \<noteq> runtimeStarting \<longrightarrow> ap_lastGood s = Some (in_cfg r)) \<and>
     (\<forall>c. ap_lastGood s = Some c \<longrightarrow> LogServing c \<in> set (ap_log s)) \<and>
     launches s = stops s + live s"

text \<open>\<open>budget k\<close>: at most two launches per load were made, and \<open>k\<close> more are allowed.\<close>

definition budget :: "nat \<Rightarrow> app_state \<Rightarrow> bool" where
  "budget k s \<longleftrightarrow> launches s + starting s + k \<le> 2 * ap_loads s"

definition app_inv :: "app_state \<Rightarrow> bool" where
  "app_inv s \<longleftrightarrow> runtime_ok s \<and> budget 0 s"

lemma note_log_sel [simp]:
  "ap_current (note_log ls s) = ap_current s" "ap_lastGood (note_log ls s) = ap_lastGood s"
  "ap_cancelled (note_log ls s) = ap_cancelled s" "ap_loads (note_log ls s) = ap_loads s"
  "ap_log (note_log ls s) = ap_log s @ ls" "ap_tick (note_log ls s) = ap_tick s"
  by (simp_all add: note_log_def)

lemma observe_sel [simp]:
  "ap_lastGood (observe env s) = ap_lastGood s" "ap_loads (observe env s) = ap_loads s"
  "ap_log (observe env s) = ap_log s" "(ap_current (observe env s) = None) = (ap_current s = None)"
  by (simp_all add: observe_def Let_def)

lemma observe_current:
  "ap_current (observe env s) = Some r \<Longrightarrow> \<exists>r0. ap_current s = Some r0 \<and> in_cfg r = in_cfg r0 \<and>
     in_serving r = in_serving r0 \<and> in_rollbackCause r = in_rollbackCause r0 \<and> phase (Some r) = phase (Some r0)"
  by (auto simp: observe_def Let_def phase_def)

lemma observe_phase [simp]: "phase (ap_current (observe env s)) = phase (ap_current s)"
  by (cases "ap_current s") (simp_all add: observe_def Let_def phase_def)

lemma observe_counts [simp]:
  "launches (observe env s) = launches s" "stops (observe env s) = stops s"
  "live (observe env s) = live s" "starting (observe env s) = starting s"
  by (simp_all add: launches_def stops_def live_def starting_def)

lemma observe_cancelled: "ap_cancelled s \<Longrightarrow> ap_cancelled (observe env s)"
  by (simp add: observe_def Let_def)

lemma observe_ok: "runtime_ok s \<Longrightarrow> runtime_ok (observe env s)"
  by (auto simp: runtime_ok_def dest!: observe_current)

lemma observe_budget [simp]: "budget k (observe env s) = budget k s"
  by (simp add: budget_def)

text \<open>Messages other than launches, stops and serving change no count.\<close>

definition quiet_log :: "app_log list \<Rightarrow> bool" where
  "quiet_log ls \<longleftrightarrow> list_all (\<lambda>l. \<not> is_launch l \<and> l \<noteq> LogStopped) ls"

lemma quiet_log_simps [simp]:
  "quiet_log []" "quiet_log (LogServing c # ls) = quiet_log ls" "quiet_log (LogRestored # ls) = quiet_log ls"
  "quiet_log (LogReloaded # ls) = quiet_log ls" "quiet_log (LogStopFailed e # ls) = quiet_log ls"
  "quiet_log (LogReloadRequested # ls) = quiet_log ls" "quiet_log (LogRestoring e # ls) = quiet_log ls"
  "quiet_log (LogKeeping e # ls) = quiet_log ls" "quiet_log (LogRemainingIdle e # ls) = quiet_log ls"
  "quiet_log (LogConfigError e # ls) = quiet_log ls" "quiet_log (LogRuntimeEnded p e # ls) = quiet_log ls"
  by (simp_all add: quiet_log_def)

lemma note_quiet:
  assumes "quiet_log ls"
  shows "launches (note_log ls s) = launches s" "stops (note_log ls s) = stops s"
    "live (note_log ls s) = live s" "starting (note_log ls s) = starting s"
    "budget k (note_log ls s) = budget k s" "runtime_ok s \<Longrightarrow> runtime_ok (note_log ls s)"
proof -
  from assms have f: "filter is_launch ls = []" "filter (\<lambda>l. l = LogStopped) ls = []"
    by (auto simp: quiet_log_def list_all_iff filter_empty_conv)
  then show l: "launches (note_log ls s) = launches s" and st: "stops (note_log ls s) = stops s"
    by (simp_all add: launches_def stops_def)
  show lv: "live (note_log ls s) = live s" and sg: "starting (note_log ls s) = starting s"
    by (simp_all add: live_def starting_def)
  show "budget k (note_log ls s) = budget k s" by (simp add: budget_def l sg)
  show "runtime_ok s \<Longrightarrow> runtime_ok (note_log ls s)" using l st lv by (auto simp: runtime_ok_def)
qed

section \<open>Each operation keeps it\<close>

lemma stopCurrent_inv:
  assumes "stopCurrent env s = (err, s')" "runtime_ok s"
  shows "runtime_ok s' \<and> ap_current s' = None \<and> ap_lastGood s' = ap_lastGood s \<and>
    ap_loads s' = ap_loads s \<and> launches s' = launches s \<and> ap_cancelled s' = ap_cancelled s \<and>
    (budget k s \<longrightarrow> budget k s')"
proof (cases "ap_current s")
  case None
  with assms show ?thesis by (auto simp: stopCurrent_def)
next
  case (Some r)
  with assms(1) have s': "s' = note_log [LogStopped] (s\<lparr>ap_current := None\<rparr>)"
    by (simp add: stopCurrent_def)
  have "launches s' = launches s" "stops s' = Suc (stops s)" "live s' = 0" "starting s' = 0"
    by (simp_all add: s' launches_def stops_def live_def starting_def phase_def)
  with Some assms(2) show ?thesis
    by (auto simp: s' runtime_ok_def budget_def live_def)
qed

lemma observeReadiness_inv:
  assumes "runtime_ok s"
  shows "runtime_ok (observeReadiness env s) \<and> (budget k s \<longrightarrow> budget k (observeReadiness env s)) \<and>
    ap_loads (observeReadiness env s) = ap_loads s \<and>
    launches (observeReadiness env s) = launches s \<and>
    (phase (ap_current (observeReadiness env s)) = runtimeStarting \<longrightarrow>
       phase (ap_current s) = runtimeStarting)"
proof -
  define s1 where "s1 = observe env s"
  have s1: "runtime_ok s1" "budget k s \<Longrightarrow> budget k s1" "ap_loads s1 = ap_loads s"
    "launches s1 = launches s" "phase (ap_current s1) = phase (ap_current s)" for k
    using observe_ok [OF assms] by (simp_all add: s1_def)
  show ?thesis
  proof (cases "\<exists>r. ap_current s1 = Some r \<and> in_ready r \<and> phase (Some r) \<noteq> runtimeServing \<and> \<not> ap_cancelled s1")
    case False
    then have "observeReadiness env s = s1"
      by (auto simp: observeReadiness_def s1_def [symmetric] phase_def split: option.splits if_splits)
    with s1 show ?thesis by auto
  next
    case True
    then obtain r where r: "ap_current s1 = Some r" "in_ready r" "phase (Some r) \<noteq> runtimeServing"
      "\<not> ap_cancelled s1" by blast
    define r' where "r' = r\<lparr>in_serving := True, in_rollbackCause := None\<rparr>"
    define s2 where "s2 = note_log [LogServing (in_cfg r)]
      (s1\<lparr>ap_current := Some r', ap_lastGood := Some (in_cfg r)\<rparr>)"
    have "phase (Some r) \<noteq> runtimeIdle" by (simp add: phase_def)
    with r have "observeReadiness env s = (if phase (Some r) = runtimeRollingBack then note_log [LogRestored] s2
      else if in_reloaded r then note_log [LogReloaded] s2 else s2)"
      by (simp add: observeReadiness_def s1_def [symmetric] Let_def s2_def r'_def)
    then obtain ls where ls: "quiet_log ls" "observeReadiness env s = note_log ls s2"
      by (auto simp: note_log_def split: if_splits intro: that [of "[LogRestored]"] that [of "[LogReloaded]"] that [of "[]"])
    have p: "phase (Some r') = runtimeServing" by (simp add: phase_def r'_def)
    have c: "launches s2 = launches s1" "stops s2 = stops s1" "live s2 = live s1" "starting s2 = 0"
      "ap_loads s2 = ap_loads s1"
      by (simp_all add: s2_def launches_def stops_def live_def starting_def r p)
    have "runtime_ok s2" using s1(1) c by (auto simp: runtime_ok_def s2_def r'_def)
    moreover have "budget k s2" if "budget k s1" using that c by (simp add: budget_def)
    moreover have "phase (ap_current s2) = runtimeServing" by (simp add: s2_def p)
    ultimately show ?thesis using ls s1 c note_quiet [OF ls(1), where s = s2] by simp
  qed
qed

lemma start_inv:
  assumes "start env cfg cause reloaded s = (err, s')" "runtime_ok s"
    and "launches s + (if cause = None then 2 else 1) \<le> 2 * ap_loads s"
    and "cause \<noteq> None \<Longrightarrow> ap_lastGood s = Some cfg"
  shows "app_inv s' \<and> (err \<noteq> None \<longrightarrow> ap_cancelled s')"
proof -
  obtain stopErr s1 where s1: "stopCurrent env s = (stopErr, s1)" by fastforce
  note st = stopCurrent_inv [OF s1 assms(2)]
  define s2 where "s2 = observe env s1"
  have s2: "runtime_ok s2" "ap_current s2 = None" "ap_lastGood s2 = ap_lastGood s"
    "launches s2 = launches s" "ap_loads s2 = ap_loads s"
    using st observe_ok by (simp_all add: s2_def)
  show ?thesis
  proof (cases "ap_cancelled s2")
    case True
    with assms(1) s1 have "err = stopErr" "s' = s2" by (simp_all add: start_def s2_def Let_def)
    with True s2 assms(3) show ?thesis
      by (auto simp: app_inv_def budget_def starting_def phase_def split: if_splits)
  next
    case False
    define s3 where "s3 = (case stopErr of Some e \<Rightarrow> note_log [LogStopFailed e] s2 | None \<Rightarrow> s2)"
    have s3: "runtime_ok s3" "ap_current s3 = None" "ap_lastGood s3 = ap_lastGood s"
      "launches s3 = launches s" "ap_loads s3 = ap_loads s"
      using s2 note_quiet by (simp_all add: s3_def split: option.split)
    define r where "r = (launchRuntime cfg)\<lparr>in_reloaded := reloaded, in_rollbackCause := cause\<rparr>"
    from assms(1) s1 False have s': "err = None" "s' = note_log [LogLaunched cfg] (s3\<lparr>ap_current := Some r\<rparr>)"
      by (cases stopErr; auto simp: start_def s2_def s3_def Let_def r_def)+
    have p: "phase (Some r) = (if cause = None then runtimeStarting else runtimeRollingBack)"
      by (simp add: phase_def r_def launchRuntime_def)
    have c: "launches s' = Suc (launches s3)" "stops s' = stops s3" "live s' = 1"
      "starting s' = (if cause = None then 1 else 0)" "ap_loads s' = ap_loads s3"
      by (simp_all add: s' launches_def stops_def live_def starting_def p)
    have "stops s3 = launches s3" using s3 by (simp add: runtime_ok_def live_def)
    then have "runtime_ok s'" using s3 assms(4) p c
      by (auto simp: runtime_ok_def s' r_def launchRuntime_def split: if_splits)
    moreover have "budget 0 s'" using c s3 assms(3) by (auto simp: budget_def split: if_splits)
    ultimately show ?thesis using s' by (simp add: app_inv_def)
  qed
qed

lemma app_invD: "app_inv s \<Longrightarrow> runtime_ok s \<and> launches s + starting s \<le> 2 * ap_loads s"
  by (simp add: app_inv_def budget_def)

lemma stop_app_inv:
  "stopCurrent env s = (err, s') \<Longrightarrow> app_inv s \<Longrightarrow> app_inv s' \<and> ap_cancelled s' = ap_cancelled s"
  using stopCurrent_inv [of env s err s' 0] by (simp add: app_inv_def)

text \<open>A step \<open>(next, state)\<close> that may be taken: it returns only for one of three reasons.\<close>

definition next_ok :: "bool \<Rightarrow> app_next \<times> app_state \<Rightarrow> bool" where
  "next_ok foreground ns \<longleftrightarrow> app_inv (snd ns) \<and>
     (\<forall>err. fst ns = AppReturn err \<longrightarrow> ap_cancelled (snd ns) \<or> foreground \<or>
        (\<exists>e. err = Some e \<and> errors_Is e ErrListenerFailure))"

lemma next_ok_on_error:
  "app_inv s \<Longrightarrow> (err \<noteq> None \<Longrightarrow> ap_cancelled s \<or> foreground) \<Longrightarrow> next_ok foreground (on_error (err, s))"
  by (auto simp: next_ok_def on_error_def split: option.splits)

lemma next_ok_stop:
  assumes "app_inv s" "ap_cancelled s"
  shows "next_ok foreground (returning (stopCurrent env s))"
proof -
  obtain err s' where st: "stopCurrent env s = (err, s')" by fastforce
  from stop_app_inv [OF st assms(1)] assms(2) show ?thesis
    by (simp add: st returning_def next_ok_def)
qed

lemma quiet_log_inv:
  assumes "launches s + starting s + 2 \<le> 2 * ap_loads s" "runtime_ok s" "quiet_log ls"
  shows "app_inv (note_log ls s)"
  using assms(1,2) note_quiet [OF assms(3), where s = s] by (simp add: app_inv_def budget_def)

lemma failed_load_inv:
  assumes rest: "(err, s') = (case phase (ap_current s) of
        runtimeStarting \<Rightarrow> (case ap_lastGood s of
            Some good \<Rightarrow> start env good (Some loadErr) True (note_log [LogRestoring loadErr] s)
          | None \<Rightarrow> (None, note_log [LogKeeping loadErr] s))
      | runtimeRollingBack \<Rightarrow> (None, note_log [LogKeeping loadErr] s)
      | runtimeServing \<Rightarrow> (None, note_log [LogKeeping loadErr] s)
      | runtimeIdle \<Rightarrow> if ap_lastGood s \<noteq> None then (None, note_log [LogRemainingIdle loadErr] s)
          else if foreground then (Some loadErr, s)
          else (None, note_log [LogConfigError loadErr] s))"
    and budget: "launches s + starting s + 2 \<le> 2 * ap_loads s" and ok: "runtime_ok s"
  shows "app_inv s' \<and> (err \<noteq> None \<longrightarrow> ap_cancelled s' \<or> foreground)"
proof (cases "phase (ap_current s) = runtimeStarting \<and> ap_lastGood s \<noteq> None")
  case True
  then obtain good where good: "ap_lastGood s = Some good" by auto
  with True rest have st: "start env good (Some loadErr) True (note_log [LogRestoring loadErr] s) = (err, s')"
    by simp
  from start_inv [OF st] budget ok good note_quiet(1,6) [of "[LogRestoring loadErr]" s] show ?thesis
    by auto
next
  case False
  note quiet = quiet_log_inv [OF budget ok]
  from False rest have "(err = None \<and> (\<exists>ls. quiet_log ls \<and> s' = note_log ls s)) \<or> foreground \<and> s' = s"
    by (cases "phase (ap_current s)") (auto intro: exI [of _ "[LogKeeping loadErr]"]
      exI [of _ "[LogRemainingIdle loadErr]"] exI [of _ "[LogConfigError loadErr]"] split: if_splits)
  moreover have "app_inv s" using quiet [of "[]"] by (simp add: note_log_def)
  ultimately show ?thesis using quiet by auto
qed

lemma loadConfiguration_inv:
  assumes "loadConfiguration env foreground initial s = (err, s')" "app_inv s"
  shows "app_inv s' \<and> (err \<noteq> None \<longrightarrow> ap_cancelled s' \<or> foreground)"
proof -
  define s1 where "s1 = observe env s"
  have i1: "app_inv s1" using assms(2) observe_ok by (simp add: app_inv_def s1_def)
  define s2 where "s2 = observe env (s1\<lparr>ap_loads := Suc (ap_loads s1)\<rparr>)"
  have "runtime_ok (s1\<lparr>ap_loads := Suc (ap_loads s1)\<rparr>) = runtime_ok s1"
    by (simp add: runtime_ok_def launches_def stops_def live_def)
  moreover have "budget 2 (s1\<lparr>ap_loads := Suc (ap_loads s1)\<rparr>) = budget 0 s1"
    by (simp add: budget_def launches_def starting_def)
  ultimately have i2: "runtime_ok s2" "budget 2 s2"
    using i1 observe_ok by (simp_all add: s2_def app_inv_def)
  show ?thesis
  proof (cases "ap_cancelled s1")
    case True
    with assms(1) stop_app_inv [OF _ i1] show ?thesis
      by (auto simp: loadConfiguration_def s1_def [symmetric])
  next
    case nc1: False
    show ?thesis
    proof (cases "ap_cancelled s2")
      case True
      have "app_inv s2" using i2 by (simp add: app_inv_def budget_def)
      with True nc1 assms(1) stop_app_inv show ?thesis
        by (auto simp: loadConfiguration_def s1_def [symmetric] s2_def [symmetric] Let_def)
    next
      case nc2: False
      define s3 where "s3 = observeReadiness env s2"
      note i3 = observeReadiness_inv [OF i2(1), of env 2, folded s3_def]
      have b3: "launches s3 + starting s3 + 2 \<le> 2 * ap_loads s3" "runtime_ok s3"
        using i3 i2(2) by (simp_all add: budget_def)
      note unfold = loadConfiguration_def s1_def [symmetric] s2_def [symmetric] s3_def [symmetric] Let_def
      show ?thesis
      proof (cases "ae_load env (ap_loads s1)")
        case (Inr cfg)
        with assms(1) nc1 nc2 have st: "start env cfg None (\<not> initial)
            (if initial then s3 else note_log [LogReloadRequested] s3) = (err, s')"
          by (simp add: unfold)
        from start_inv [OF st] b3 note_quiet(1,6) [of "[LogReloadRequested]" s3] show ?thesis
          by (auto split: if_splits)
      next
        case (Inl loadErr)
        with assms(1) nc1 nc2 show ?thesis
          by (intro failed_load_inv [OF _ b3, where env = env and loadErr = loadErr]) (simp add: unfold)
      qed
    qed
  qed
qed

lemma runtime_ended_ok:
  assumes "app_inv s" "ap_current s \<noteq> None"
  shows "next_ok foreground (runtime_ended env foreground runtimeErr s)"
proof -
  define s1 where "s1 = observeReadiness env s"
  note o = observeReadiness_inv [of s env 0, folded s1_def]
  have i1: "runtime_ok s1" "launches s1 + starting s1 \<le> 2 * ap_loads s1"
    using assms(1) o by (simp_all add: app_inv_def budget_def)
  have cur: "ap_current s1 \<noteq> None"
    using assms(2) by (auto simp: s1_def observeReadiness_def Let_def split: option.splits)
  define s2 where "s2 = s1\<lparr>ap_current := map_option (\<lambda>r. r\<lparr>in_runErr := runtimeErr, in_finished := True\<rparr>) (ap_current s1)\<rparr>"
  have p2: "phase (ap_current s2) = phase (ap_current s1)"
    by (cases "ap_current s1") (simp_all add: s2_def phase_def)
  then have i2: "app_inv s2" using i1
    by (auto simp: app_inv_def runtime_ok_def budget_def s2_def launches_def stops_def live_def starting_def phase_def)
  define s3 where "s3 = observe env s2"
  have i3: "app_inv s3" "ap_current s3 \<noteq> None" "ap_lastGood s3 = ap_lastGood s1"
    "launches s3 = launches s1" "ap_loads s3 = ap_loads s1"
    using i2 observe_ok cur by (simp_all add: s3_def app_inv_def) (simp_all add: s2_def launches_def)
  note unfold = runtime_ended_def s1_def [symmetric] s2_def [symmetric] s3_def [symmetric] Let_def
  show ?thesis
  proof (cases "ap_cancelled s3")
    case True
    with next_ok_stop [OF i3(1) True] show ?thesis by (simp add: unfold)
  next
    case False
    define s4 where "s4 = note_log [LogStopped] (s3\<lparr>ap_current := None\<rparr>)"
    have "stopCurrent env s3 = (instance_stop env (the (ap_current s3)) s3, s4)"
      using i3(2) by (auto simp: stopCurrent_def s4_def)
    from stopCurrent_inv [OF this, of 0] i3 have i4: "runtime_ok s4" "budget 0 s4"
      "ap_lastGood s4 = ap_lastGood s1" "launches s4 = launches s1" "ap_loads s4 = ap_loads s1"
      by (auto simp: app_inv_def)
    define err where "err = (case runtimeErr of Some e \<Rightarrow> e | None \<Rightarrow> ErrText ''proxy runtime stopped unexpectedly'')"
    show ?thesis
    proof (cases "phase (ap_current s1) = runtimeStarting \<and> ap_lastGood s4 \<noteq> None")
      case True
      then obtain good where good: "ap_lastGood s4 = Some good" by auto
      obtain e s5 where st: "start env good (Some err) True (note_log [LogRestoring err] s4) = (e, s5)" by fastforce
      have "launches s4 + 1 \<le> 2 * ap_loads s4" using i1(2) i4 True by (simp add: starting_def)
      with start_inv [OF st] i4 good note_quiet(1,6) [of "[LogRestoring err]" s4]
      have "app_inv s5 \<and> (e \<noteq> None \<longrightarrow> ap_cancelled s5)" by auto
      with next_ok_on_error [of s5 e] True False good st show ?thesis
        by (simp add: unfold s4_def [symmetric] err_def [symmetric])
    next
      case no: False
      have "app_inv s4" using i4 by (simp add: app_inv_def)
      moreover have "app_inv (note_log [LogRuntimeEnded p e] s4)" for p e
        using i4 note_quiet(5,6) [of "[LogRuntimeEnded p e]"] by (simp add: app_inv_def)
      ultimately show ?thesis using False no
        by (auto simp: unfold s4_def [symmetric] err_def [symmetric] next_ok_def shouldReturnProxyError_def
            split: if_splits)
    qed
  qed
qed

lemma app_iteration_ok:
  assumes "app_iteration env foreground s = Some ns" "app_inv s"
  shows "next_ok foreground ns"
proof -
  define s1 where "s1 = observe env s"
  have i1: "app_inv s1" using assms(2) observe_ok by (simp add: app_inv_def s1_def)
  show ?thesis
  proof (cases "ap_cancelled s1")
    case True
    with assms(1) next_ok_stop [OF i1 True] show ?thesis
      by (auto simp: app_iteration_def s1_def [symmetric])
  next
    case False
    define s2 where "s2 = observeReadiness env s1"
    define s3 where "s3 = observe env s2"
    have "app_inv s2" using i1 observeReadiness_inv [of s1 env 0] by (simp add: app_inv_def s2_def)
    then have i3: "app_inv s3" using observe_ok by (simp add: app_inv_def s3_def)
    note unfold = app_iteration_def s1_def [symmetric] s2_def [symmetric] s3_def [symmetric] Let_def
    show ?thesis
    proof (cases "ae_pick env (ap_tick s2)")
      case ArmCtxDone
      with assms(1) False i3 next_ok_stop [OF i3] show ?thesis by (auto simp: unfold split: if_splits)
    next
      case ArmReload
      obtain err s4 where l: "loadConfiguration env foreground False s3 = (err, s4)" by fastforce
      from loadConfiguration_inv [OF l i3] next_ok_on_error [of s4 err] ArmReload assms(1) False l
      show ?thesis by (auto simp: unfold)
    next
      case ArmReady
      with assms(1) False i3 show ?thesis
        by (auto simp: unfold next_ok_def split: option.splits if_splits)
    next
      case ArmDone
      with assms(1) False runtime_ended_ok [OF i3] show ?thesis
        by (auto simp: unfold split: option.splits)
    qed
  qed
qed

lemma app_iterate_ok:
  "app_iterate env foreground n ns = Some ns' \<Longrightarrow> next_ok foreground ns \<Longrightarrow> next_ok foreground ns'"
proof (induction env foreground n ns rule: app_iterate.induct)
  case (3 env foreground n s)
  then obtain ns1 where it: "app_iteration env foreground s = Some ns1"
    "app_iterate env foreground n ns1 = Some ns'" by (auto split: option.splits)
  moreover have "app_inv s" using 3(3) by (simp add: next_ok_def)
  ultimately show ?case using 3(1) app_iteration_ok by blast
qed auto

lemma app_start_inv: "app_inv app_start"
  by (simp add: app_inv_def runtime_ok_def budget_def app_start_def launches_def stops_def live_def
      starting_def phase_def)

lemma runWithServers_ok: "runWithServers env foreground n = Some ns \<Longrightarrow> next_ok foreground ns"
proof -
  assume run: "runWithServers env foreground n = Some ns"
  obtain err s where l: "loadConfiguration env foreground True app_start = (err, s)" by fastforce
  from loadConfiguration_inv [OF l app_start_inv] next_ok_on_error [of s err]
  have "next_ok foreground (on_error (err, s))" by blast
  with app_iterate_ok run l show ?thesis by (simp add: runWithServers_def)
qed

section \<open>The branches of a reload\<close>

lemmas reload_ops = app_iteration_def observeReadiness_def observe_def loadConfiguration_def
  runtime_ended_def start_def stopCurrent_def launchRuntime_def phase_def note_log_def on_error_def
  Let_def

lemma reload_load_failure:
  assumes "ap_current s = Some r" "in_serving r" "\<not> ap_cancelled s" "\<And>n. \<not> ae_cancel env n"
    and "ae_pick env (ap_tick s + 2) = ArmReload" "ae_load env (ap_loads s) = Inl e"
  shows "\<exists>s' r'. app_iteration env foreground s = Some (AppContinue, s') \<and> ap_current s' = Some r' \<and>
    in_cfg r' = in_cfg r \<and> in_serving r' \<and> ap_lastGood s' = ap_lastGood s \<and> launches s' = launches s"
  using assms by (simp add: reload_ops launches_def)

lemma reload_rollback:
  assumes "ap_current s = Some r" "phase (Some r) = runtimeStarting" "\<not> in_ready r"
    and "in_done r = Some err" "ap_lastGood s = Some good" "\<not> ap_cancelled s"
    and "\<And>n. \<not> ae_cancel env n" "\<And>n. \<not> ae_ready env n" "ae_pick env (ap_tick s + 2) = ArmDone"
  shows "\<exists>s' r' cause. app_iteration env foreground s = Some (AppContinue, s') \<and> ap_current s' = Some r' \<and>
    in_cfg r' = good \<and> phase (Some r') = runtimeRollingBack \<and> ap_lastGood s' = Some good \<and>
    cause = (case err of Some e \<Rightarrow> e | None \<Rightarrow> ErrText ''proxy runtime stopped unexpectedly'') \<and>
    in_rollbackCause r' = Some cause \<and> in_reloaded r' \<and> in_done r' = None \<and>
    ap_log s' = ap_log s @ [LogStopped, LogRestoring cause, LogLaunched good]"
  using assms by (auto simp: reload_ops split: if_splits option.splits)

section \<open>A sample run\<close>

definition cfg_a :: config where "cfg_a = \<lparr>c_Upstream = ''/a'', c_Debug = False, c_Groups = []\<rparr>"
definition cfg_b :: config where "cfg_b = \<lparr>c_Upstream = ''/b'', c_Debug = False, c_Groups = []\<rparr>"

text \<open>The first configuration becomes ready; then \<open>second\<close> is what a reload loads.\<close>

definition sample_env :: "goerr + config \<Rightarrow> select_arm \<Rightarrow> app_env" where
  "sample_env second arm = \<lparr>ae_cancel = (\<lambda>_. False), ae_ready = (\<lambda>n. n < 6), ae_done = (\<lambda>_. None),
     ae_load = (\<lambda>n. if n = 0 then Inr cfg_a else second), ae_stop = (\<lambda>_. None), ae_pick = (\<lambda>_. arm)\<rparr>"

definition serving_a :: app_state where
  "serving_a = \<lparr>ap_cancelled = False, ap_current = Some ((launchRuntime cfg_a)\<lparr>in_ready := True, in_serving := True\<rparr>),
     ap_lastGood = Some cfg_a, ap_tick = 10, ap_loads = 1, ap_log = [LogLaunched cfg_a, LogServing cfg_a]\<rparr>"

definition failing_b :: app_state where
  "failing_b = \<lparr>ap_cancelled = False, ap_current = Some ((launchRuntime cfg_b)\<lparr>in_done := Some (Some (ErrText ''bind''))\<rparr>),
     ap_lastGood = Some cfg_a, ap_tick = 10, ap_loads = 2, ap_log = []\<rparr>"

section \<open>Properties\<close>

text \<open>
  Property C22. Over any run of the reload loop: at most one runtime exists at a time; the
  last good configuration is one that became ready, and it is what a serving or restored
  runtime runs; and no more than two runtimes are ever launched per configuration load, so a
  failing configuration cannot make the loop restart runtimes for ever.
\<close>

theorem reload_loop_safe:
  assumes "runWithServers env foreground n = Some (nx, s)"
  shows "launches s = stops s + (if ap_current s = None then 0 else 1) \<and>
    (\<forall>c. ap_lastGood s = Some c \<longrightarrow> LogServing c \<in> set (ap_log s)) \<and>
    (\<forall>r. ap_current s = Some r \<longrightarrow> phase (Some r) \<noteq> runtimeStarting \<longrightarrow> ap_lastGood s = Some (in_cfg r)) \<and>
    launches s \<le> 2 * ap_loads s"
  using runWithServers_ok [OF assms]
  by (auto simp: next_ok_def app_inv_def runtime_ok_def budget_def live_def)

lemma sample_run:
  "\<exists>s. runWithServers (sample_env (Inr cfg_b) ArmReload) False 1 = Some (AppContinue, s) \<and>
     launches s = 2 \<and> ap_loads s = 2"
  by (simp add: runWithServers_def reload_ops sample_env_def app_start_def launches_def instance_stop_def)

theorem reload_loop_safe_witness:
  "\<exists>s. runWithServers (sample_env (Inr cfg_b) ArmReload) False 1 = Some (AppContinue, s) \<and>
     launches s \<le> 2 * ap_loads s \<and> launches s = 2"
  using sample_run reload_loop_safe by blast

text \<open>
  Property C23. The service does not exit on its own: the reload loop returns only once the
  program was asked to stop, in foreground mode, or for a listener failure, which the
  service manager must see.
\<close>

theorem reload_loop_returns_only:
  assumes "runWithServers env foreground n = Some (AppReturn err, s)"
  shows "ap_cancelled s \<or> foreground \<or> (\<exists>e. err = Some e \<and> errors_Is e ErrListenerFailure)"
  using runWithServers_ok [OF assms] by (simp add: next_ok_def)

theorem reload_loop_returns_only_witness:
  "\<exists>err s. runWithServers ((sample_env (Inr cfg_b) ArmReload)\<lparr>ae_cancel := (\<lambda>n. n = 4)\<rparr>) False 1 =
     Some (AppReturn err, s) \<and> ap_cancelled s"
proof -
  have "\<exists>err s. runWithServers ((sample_env (Inr cfg_b) ArmReload)\<lparr>ae_cancel := (\<lambda>n. n = 4)\<rparr>) False 1 =
    Some (AppReturn err, s) \<and> \<not> (\<exists>e. err = Some e \<and> errors_Is e ErrListenerFailure)"
    by (simp add: runWithServers_def reload_ops sample_env_def app_start_def instance_stop_def returning_def)
  then show ?thesis using reload_loop_returns_only by blast
qed

text \<open>
  A reload whose configuration does not load leaves a serving runtime, its
  configuration and the last good configuration alone, and launches nothing.
\<close>

theorem bad_reload_keeps_serving:
  assumes "ap_current s = Some r" "in_serving r" "\<not> ap_cancelled s" "\<And>n. \<not> ae_cancel env n"
    and "ae_pick env (ap_tick s + 2) = ArmReload" "ae_load env (ap_loads s) = Inl e"
  shows "\<exists>s' r'. app_iteration env foreground s = Some (AppContinue, s') \<and> ap_current s' = Some r' \<and>
    in_cfg r' = in_cfg r \<and> in_serving r' \<and> ap_lastGood s' = ap_lastGood s \<and> launches s' = launches s"
  by (rule reload_load_failure [OF assms])

theorem bad_reload_keeps_serving_witness:
  "\<exists>s' r'. app_iteration (sample_env (Inl (ErrText ''yaml'')) ArmReload) False serving_a = Some (AppContinue, s') \<and>
     ap_current s' = Some r' \<and> in_cfg r' = cfg_a \<and> in_serving r'"
proof -
  let ?r = "(launchRuntime cfg_a)\<lparr>in_ready := True, in_serving := True\<rparr>"
  have "ap_current serving_a = Some ?r" "in_serving ?r" "\<not> ap_cancelled serving_a" "in_cfg ?r = cfg_a"
    by (simp_all add: serving_a_def launchRuntime_def)
  with bad_reload_keeps_serving [of serving_a ?r "sample_env (Inl (ErrText ''yaml'')) ArmReload"
    "ErrText ''yaml''" False] show ?thesis
    by (auto simp: sample_env_def serving_a_def)
qed

text \<open>
  Property C24. When a reloaded configuration fails to start, the loop goes on with a new runtime
  of the last good configuration, which is rolling back, not yet considered serving, and stays
  the last good one. The cause the new runtime carries and the log tells is the very error the
  failed runtime ended with, or, if it ended without one, that it stopped unexpectedly.
\<close>

theorem failed_start_rolls_back:
  assumes "ap_current s = Some r" "phase (Some r) = runtimeStarting" "\<not> in_ready r"
    and "in_done r = Some err" "ap_lastGood s = Some good" "\<not> ap_cancelled s"
    and "\<And>n. \<not> ae_cancel env n" "\<And>n. \<not> ae_ready env n" "ae_pick env (ap_tick s + 2) = ArmDone"
  shows "\<exists>s' r' cause. app_iteration env foreground s = Some (AppContinue, s') \<and> ap_current s' = Some r' \<and>
    in_cfg r' = good \<and> phase (Some r') = runtimeRollingBack \<and> ap_lastGood s' = Some good \<and>
    cause = (case err of Some e \<Rightarrow> e | None \<Rightarrow> ErrText ''proxy runtime stopped unexpectedly'') \<and>
    in_rollbackCause r' = Some cause \<and> in_reloaded r' \<and> in_done r' = None \<and>
    ap_log s' = ap_log s @ [LogStopped, LogRestoring cause, LogLaunched good]"
  by (rule reload_rollback [OF assms])

theorem failed_start_rolls_back_witness:
  "\<exists>s' r'. app_iteration ((sample_env (Inr cfg_b) ArmDone)\<lparr>ae_ready := (\<lambda>_. False)\<rparr>) False failing_b =
     Some (AppContinue, s') \<and> ap_current s' = Some r' \<and> in_cfg r' = cfg_a \<and>
     phase (Some r') = runtimeRollingBack \<and> in_rollbackCause r' = Some (ErrText ''bind'')"
proof -
  let ?r = "(launchRuntime cfg_b)\<lparr>in_done := Some (Some (ErrText ''bind''))\<rparr>"
  have "ap_current failing_b = Some ?r" "phase (Some ?r) = runtimeStarting" "\<not> in_ready ?r"
    "in_done ?r = Some (Some (ErrText ''bind''))" "ap_lastGood failing_b = Some cfg_a" "\<not> ap_cancelled failing_b"
    by (simp_all add: failing_b_def launchRuntime_def phase_def)
  from failed_start_rolls_back [OF this, of "(sample_env (Inr cfg_b) ArmDone)\<lparr>ae_ready := (\<lambda>_. False)\<rparr>" False]
  show ?thesis by (auto simp: sample_env_def)
qed

end
