(* ===== verification/Server.thy ===== *)
theory Server
  imports Config GoTime
begin

text \<open>
  \<open>internal/proxy/server.go\<close>: the accept loop of a group listener, and the life of \<open>Run\<close> from the
  locks to the ordered teardown, over the outcomes of the calls it makes.
\<close>

section \<open>The accept loop\<close>

definition acceptRetryInitial :: int where "acceptRetryInitial = 5000000"
definition acceptRetryMax :: int where "acceptRetryMax = 1000000000"

text \<open>
  One turn of the loop: what \<open>Accept\<close> returned (with a flag for a temporary error),
  \<open>ctx.Err()\<close> at the check, and whether the context ended before the retry timer fired.
\<close>

datatype accept_result = Accepted nat | AcceptFailed goerr bool

record accept_turn =
  at_result :: accept_result
  at_ctx :: "goerr option"
  at_wait_done :: bool

datatype accept_action = StartClient nat | RetryIn int

datatype loop_outcome = LoopRunning | LoopReturned "goerr option"

definition waitForAcceptRetry :: "accept_turn \<Rightarrow> bool" where
  "waitForAcceptRetry turn = (\<not> at_wait_done turn)"

fun acceptLoop :: "accept_turn list \<Rightarrow> int \<Rightarrow> accept_action list \<times> loop_outcome" where
  "acceptLoop [] retryDelay = ([], LoopRunning)"
| "acceptLoop (turn # turns) retryDelay =
     (case at_result turn of
        AcceptFailed err temporary \<Rightarrow>
          if at_ctx turn \<noteq> None \<or> errors_Is err NetErrClosed then ([], LoopReturned None)
          else if temporary then
            (let retryDelay = (if retryDelay = 0 then acceptRetryInitial
                               else min (retryDelay * 2) acceptRetryMax)
             in if \<not> waitForAcceptRetry turn then ([RetryIn retryDelay], LoopReturned None)
                else let (actions, out) = acceptLoop turns retryDelay
                     in (RetryIn retryDelay # actions, out))
          else ([], LoopReturned (Some (ErrWrap (''terminal listener failure: '' @ err_text err)
                 [ErrSentinel ErrListenerFailure, err])))
      | Accepted conn \<Rightarrow>
          (let (actions, out) = acceptLoop turns 0 in (StartClient conn # actions, out)))"

definition backoff :: "nat \<Rightarrow> int" where
  "backoff i = min (acceptRetryInitial * 2 ^ i) acceptRetryMax"

lemma backoff_0: "backoff 0 = acceptRetryInitial"
  by (simp add: backoff_def acceptRetryInitial_def acceptRetryMax_def)

lemma backoff_Suc: "min (backoff i * 2) acceptRetryMax = backoff (Suc i)"
  by (simp add: backoff_def min_def acceptRetryInitial_def acceptRetryMax_def)

lemma backoff_bounds: "acceptRetryInitial \<le> backoff i" "backoff i \<le> acceptRetryMax" "backoff i \<noteq> 0"
proof -
  have "(1 :: int) \<le> 2 ^ i" by simp
  then show "acceptRetryInitial \<le> backoff i"
    by (simp add: backoff_def acceptRetryInitial_def acceptRetryMax_def)
  then show "backoff i \<noteq> 0" by (simp add: acceptRetryInitial_def)
  show "backoff i \<le> acceptRetryMax" by (simp add: backoff_def)
qed

text \<open>A turn that retries: a temporary failure while the server goes on.\<close>

definition retries :: "accept_turn \<Rightarrow> bool" where
  "retries turn \<longleftrightarrow> at_ctx turn = None \<and> \<not> at_wait_done turn \<and>
     (\<exists>err. at_result turn = AcceptFailed err True \<and> \<not> errors_Is err NetErrClosed)"

text \<open>The delay at loop entry after \<open>n\<close> failures in a row.\<close>

definition delay_after :: "nat \<Rightarrow> int" where
  "delay_after n = (if n = 0 then 0 else backoff (n - 1))"

lemma next_delay:
  "(if delay_after n = 0 then acceptRetryInitial else min (delay_after n * 2) acceptRetryMax) = backoff n"
proof (cases n)
  case 0
  then show ?thesis by (simp add: delay_after_def backoff_0)
next
  case (Suc k)
  then show ?thesis using backoff_bounds(3) [of k] backoff_Suc [of k] by (simp add: delay_after_def)
qed

lemma accept_retry:
  "retries turn \<Longrightarrow> acceptLoop (turn # turns) (delay_after n) =
     (RetryIn (backoff n) # fst (acceptLoop turns (delay_after (Suc n))),
      snd (acceptLoop turns (delay_after (Suc n))))"
proof -
  assume "retries turn"
  then obtain err where "at_result turn = AcceptFailed err True" "\<not> errors_Is err NetErrClosed"
    "at_ctx turn = None" "waitForAcceptRetry turn" by (auto simp: retries_def waitForAcceptRetry_def)
  moreover have "delay_after (Suc n) = backoff n" by (simp add: delay_after_def)
  ultimately show ?thesis by (simp only: acceptLoop.simps accept_result.case next_delay Let_def split_beta) simp
qed

lemma accept_retries:
  "list_all retries bad \<Longrightarrow>
   acceptLoop (bad @ turns) (delay_after n) =
     (map (\<lambda>i. RetryIn (backoff (n + i))) [0..<length bad] @
        fst (acceptLoop turns (delay_after (n + length bad))),
      snd (acceptLoop turns (delay_after (n + length bad))))"
proof (induction bad arbitrary: n)
  case (Cons turn bad)
  then have r: "retries turn" "list_all retries bad" by simp_all
  have "map (\<lambda>i. RetryIn (backoff (n + i))) [0..<Suc (length bad)] =
    RetryIn (backoff n) # map (\<lambda>i. RetryIn (backoff (Suc n + i))) [0..<length bad]"
    by (simp only: upt_conv_Cons map_Suc_upt [symmetric] list.map zero_less_Suc) (simp add: comp_def)
  then show ?case using Cons.IH [OF r(2), of "Suc n"] accept_retry [OF r(1), of "bad @ turns" n] by simp
qed simp

lemma accept_delays_bounded:
  "RetryIn d \<in> set (fst (acceptLoop turns (delay_after n))) \<Longrightarrow>
   acceptRetryInitial \<le> d \<and> d \<le> acceptRetryMax"
proof (induction turns arbitrary: n)
  case (Cons turn turns)
  show ?case
  proof (cases "retries turn")
    case True
    with Cons.prems accept_retry [OF True, of turns n] Cons.IH [of "Suc n"] backoff_bounds [of n]
    show ?thesis by auto
  next
    case False
    have "delay_after 0 = 0" by (simp add: delay_after_def)
    with False Cons.prems Cons.IH [of 0] backoff_bounds [of n] next_delay [of n] show ?thesis
      by (auto simp: retries_def waitForAcceptRetry_def Let_def split_beta
          split: accept_result.splits if_splits)
  qed
qed simp

section \<open>The life of \<open>Run\<close>\<close>

text \<open>The outcomes of the calls \<open>Run\<close> makes; \<open>re_ctx\<close> is the caller's context at each check.\<close>

record run_env =
  re_ctx :: "nat \<Rightarrow> goerr option"
  re_locks :: "goerr option"
  re_client :: "goerr option"
  re_listen :: "string \<Rightarrow> goerr option"
  re_select :: "goerr option"
  re_final_ctx :: "goerr option"
  re_close_listener :: "string \<Rightarrow> goerr option"
  re_close_upstream :: "goerr option"
  re_close_clients :: "goerr option"
  re_close_locks :: "goerr option"

datatype run_action =
    AcquireLocks "string list" | OpenUpstream | ClaimStartup string | Bind string | ServeGroup string
  | StartListing | Ready | WaitDone
  | RefuseClients | CloseListener string | CancelContext | CloseUpstream | WaitStartup
  | CloseClients | ReleaseLocks

text \<open>What the deferred teardown sees: the error, and the resources acquired so far.\<close>

record run_result =
  rr_err :: "goerr option"
  rr_trace :: "run_action list"
  rr_client :: bool
  rr_listeners :: "string list"

fun bind_groups :: "run_env \<Rightarrow> nat \<Rightarrow> group list \<Rightarrow> string list \<Rightarrow> run_action list \<Rightarrow>
    goerr option \<times> string list \<times> run_action list" where
  "bind_groups env n [] listeners trace = (None, listeners, trace)"
| "bind_groups env n (g # gs) listeners trace =
     (case re_ctx env n of
        Some e \<Rightarrow> (Some e, listeners, trace)
      | None \<Rightarrow>
     (case re_listen env (g_Socket g) of
        Some e \<Rightarrow> (Some (ErrWrap (''group socket: '' @ err_text e) [e]), listeners, trace)
      | None \<Rightarrow>
          (let listeners = listeners @ [g_Socket g]; trace = trace @ [Bind (g_Socket g)]
           in case re_ctx env (Suc n) of
                Some e \<Rightarrow> (Some e, listeners, trace)
              | None \<Rightarrow> bind_groups env (n + 2) gs listeners (trace @ [ServeGroup (g_Name g)]))))"

definition run_body :: "run_env \<Rightarrow> group list \<Rightarrow> run_result" where
  "run_body env groups =
     (let enabledGroups = filter IsEnabled groups
      in if enabledGroups = [] then
           \<lparr>rr_err = None, rr_trace = [Ready, WaitDone], rr_client = False, rr_listeners = []\<rparr>
         else case re_ctx env 0 of
           Some e \<Rightarrow> \<lparr>rr_err = Some e, rr_trace = [], rr_client = False, rr_listeners = []\<rparr>
         | None \<Rightarrow>
        (case re_locks env of
           Some e \<Rightarrow> \<lparr>rr_err = Some (ErrWrap (''acquiring group socket locks: '' @ err_text e) [e]),
                      rr_trace = [], rr_client = False, rr_listeners = []\<rparr>
         | None \<Rightarrow>
        (let trace = [AcquireLocks (map g_Socket enabledGroups)]
         in case re_client env of
              Some e \<Rightarrow> \<lparr>rr_err = Some e, rr_trace = trace, rr_client = False, rr_listeners = []\<rparr>
            | None \<Rightarrow>
                (let trace = trace @ [OpenUpstream] @ map (\<lambda>g. ClaimStartup (g_Name g)) enabledGroups;
                     (err, listeners, trace) = bind_groups env 1 enabledGroups [] trace
                 in case err of
                      Some e \<Rightarrow> \<lparr>rr_err = Some e, rr_trace = trace, rr_client = True, rr_listeners = listeners\<rparr>
                    | None \<Rightarrow> \<lparr>rr_err = re_select env, rr_trace = trace @ [StartListing, Ready, WaitDone],
                               rr_client = True, rr_listeners = listeners\<rparr>))))"

fun closeListeners :: "run_env \<Rightarrow> string list \<Rightarrow> goerr option \<Rightarrow> goerr option" where
  "closeListeners env [] closeErr = closeErr"
| "closeListeners env (l # ls) closeErr =
     (case re_close_listener env l of
        Some e \<Rightarrow> if \<not> errors_Is e NetErrClosed
                  then closeListeners env ls (errors_Join [closeErr,
                         Some (ErrWrap (''closing listener: '' @ err_text e) [e])])
                  else closeListeners env ls closeErr
      | None \<Rightarrow> closeListeners env ls closeErr)"

definition run_teardown :: "run_env \<Rightarrow> run_result \<Rightarrow> goerr option \<times> run_action list" where
  "run_teardown env r =
     (let runErr = rr_err r;
          runErr = (if re_final_ctx env \<noteq> None \<and> err_is runErr ContextCanceled then None else runErr);
          trace = rr_trace r @ [RefuseClients];
          runErr = errors_Join [runErr, closeListeners env (rr_listeners r) None];
          trace = trace @ map CloseListener (rr_listeners r) @ [CancelContext];
          (runErr, trace) =
            (if rr_client r then
               (case re_close_upstream env of
                  Some e \<Rightarrow> if \<not> errors_Is e NetErrClosed
                      then (errors_Join [runErr, Some (ErrWrap (''closing upstream connection: '' @ err_text e) [e])],
                            trace @ [CloseUpstream])
                      else (runErr, trace @ [CloseUpstream])
                | None \<Rightarrow> (runErr, trace @ [CloseUpstream]))
             else (runErr, trace));
          runErr = errors_Join [runErr, re_close_clients env];
          trace = trace @ [WaitStartup, CloseClients, ReleaseLocks];
          runErr = (case re_close_locks env of
                      Some e \<Rightarrow> errors_Join [runErr, Some (ErrWrap (''releasing group socket locks: '' @ err_text e) [e])]
                    | None \<Rightarrow> runErr)
      in (runErr, trace))"

definition server_Run :: "run_env \<Rightarrow> group list \<Rightarrow> goerr option \<times> run_action list" where
  "server_Run env groups = run_teardown env (run_body env groups)"

section \<open>What a run leaves behind\<close>

fun bound_socket :: "run_action \<Rightarrow> string option" where
  "bound_socket (Bind s) = Some s" | "bound_socket _ = None"

fun is_teardown :: "run_action \<Rightarrow> bool" where
  "is_teardown RefuseClients = True" | "is_teardown (CloseListener s) = True"
| "is_teardown CancelContext = True" | "is_teardown CloseUpstream = True"
| "is_teardown WaitStartup = True" | "is_teardown CloseClients = True"
| "is_teardown ReleaseLocks = True" | "is_teardown _ = False"

definition bound_sockets :: "run_action list \<Rightarrow> string list" where
  "bound_sockets trace = List.map_filter bound_socket trace"

lemma bound_sockets_simps [simp]:
  "bound_sockets [] = []" "bound_sockets (xs @ ys) = bound_sockets xs @ bound_sockets ys"
  "bound_sockets (a # xs) = (case bound_socket a of None \<Rightarrow> bound_sockets xs | Some s \<Rightarrow> s # bound_sockets xs)"
  by (simp_all add: bound_sockets_def List.map_filter_def split: option.split)

text \<open>The resources a result names are those its trace acquired, and nothing was torn down.\<close>

definition accounts :: "run_result \<Rightarrow> bool" where
  "accounts r \<longleftrightarrow> rr_listeners r = bound_sockets (rr_trace r) \<and>
     rr_client r = (OpenUpstream \<in> set (rr_trace r)) \<and> filter is_teardown (rr_trace r) = []"

lemma bind_groups_accounts:
  assumes "bind_groups env n gs ls trace = (err, ls', trace')"
    and "ls = bound_sockets trace" "filter is_teardown trace = []" "OpenUpstream \<in> set trace"
  shows "ls' = bound_sockets trace' \<and> filter is_teardown trace' = [] \<and> OpenUpstream \<in> set trace' \<and>
    (\<exists>more. trace' = trace @ more)"
  using assms
proof (induction env n gs ls trace rule: bind_groups.induct)
  case (2 env n g gs ls trace)
  show ?case
  proof (cases "re_ctx env n = None \<and> re_listen env (g_Socket g) = None")
    case False
    with 2(2-) show ?thesis by (auto split: option.splits)
  next
    case True
    show ?thesis
    proof (cases "re_ctx env (Suc n)")
      case (Some e)
      with True 2(2-) show ?thesis by (auto simp: Let_def)
    next
      case None
      let ?ls = "ls @ [g_Socket g]" and ?trace = "(trace @ [Bind (g_Socket g)]) @ [ServeGroup (g_Name g)]"
      from True None 2(2) have b: "bind_groups env (n + 2) gs ?ls ?trace = (err, ls', trace')"
        by (simp add: Let_def)
      from 2(1) [OF _ _ refl refl None b] True 2(3-) show ?thesis by auto
    qed
  qed
qed auto

lemma claims_simps [simp]:
  "bound_sockets (map (\<lambda>g. ClaimStartup (g_Name g)) gs) = []"
  "filter is_teardown (map (\<lambda>g. ClaimStartup (g_Name g)) gs) = []"
  by (induction gs) simp_all

lemma run_body_accounts:
  "accounts (run_body env groups) \<and>
   (rr_trace (run_body env groups) \<in> {[], [Ready, WaitDone]} \<or>
    (\<exists>more. rr_trace (run_body env groups) = AcquireLocks (map g_Socket (filter IsEnabled groups)) # more))"
proof -
  let ?gs = "filter IsEnabled groups"
  define t where "t = [AcquireLocks (map g_Socket ?gs), OpenUpstream] @ map (\<lambda>g. ClaimStartup (g_Name g)) ?gs"
  obtain err ls tr where b: "bind_groups env 1 ?gs [] t = (err, ls, tr)" by (metis prod.collapse)
  have "[] = bound_sockets t" "filter is_teardown t = []" "OpenUpstream \<in> set t"
    by (simp_all add: t_def)
  from bind_groups_accounts [OF b this] obtain more where
    "ls = bound_sockets tr" "filter is_teardown tr = []" "OpenUpstream \<in> set tr" "tr = t @ more" by blast
  with b show ?thesis
    by (auto simp: run_body_def Let_def accounts_def t_def split: option.split)
qed

lemma run_teardown_trace:
  "snd (run_teardown env r) = rr_trace r @ [RefuseClients] @ map CloseListener (rr_listeners r) @
     [CancelContext] @ (if rr_client r then [CloseUpstream] else []) @ [WaitStartup, CloseClients, ReleaseLocks]"
  by (simp add: run_teardown_def Let_def split_beta split: option.split)

lemma err_is_Join_left: "err_is e t \<Longrightarrow> err_is (errors_Join [e, e']) t"
  by (cases e) (auto simp: errors_Join_is)

lemma run_teardown_keeps_error:
  assumes "err_is (rr_err r) t" "re_final_ctx env = None"
  shows "err_is (fst (run_teardown env r)) t"
  using assms err_is_Join_left
  by (simp add: run_teardown_def Let_def split_beta split: option.split)

section \<open>Sample\<close>

definition sample_group :: group where
  "sample_group = \<lparr>g_Name = ''work'', g_Enabled = None, g_Socket = ''/run/s'', g_Keys = [], g_matchers = []\<rparr>"

definition failing_listener :: run_env where
  "failing_listener = \<lparr>re_ctx = (\<lambda>_. None), re_locks = None, re_client = None, re_listen = (\<lambda>_. None),
     re_select = Some (ErrWrap ''terminal listener failure'' [ErrSentinel ErrListenerFailure]),
     re_final_ctx = None, re_close_listener = (\<lambda>_. None), re_close_upstream = None,
     re_close_clients = None, re_close_locks = None\<rparr>"

section \<open>Properties\<close>

text \<open>
  Property C29. However \<open>Run\<close> ends, it undoes what it did, in order: new clients are refused,
  every bound listener is closed, the context is cancelled, the upstream connection is
  closed if it was created, the startup listing and then the clients are waited for, and the
  socket locks, taken before anything else, are released last; and no teardown error hides
  the failure \<open>Run\<close> ended with while its caller had not cancelled it.
\<close>

theorem run_tears_down:
  "\<exists>setup. snd (server_Run env groups) = setup @ [RefuseClients] @ map CloseListener (bound_sockets setup) @
       [CancelContext] @ (if OpenUpstream \<in> set setup then [CloseUpstream] else []) @
       [WaitStartup, CloseClients, ReleaseLocks] \<and>
     filter is_teardown setup = [] \<and>
     (setup \<in> {[], [Ready, WaitDone]} \<or>
      (\<exists>more. setup = AcquireLocks (map g_Socket (filter IsEnabled groups)) # more)) \<and>
     (err_is (rr_err (run_body env groups)) t \<and> re_final_ctx env = None \<longrightarrow>
        err_is (fst (server_Run env groups)) t)"
proof (rule exI [of _ "rr_trace (run_body env groups)"], intro conjI)
  have a: "accounts (run_body env groups)" using run_body_accounts by blast
  show "snd (server_Run env groups) = rr_trace (run_body env groups) @ [RefuseClients] @
    map CloseListener (bound_sockets (rr_trace (run_body env groups))) @ [CancelContext] @
    (if OpenUpstream \<in> set (rr_trace (run_body env groups)) then [CloseUpstream] else []) @
    [WaitStartup, CloseClients, ReleaseLocks]"
    using a by (simp add: server_Run_def run_teardown_trace accounts_def)
  show "filter is_teardown (rr_trace (run_body env groups)) = []" using a by (simp add: accounts_def)
  show "rr_trace (run_body env groups) \<in> {[], [Ready, WaitDone]} \<or>
    (\<exists>more. rr_trace (run_body env groups) = AcquireLocks (map g_Socket (filter IsEnabled groups)) # more)"
    using run_body_accounts by blast
  show "err_is (rr_err (run_body env groups)) t \<and> re_final_ctx env = None \<longrightarrow>
    err_is (fst (server_Run env groups)) t"
    using run_teardown_keeps_error by (simp add: server_Run_def)
qed

theorem run_tears_down_witness:
  "err_is (fst (server_Run failing_listener [sample_group])) ErrListenerFailure"
proof -
  have "err_is (rr_err (run_body failing_listener [sample_group])) ErrListenerFailure"
    "re_final_ctx failing_listener = None"
    by (simp_all add: run_body_def Let_def failing_listener_def sample_group_def IsEnabled_def)
  with run_tears_down [of failing_listener "[sample_group]" ErrListenerFailure] show ?thesis by blast
qed

text \<open>
  Property C32. The accept loop backs off exponentially: of failures in a row that are
  temporary, the i-th waits 5 ms doubled i times, at most one second; an accepted connection
  starts the sequence anew; and no delay of any run is outside 5 ms to one second.
\<close>

theorem accept_backoff:
  assumes "list_all retries bad" "list_all retries bad'" "at_result good = Accepted c"
    and "RetryIn d \<in> set (fst (acceptLoop turns 0))"
  shows "fst (acceptLoop (bad @ good # bad') 0) =
      map (\<lambda>i. RetryIn (min (5000000 * 2 ^ i) 1000000000)) [0..<length bad] @
      StartClient c # map (\<lambda>i. RetryIn (min (5000000 * 2 ^ i) 1000000000)) [0..<length bad'] \<and>
    5000000 \<le> d \<and> d \<le> 1000000000"
proof -
  have d0: "delay_after 0 = 0" by (simp add: delay_after_def)
  have "fst (acceptLoop (bad @ good # bad') 0) =
    map (\<lambda>i. RetryIn (backoff i)) [0..<length bad] @ StartClient c # fst (acceptLoop bad' 0)"
    using accept_retries [OF assms(1), of "good # bad'" 0] assms(3) by (simp add: d0 split_beta)
  also have "fst (acceptLoop bad' 0) = map (\<lambda>i. RetryIn (backoff i)) [0..<length bad']"
    using accept_retries [OF assms(2), of "[]" 0] by (simp add: d0)
  finally show ?thesis using accept_delays_bounded [of d turns 0] assms(4)
    by (simp add: d0 backoff_def acceptRetryInitial_def acceptRetryMax_def)
qed

definition busy_turn :: accept_turn where
  "busy_turn = \<lparr>at_result = AcceptFailed (ErrText ''too many open files'') True, at_ctx = None, at_wait_done = False\<rparr>"

theorem accept_backoff_witness:
  "fst (acceptLoop [busy_turn, busy_turn, \<lparr>at_result = Accepted 7, at_ctx = None, at_wait_done = False\<rparr>, busy_turn] 0) =
     [RetryIn 5000000, RetryIn 10000000, StartClient 7, RetryIn 5000000]"
proof -
  have "retries busy_turn" "RetryIn 5000000 \<in> set (fst (acceptLoop [busy_turn] 0))"
    by (simp_all add: retries_def busy_turn_def waitForAcceptRetry_def acceptRetryInitial_def)
  with accept_backoff [of "[busy_turn, busy_turn]" "[busy_turn]"
    "\<lparr>at_result = Accepted 7, at_ctx = None, at_wait_done = False\<rparr>" 7 5000000 "[busy_turn]"]
  show ?thesis by (simp add: upt_rec)
qed

end
