(* ===== verification/Clients.thy ===== *)
theory Clients
  imports StepSystems
begin

text \<open>
  The client bookkeeping of \<open>internal/proxy/server.go\<close>: \<open>startClient\<close>, its handler goroutine,
  \<open>refuseNewClients\<close>, the teardown of \<open>Run\<close> and \<open>closeClients\<close>, as a step system whose steps are
  the sections under \<open>clientsMu\<close>, the operations on \<open>clientWG\<close>, the calls on a connection, and
  what a goroutine serving a request can block in: a refresh of its group that another goroutine
  runs, a fetch of the shared cache that another goroutine runs, and a request to the upstream
  agent, which ends when the agent answers or when the teardown interrupts it.

  This theory shows that \<open>closeClients\<close> waits for every handler and that the wait group is never
  misused; \<open>ClientsLive\<close> that the wait ends.
\<close>

section \<open>State\<close>

text \<open>Where a connection is between \<open>Accept\<close> and the end of its handler.\<close>

datatype client_pc =
    ConnNone | ConnAccepted | ConnRefused | ConnServing | ConnUnregister | ConnFinishing | ConnGone

text \<open>
  Where \<open>Run\<close>'s teardown is: not begun, clients refused, context cancelled, upstream closed,
  startup listing over; \<open>ShutClosing cs\<close> has still to interrupt \<open>cs\<close>.
\<close>

datatype shutdown_pc =
    ShutNot | ShutRefusing | ShutCanceled | ShutUpstream | ShutResolved
  | ShutClosing "nat list" | ShutWaiting | ShutReturned

text \<open>
  The goroutines that make requests: the startup listing of \<open>Run\<close> and the handlers. Why one is
  refreshing: for the startup, for a list request, or for the miss of a sign request.
\<close>

datatype goroutine = Startup | Handler nat

datatype request_kind = KStartup | KList | KSign

text \<open>
  Where a goroutine is in its request. A refresh is a pair of a group and a ticket; the startup
  listing completes the first refresh of every group. \<open>ReqBound\<close>: waiting for \<open>bound\<close> or the end
  of the context. \<open>ReqJoined\<close>: at \<open><-refresh.done\<close>. \<open>ReqCache\<close>: at the head of the loop of
  \<open>cachedAgent.List\<close>. \<open>ReqFetchWait\<close>: at its \<open><-done\<close>. \<open>ReqListing\<close>: in \<open>List\<close> of the upstream
  client, for fetch \<open>w\<close> of the cache, or without the cache. \<open>ReqFinishing\<close>: completing the
  refreshes it owns. \<open>ReqSigning\<close>: in a signing request to the upstream agent.
\<close>

datatype request_pc =
    ReqNone
  | ReqBound "(nat \<times> nat) list"
  | ReqJoined request_kind nat
  | ReqCache request_kind "(nat \<times> nat) list"
  | ReqFetchWait request_kind "(nat \<times> nat) list" nat
  | ReqListing request_kind "(nat \<times> nat) list" "nat option"
  | ReqFinishing request_kind "(nat \<times> nat) list"
  | ReqSigning

text \<open>
  \<open>sv_open\<close>: connections not closed by the server; \<open>sv_hangup\<close>: those the client closed;
  \<open>sv_group\<close>: the group of a connection. \<open>sv_inFlight\<close> is the refresh in flight of a group,
  \<open>sv_refreshes\<close> the number of tickets handed out and \<open>sv_done\<close> the completed ones; \<open>sv_fetch\<close>,
  \<open>sv_fetches\<close> and \<open>sv_fetched\<close> are the same of the cache, which is used when \<open>sv_cached\<close>.
\<close>

record clients_state =
  sv_clients :: "nat set"
  sv_clientsClosing :: bool
  sv_clientWG :: nat
  sv_ctx :: bool
  sv_conn :: "nat \<Rightarrow> client_pc"
  sv_open :: "nat set"
  sv_hangup :: "nat set"
  sv_shutdown :: shutdown_pc
  sv_group :: "nat \<Rightarrow> nat"
  sv_request :: "goroutine \<Rightarrow> request_pc"
  sv_bound :: bool
  sv_upClosed :: bool
  sv_cached :: bool
  sv_inFlight :: "nat \<Rightarrow> nat option"
  sv_refreshes :: nat
  sv_done :: "nat set"
  sv_fetch :: "nat option"
  sv_fetches :: nat
  sv_fetched :: "nat set"

definition set_conn :: "nat \<Rightarrow> client_pc \<Rightarrow> clients_state \<Rightarrow> clients_state" where
  "set_conn c pc s = s\<lparr>sv_conn := (sv_conn s)(c := pc)\<rparr>"

section \<open>Operations\<close>

text \<open>The section of \<open>startClient\<close> under the mutex.\<close>

definition startClient :: "nat \<Rightarrow> clients_state \<Rightarrow> clients_state" where
  "startClient c s =
     (if sv_clientsClosing s \<or> sv_ctx s then set_conn c ConnRefused s
      else set_conn c ConnServing
        (s\<lparr>sv_clients := insert c (sv_clients s), sv_clientWG := Suc (sv_clientWG s)\<rparr>))"

definition close_conn :: "nat \<Rightarrow> clients_state \<Rightarrow> clients_state" where
  "close_conn c s = s\<lparr>sv_open := sv_open s - {c}\<rparr>"

text \<open>
  \<open>serveConn\<close> ends once reading from its connection or writing to it fails, and closes it; in
  the middle of a request it does neither.
\<close>

definition serve_ends :: "nat \<Rightarrow> clients_state \<Rightarrow> bool" where
  "serve_ends c s \<longleftrightarrow> sv_request s (Handler c) = ReqNone \<and> (c \<notin> sv_open s \<or> c \<in> sv_hangup s)"

definition serveConn_end :: "nat \<Rightarrow> clients_state \<Rightarrow> clients_state" where
  "serveConn_end c s = set_conn c ConnUnregister (close_conn c s)"

definition unregister :: "nat \<Rightarrow> clients_state \<Rightarrow> clients_state" where
  "unregister c s = set_conn c ConnFinishing (s\<lparr>sv_clients := sv_clients s - {c}\<rparr>)"

text \<open>\<open>WaitGroup.Done\<close> panics on a zero counter: then there is no next state.\<close>

definition wg_Done :: "nat \<Rightarrow> clients_state \<Rightarrow> clients_state option" where
  "wg_Done c s = (case sv_clientWG s of 0 \<Rightarrow> None | Suc n \<Rightarrow> Some (set_conn c ConnGone (s\<lparr>sv_clientWG := n\<rparr>)))"

definition refuseNewClients :: "clients_state \<Rightarrow> clients_state" where
  "refuseNewClients s = s\<lparr>sv_clientsClosing := True, sv_shutdown := ShutRefusing\<rparr>"

text \<open>
  The teardown between \<open>refuseNewClients\<close> and \<open>closeClients\<close>: cancel the context of \<open>Run\<close>, close
  the upstream client, wait for the startup listing.
\<close>

definition teardown_step :: "clients_state \<Rightarrow> clients_state option" where
  "teardown_step s = (case sv_shutdown s of
      ShutRefusing \<Rightarrow> Some (s\<lparr>sv_ctx := True, sv_shutdown := ShutCanceled\<rparr>)
    | ShutCanceled \<Rightarrow> Some (s\<lparr>sv_upClosed := True, sv_shutdown := ShutUpstream\<rparr>)
    | ShutUpstream \<Rightarrow> if sv_request s Startup = ReqNone then Some (s\<lparr>sv_shutdown := ShutResolved\<rparr>) else None
    | _ \<Rightarrow> None)"

text \<open>
  The steps of \<open>closeClients\<close>: the copy of the map, one interruption, the end of the loop and
  the return of \<open>Wait\<close>. The order of a copy is that of an iteration over a Go map: any.
\<close>

definition closeClients_copy :: "nat list \<Rightarrow> clients_state \<Rightarrow> clients_state option" where
  "closeClients_copy clients s =
     (if set clients = sv_clients s then Some (s\<lparr>sv_shutdown := ShutClosing clients\<rparr>) else None)"

definition closeClients_step :: "clients_state \<Rightarrow> clients_state option" where
  "closeClients_step s = (case sv_shutdown s of
      ShutClosing (c # cs) \<Rightarrow> Some (close_conn c (s\<lparr>sv_shutdown := ShutClosing cs\<rparr>))
    | ShutClosing [] \<Rightarrow> Some (s\<lparr>sv_shutdown := ShutWaiting\<rparr>)
    | ShutWaiting \<Rightarrow> if sv_clientWG s = 0 then Some (s\<lparr>sv_shutdown := ShutReturned\<rparr>) else None
    | _ \<Rightarrow> None)"

text \<open>One step of the handler of a connection.\<close>

definition handler_step :: "nat \<Rightarrow> clients_state \<Rightarrow> clients_state option" where
  "handler_step c s = (case sv_conn s c of
      ConnRefused \<Rightarrow> Some (set_conn c ConnGone (close_conn c s))
    | ConnServing \<Rightarrow> if serve_ends c s then Some (serveConn_end c s) else None
    | ConnUnregister \<Rightarrow> Some (unregister c s)
    | ConnFinishing \<Rightarrow> wg_Done c s
    | _ \<Rightarrow> None)"

section \<open>Requests\<close>

definition goto_request :: "goroutine \<Rightarrow> request_pc \<Rightarrow> clients_state \<Rightarrow> clients_state" where
  "goto_request p pc s = s\<lparr>sv_request := (sv_request s)(p := pc)\<rparr>"

text \<open>\<open>joinRefreshLocked\<close>: wait for the refresh in flight, or own a new one.\<close>

definition join_refresh :: "goroutine \<Rightarrow> request_kind \<Rightarrow> nat \<Rightarrow> clients_state \<Rightarrow> clients_state" where
  "join_refresh p k g s =
     (case sv_inFlight s g of
        Some r \<Rightarrow> goto_request p (ReqJoined k r) s
      | None \<Rightarrow> (let r = sv_refreshes s
                in goto_request p (ReqCache k [(g, r)])
                     (s\<lparr>sv_inFlight := (sv_inFlight s)(g := Some r), sv_refreshes := Suc r\<rparr>)))"

text \<open>The last section of \<open>finishRefresh\<close>, and of \<open>cachedAgent.List\<close>: the channel is closed.\<close>

definition finish_refresh :: "nat \<times> nat \<Rightarrow> clients_state \<Rightarrow> clients_state" where
  "finish_refresh x s = s\<lparr>sv_inFlight := (sv_inFlight s)(fst x := None), sv_done := insert (snd x) (sv_done s)\<rparr>"

definition finish_fetch :: "nat \<Rightarrow> clients_state \<Rightarrow> clients_state" where
  "finish_fetch w s = s\<lparr>sv_fetch := None, sv_fetched := insert w (sv_fetched s)\<rparr>"

text \<open>A request to the upstream agent is interrupted once the context or the client is closed.\<close>

definition interrupted :: "clients_state \<Rightarrow> bool" where
  "interrupted s \<longleftrightarrow> sv_ctx s \<or> sv_upClosed s"

definition upstream_returns :: "goroutine \<Rightarrow> clients_state \<Rightarrow> clients_state option" where
  "upstream_returns p s = (case sv_request s p of
      ReqListing k rs w \<Rightarrow> Some (goto_request p (ReqFinishing k rs)
        (case w of None \<Rightarrow> s | Some w \<Rightarrow> finish_fetch w s))
    | ReqSigning \<Rightarrow> Some (goto_request p ReqNone s)
    | _ \<Rightarrow> None)"

text \<open>After a refresh a list is answered, and a sign request is refused or goes upstream.\<close>

fun after_refresh :: "request_kind \<Rightarrow> request_pc \<Rightarrow> bool" where
  "after_refresh KSign pc \<longleftrightarrow> pc = ReqNone \<or> pc = ReqSigning"
| "after_refresh _ pc \<longleftrightarrow> pc = ReqNone"

text \<open>
  The steps of a goroutine in a request that need nothing from outside the program. Whether the
  cache is still valid is up to the clock.
\<close>

inductive request_step :: "goroutine \<Rightarrow> clients_state \<Rightarrow> clients_state \<Rightarrow> bool" where
  rq_bound: "sv_request s p = ReqBound rs \<Longrightarrow> sv_bound s \<or> sv_ctx s \<Longrightarrow>
     request_step p s (goto_request p (ReqCache KStartup rs) s)"
| rq_uncached: "sv_request s p = ReqCache k rs \<Longrightarrow> \<not> sv_cached s \<Longrightarrow>
     request_step p s (goto_request p (ReqListing k rs None) s)"
| rq_hit: "sv_request s p = ReqCache k rs \<Longrightarrow> sv_cached s \<Longrightarrow>
     request_step p s (goto_request p (ReqFinishing k rs) s)"
| rq_fetch_wait: "sv_request s p = ReqCache k rs \<Longrightarrow> sv_cached s \<Longrightarrow> sv_fetch s = Some w \<Longrightarrow>
     request_step p s (goto_request p (ReqFetchWait k rs w) s)"
| rq_fetch: "sv_request s p = ReqCache k rs \<Longrightarrow> sv_cached s \<Longrightarrow> sv_fetch s = None \<Longrightarrow>
     request_step p s (goto_request p (ReqListing k rs (Some (sv_fetches s)))
       (s\<lparr>sv_fetch := Some (sv_fetches s), sv_fetches := Suc (sv_fetches s)\<rparr>))"
| rq_fetched: "sv_request s p = ReqFetchWait k rs w \<Longrightarrow> w \<in> sv_fetched s \<Longrightarrow>
     request_step p s (goto_request p (ReqCache k rs) s)"
| rq_interrupted: "interrupted s \<Longrightarrow> upstream_returns p s = Some t \<Longrightarrow> request_step p s t"
| rq_finish: "sv_request s p = ReqFinishing k (x # rs) \<Longrightarrow>
     request_step p s (goto_request p (ReqFinishing k rs) (finish_refresh x s))"
| rq_finished: "sv_request s p = ReqFinishing k [] \<Longrightarrow> after_refresh k pc \<Longrightarrow>
     request_step p s (goto_request p pc s)"
| rq_joined: "sv_request s p = ReqJoined k r \<Longrightarrow> r \<in> sv_done s \<Longrightarrow> after_refresh k pc \<Longrightarrow>
     request_step p s (goto_request p pc s)"

text \<open>
  A handler reads a request only from an open connection. \<open>cl_sign\<close> is the fast path of
  \<open>authorize\<close>; \<open>cl_answer\<close> the agent's answer, which may come at any time or never.
\<close>

inductive clients_step :: "clients_state \<Rightarrow> clients_state \<Rightarrow> bool" where
  cl_accept: "sv_conn s c = ConnNone \<Longrightarrow>
     clients_step s (set_conn c ConnAccepted (s\<lparr>sv_open := insert c (sv_open s)\<rparr>))"
| cl_start: "sv_conn s c = ConnAccepted \<Longrightarrow> clients_step s (startClient c s)"
| cl_handler: "handler_step c s = Some t \<Longrightarrow> clients_step s t"
| cl_read: "sv_conn s c = ConnServing \<Longrightarrow> c \<in> sv_open s \<Longrightarrow> sv_request s (Handler c) = ReqNone \<Longrightarrow>
     k \<in> {KList, KSign} \<Longrightarrow> clients_step s (join_refresh (Handler c) k (sv_group s c) s)"
| cl_sign: "sv_conn s c = ConnServing \<Longrightarrow> c \<in> sv_open s \<Longrightarrow> sv_request s (Handler c) = ReqNone \<Longrightarrow>
     clients_step s (goto_request (Handler c) ReqSigning s)"
| cl_request: "request_step p s t \<Longrightarrow> clients_step s t"
| cl_answer: "upstream_returns p s = Some t \<Longrightarrow> clients_step s t"
| cl_bound: "clients_step s (s\<lparr>sv_bound := True\<rparr>)"
| cl_hangup: "clients_step s (s\<lparr>sv_hangup := insert c (sv_hangup s)\<rparr>)"
| cl_cancel: "clients_step s (s\<lparr>sv_ctx := True\<rparr>)"
| cl_refuse: "sv_shutdown s = ShutNot \<Longrightarrow> clients_step s (refuseNewClients s)"
| cl_teardown: "teardown_step s = Some t \<Longrightarrow> clients_step s t"
| cl_copy: "sv_shutdown s = ShutResolved \<Longrightarrow> closeClients_copy cs s = Some t \<Longrightarrow> clients_step s t"
| cl_close: "closeClients_step s = Some t \<Longrightarrow> clients_step s t"

text \<open>At the start the startup refresh of every group is claimed: group \<open>g\<close> has ticket \<open>g\<close>.\<close>

definition clients_init :: "clients_state \<Rightarrow> bool" where
  "clients_init s \<longleftrightarrow> sv_clients s = {} \<and> \<not> sv_clientsClosing s \<and> sv_clientWG s = 0 \<and>
     sv_conn s = (\<lambda>_. ConnNone) \<and> sv_open s = {} \<and> sv_shutdown s = ShutNot \<and>
     sv_request s = (\<lambda>_. ReqNone)(Startup := ReqBound (map (\<lambda>g. (g, g)) [0..<sv_refreshes s])) \<and>
     sv_inFlight s = (\<lambda>g. if g < sv_refreshes s then Some g else None) \<and> sv_done s = {} \<and>
     sv_fetch s = None \<and> sv_fetches s = 0 \<and> sv_fetched s = {}"

abbreviation clients_reach :: "clients_state \<Rightarrow> bool" where
  "clients_reach \<equiv> reach clients_init clients_step"

section \<open>The invariant\<close>

definition handled :: "clients_state \<Rightarrow> nat set" where
  "handled s = {c. sv_conn s c \<in> {ConnServing, ConnUnregister, ConnFinishing}}"

text \<open>Connections a handler still reads from, and that the loop has not come to yet.\<close>

definition uninterrupted :: "clients_state \<Rightarrow> nat set" where
  "uninterrupted s = {c. sv_conn s c = ConnServing \<and> c \<in> sv_open s}"

fun to_interrupt :: "shutdown_pc \<Rightarrow> nat set option" where
  "to_interrupt (ShutClosing cs) = Some (set cs)"
| "to_interrupt ShutWaiting = Some {}"
| "to_interrupt ShutReturned = Some {}"
| "to_interrupt _ = None"

definition clients_inv :: "clients_state \<Rightarrow> bool" where
  "clients_inv s \<longleftrightarrow>
     sv_clients s = {c. sv_conn s c \<in> {ConnServing, ConnUnregister}} \<and>
     finite (handled s) \<and> sv_clientWG s = card (handled s) \<and>
     sv_clientsClosing s = (sv_shutdown s \<noteq> ShutNot) \<and>
     (\<forall>cs. to_interrupt (sv_shutdown s) = Some cs \<longrightarrow> uninterrupted s \<subseteq> cs) \<and>
     (\<forall>c. sv_conn s c \<in> {ConnUnregister, ConnFinishing, ConnGone} \<longrightarrow> c \<notin> sv_open s) \<and>
     (sv_shutdown s = ShutReturned \<longrightarrow> handled s = {})"

lemma set_conn_sel [simp]:
  "sv_conn (set_conn c pc s) = (sv_conn s)(c := pc)" "sv_clients (set_conn c pc s) = sv_clients s"
  "sv_clientsClosing (set_conn c pc s) = sv_clientsClosing s" "sv_clientWG (set_conn c pc s) = sv_clientWG s"
  "sv_open (set_conn c pc s) = sv_open s" "sv_shutdown (set_conn c pc s) = sv_shutdown s"
  "sv_hangup (set_conn c pc s) = sv_hangup s" "sv_ctx (set_conn c pc s) = sv_ctx s"
  by (simp_all add: set_conn_def)

lemma close_conn_sel [simp]:
  "sv_conn (close_conn c s) = sv_conn s" "sv_clients (close_conn c s) = sv_clients s"
  "sv_clientsClosing (close_conn c s) = sv_clientsClosing s" "sv_clientWG (close_conn c s) = sv_clientWG s"
  "sv_open (close_conn c s) = sv_open s - {c}" "sv_shutdown (close_conn c s) = sv_shutdown s"
  by (simp_all add: close_conn_def)

text \<open>How the set of handled connections changes with one connection's position.\<close>

lemma handled_set_conn:
  "handled (set_conn c pc s) =
     (if pc \<in> {ConnServing, ConnUnregister, ConnFinishing} then insert c (handled s) else handled s - {c})"
  by (auto simp: handled_def)

lemma handled_cong: "sv_conn t = sv_conn s \<Longrightarrow> handled t = handled s"
  by (simp add: handled_def)

lemma uninterrupted_cong: "sv_conn t = sv_conn s \<Longrightarrow> sv_open t = sv_open s \<Longrightarrow> uninterrupted t = uninterrupted s"
  by (simp add: uninterrupted_def)

lemma keeps_interrupted:
  assumes "clients_inv s" "sv_shutdown t = sv_shutdown s" "uninterrupted t \<subseteq> uninterrupted s"
  shows "\<forall>cs. to_interrupt (sv_shutdown t) = Some cs \<longrightarrow> uninterrupted t \<subseteq> cs"
  using assms unfolding clients_inv_def by (auto dest: subset_trans)

lemma clients_inv_init: "clients_init s \<Longrightarrow> clients_inv s"
  by (simp add: clients_init_def clients_inv_def handled_def)

lemma startClient_inv:
  assumes "clients_inv s" "sv_conn s c = ConnAccepted"
  shows "clients_inv (startClient c s)"
proof (cases "sv_clientsClosing s \<or> sv_ctx s")
  case True
  have "handled (startClient c s) = handled s"
    using True assms(2) by (auto simp: startClient_def handled_set_conn handled_def)
  moreover have "uninterrupted (startClient c s) = uninterrupted s"
    using True assms(2) by (auto simp: startClient_def uninterrupted_def)
  moreover have "{d. sv_conn (startClient c s) d \<in> {ConnServing, ConnUnregister}} =
    {d. sv_conn s d \<in> {ConnServing, ConnUnregister}}"
    using True assms(2) by (auto simp: startClient_def)
  ultimately show ?thesis using True assms unfolding clients_inv_def
    by (auto simp: startClient_def)
next
  case False
  then have s: "startClient c s = set_conn c ConnServing
    (s\<lparr>sv_clients := insert c (sv_clients s), sv_clientWG := Suc (sv_clientWG s)\<rparr>)"
    by (simp add: startClient_def)
  have h: "handled (startClient c s) = insert c (handled s)"
    by (simp add: s handled_set_conn) (simp add: handled_def)
  have new: "c \<notin> handled s" using assms(2) by (simp add: handled_def)
  have "sv_shutdown s = ShutNot" using False assms(1) by (simp add: clients_inv_def)
  with False h new assms show ?thesis unfolding clients_inv_def by (auto simp: s)
qed

lemma handler_inv:
  assumes "clients_inv s" "handler_step c s = Some t"
  shows "clients_inv t"
proof (cases "sv_conn s c")
  case ConnServing
  with assms(2) have t: "t = serveConn_end c s" by (auto simp: handler_step_def split: if_splits)
  have "handled t = handled s"
    using ConnServing by (auto simp: t serveConn_end_def handled_def)
  moreover have "uninterrupted t \<subseteq> uninterrupted s"
    by (auto simp: t serveConn_end_def uninterrupted_def split: if_splits)
  from keeps_interrupted [OF assms(1) _ this]
  have "\<forall>cs. to_interrupt (sv_shutdown t) = Some cs \<longrightarrow> uninterrupted t \<subseteq> cs"
    by (simp add: t serveConn_end_def)
  ultimately show ?thesis using assms(1) ConnServing unfolding clients_inv_def
    by (auto simp: t serveConn_end_def)
next
  case ConnUnregister
  with assms(2) have t: "t = unregister c s" by (simp add: handler_step_def)
  have "handled t = handled s" using ConnUnregister by (auto simp: t unregister_def handled_def)
  moreover have "uninterrupted t = uninterrupted s"
    using ConnUnregister by (auto simp: t unregister_def uninterrupted_def split: if_splits)
  ultimately show ?thesis using assms(1) ConnUnregister unfolding clients_inv_def
    by (auto simp: t unregister_def)
next
  case ConnFinishing
  with assms(2) obtain n where n: "sv_clientWG s = Suc n"
    and t: "t = set_conn c ConnGone (s\<lparr>sv_clientWG := n\<rparr>)"
    by (auto simp: handler_step_def wg_Done_def split: nat.splits)
  have "handled t = handled s - {c}" by (auto simp: t handled_def)
  moreover have "c \<in> handled s" using ConnFinishing by (simp add: handled_def)
  moreover have "uninterrupted t = uninterrupted s"
    using ConnFinishing by (auto simp: t uninterrupted_def split: if_splits)
  ultimately show ?thesis using assms(1) ConnFinishing n unfolding clients_inv_def
    by (auto simp: t)
next
  case ConnRefused
  with assms(2) have t: "t = set_conn c ConnGone (close_conn c s)" by (simp add: handler_step_def)
  have "handled t = handled s" using ConnRefused by (auto simp: t handled_def)
  moreover have "uninterrupted t \<subseteq> uninterrupted s" by (auto simp: t uninterrupted_def split: if_splits)
  from keeps_interrupted [OF assms(1) _ this]
  have "\<forall>cs. to_interrupt (sv_shutdown t) = Some cs \<longrightarrow> uninterrupted t \<subseteq> cs" by (simp add: t)
  ultimately show ?thesis using assms(1) ConnRefused unfolding clients_inv_def by (auto simp: t)
qed (use assms(2) in \<open>simp_all add: handler_step_def\<close>)

lemma accept_inv:
  assumes "clients_inv s" "sv_conn s c = ConnNone"
  shows "clients_inv (set_conn c ConnAccepted (s\<lparr>sv_open := insert c (sv_open s)\<rparr>))"
proof -
  let ?t = "set_conn c ConnAccepted (s\<lparr>sv_open := insert c (sv_open s)\<rparr>)"
  have "handled ?t = handled s" using assms(2) by (auto simp: handled_def)
  moreover have "uninterrupted ?t = uninterrupted s" using assms(2) by (auto simp: uninterrupted_def)
  ultimately show ?thesis using assms unfolding clients_inv_def by auto
qed

lemma refuse_inv: "clients_inv s \<Longrightarrow> sv_shutdown s = ShutNot \<Longrightarrow> clients_inv (refuseNewClients s)"
  by (simp add: clients_inv_def refuseNewClients_def handled_def uninterrupted_def)

lemma copy_inv:
  "clients_inv s \<Longrightarrow> sv_shutdown s = ShutResolved \<Longrightarrow> closeClients_copy cs s = Some t \<Longrightarrow> clients_inv t"
  by (auto simp: clients_inv_def closeClients_copy_def handled_def uninterrupted_def split: if_splits)

lemma close_inv: "clients_inv s \<Longrightarrow> closeClients_step s = Some t \<Longrightarrow> clients_inv t"
proof -
  assume i: "clients_inv s" and t: "closeClients_step s = Some t"
  show ?thesis
  proof (cases "sv_shutdown s")
    case (ShutClosing cs)
    show ?thesis
    proof (cases cs)
      case Nil
      with t ShutClosing have "t = s\<lparr>sv_shutdown := ShutWaiting\<rparr>" by (simp add: closeClients_step_def)
      with i ShutClosing Nil show ?thesis by (simp add: clients_inv_def handled_def uninterrupted_def)
    next
      case (Cons c cs')
      with t ShutClosing have t: "t = close_conn c (s\<lparr>sv_shutdown := ShutClosing cs'\<rparr>)"
        by (simp add: closeClients_step_def)
      have "uninterrupted t = uninterrupted s - {c}" by (auto simp: t uninterrupted_def)
      moreover have "handled t = handled s" by (simp add: t handled_def)
      moreover have "uninterrupted s \<subseteq> insert c (set cs')"
        using i ShutClosing Cons by (simp add: clients_inv_def)
      ultimately show ?thesis using i ShutClosing unfolding clients_inv_def by (auto simp: t)
    qed
  next
    case ShutWaiting
    with t have "sv_clientWG s = 0" "t = s\<lparr>sv_shutdown := ShutReturned\<rparr>"
      by (simp_all add: closeClients_step_def split: if_splits)
    moreover from this i have "handled s = {}" by (auto simp: clients_inv_def)
    ultimately show ?thesis using i ShutWaiting
      by (simp add: clients_inv_def handled_cong [of "s\<lparr>sv_shutdown := ShutReturned\<rparr>" s]
          uninterrupted_cong [of "s\<lparr>sv_shutdown := ShutReturned\<rparr>" s])
  qed (use t in \<open>simp_all add: closeClients_step_def\<close>)
qed

text \<open>What requests and the steps between do not touch.\<close>

definition same_clients :: "clients_state \<Rightarrow> clients_state \<Rightarrow> bool" where
  "same_clients s t \<longleftrightarrow> sv_clients t = sv_clients s \<and> sv_clientsClosing t = sv_clientsClosing s \<and>
     sv_clientWG t = sv_clientWG s \<and> sv_conn t = sv_conn s \<and> sv_open t = sv_open s"

lemma same_clients_inv:
  "clients_inv s \<Longrightarrow> same_clients s t \<Longrightarrow> sv_shutdown t = sv_shutdown s \<Longrightarrow> clients_inv t"
  by (simp add: clients_inv_def same_clients_def handled_cong [of t s] uninterrupted_cong [of t s])

lemma teardown_inv: "clients_inv s \<Longrightarrow> teardown_step s = Some t \<Longrightarrow> clients_inv t"
  by (auto simp: teardown_step_def clients_inv_def handled_def uninterrupted_def split: shutdown_pc.splits if_splits)

lemma goto_request_sel [simp]:
  "sv_request (goto_request p pc s) = (sv_request s)(p := pc)" "sv_conn (goto_request p pc s) = sv_conn s"
  "sv_clients (goto_request p pc s) = sv_clients s" "sv_clientWG (goto_request p pc s) = sv_clientWG s"
  "sv_clientsClosing (goto_request p pc s) = sv_clientsClosing s" "sv_open (goto_request p pc s) = sv_open s"
  "sv_shutdown (goto_request p pc s) = sv_shutdown s" "sv_ctx (goto_request p pc s) = sv_ctx s"
  "sv_refreshes (goto_request p pc s) = sv_refreshes s" "sv_done (goto_request p pc s) = sv_done s"
  "sv_inFlight (goto_request p pc s) = sv_inFlight s" "sv_fetch (goto_request p pc s) = sv_fetch s"
  "sv_fetches (goto_request p pc s) = sv_fetches s" "sv_fetched (goto_request p pc s) = sv_fetched s"
  "sv_upClosed (goto_request p pc s) = sv_upClosed s" "sv_hangup (goto_request p pc s) = sv_hangup s"
  by (simp_all add: goto_request_def)

lemma finish_sel [simp]:
  "sv_request (finish_refresh x s) = sv_request s" "sv_conn (finish_refresh x s) = sv_conn s"
  "sv_clients (finish_refresh x s) = sv_clients s" "sv_clientWG (finish_refresh x s) = sv_clientWG s"
  "sv_clientsClosing (finish_refresh x s) = sv_clientsClosing s" "sv_open (finish_refresh x s) = sv_open s"
  "sv_shutdown (finish_refresh x s) = sv_shutdown s" "sv_ctx (finish_refresh x s) = sv_ctx s"
  "sv_request (finish_fetch w s) = sv_request s" "sv_conn (finish_fetch w s) = sv_conn s"
  "sv_clients (finish_fetch w s) = sv_clients s" "sv_clientWG (finish_fetch w s) = sv_clientWG s"
  "sv_clientsClosing (finish_fetch w s) = sv_clientsClosing s" "sv_open (finish_fetch w s) = sv_open s"
  "sv_shutdown (finish_fetch w s) = sv_shutdown s" "sv_ctx (finish_fetch w s) = sv_ctx s"
  by (simp_all add: finish_refresh_def finish_fetch_def)

lemma upstream_returns_same:
  "upstream_returns p s = Some t \<Longrightarrow>
     same_clients s t \<and> sv_shutdown t = sv_shutdown s \<and> sv_ctx t = sv_ctx s"
  by (auto simp: upstream_returns_def same_clients_def split: request_pc.splits option.splits)

lemma request_step_same:
  "request_step p s t \<Longrightarrow> same_clients s t \<and> sv_shutdown t = sv_shutdown s \<and> sv_ctx t = sv_ctx s"
  by (induction rule: request_step.induct) (use upstream_returns_same in \<open>simp_all add: same_clients_def\<close>)

lemma join_refresh_same:
  "same_clients s (join_refresh p k g s) \<and> sv_shutdown (join_refresh p k g s) = sv_shutdown s \<and>
     sv_ctx (join_refresh p k g s) = sv_ctx s"
  by (simp add: join_refresh_def same_clients_def Let_def split: option.split)

lemma clients_step_inv: "clients_step s t \<Longrightarrow> clients_inv s \<Longrightarrow> clients_inv t"
proof (induction rule: clients_step.induct)
  case (cl_request p s t)
  then show ?case using request_step_same same_clients_inv by blast
next
  case (cl_answer p s t)
  then show ?case using upstream_returns_same same_clients_inv by blast
next
  case (cl_read s c k)
  then show ?case using join_refresh_same same_clients_inv by blast
qed (auto intro: accept_inv startClient_inv handler_inv refuse_inv copy_inv close_inv teardown_inv
    elim: same_clients_inv simp: same_clients_def)

lemma clients_reach_inv: "clients_reach s \<Longrightarrow> clients_inv s"
  by (erule reach_invariant) (auto intro: clients_inv_init clients_step_inv)

section \<open>Scheduled runs\<close>

text \<open>
  The next step of a goroutine in a request, a valid cache apart, or \<open>None\<close> when it is blocked;
  and runs as lists of actions, for examples.
\<close>

definition next_request :: "goroutine \<Rightarrow> clients_state \<Rightarrow> clients_state option" where
  "next_request p s = (case sv_request s p of
      ReqNone \<Rightarrow> None
    | ReqBound rs \<Rightarrow> if sv_bound s \<or> sv_ctx s then Some (goto_request p (ReqCache KStartup rs) s) else None
    | ReqJoined k r \<Rightarrow> if r \<in> sv_done s then Some (goto_request p ReqNone s) else None
    | ReqCache k rs \<Rightarrow>
        if \<not> sv_cached s then Some (goto_request p (ReqListing k rs None) s)
        else (case sv_fetch s of
            Some w \<Rightarrow> Some (goto_request p (ReqFetchWait k rs w) s)
          | None \<Rightarrow> Some (goto_request p (ReqListing k rs (Some (sv_fetches s)))
              (s\<lparr>sv_fetch := Some (sv_fetches s), sv_fetches := Suc (sv_fetches s)\<rparr>)))
    | ReqFetchWait k rs w \<Rightarrow> if w \<in> sv_fetched s then Some (goto_request p (ReqCache k rs) s) else None
    | ReqListing k rs w \<Rightarrow> if interrupted s then upstream_returns p s else None
    | ReqFinishing k [] \<Rightarrow> Some (goto_request p ReqNone s)
    | ReqFinishing k (x # rs) \<Rightarrow> Some (goto_request p (ReqFinishing k rs) (finish_refresh x s))
    | ReqSigning \<Rightarrow> if interrupted s then upstream_returns p s else None)"

lemma after_refresh_None: "after_refresh k ReqNone"
  by (cases k) simp_all

lemma next_request_step: "next_request p s = Some t \<Longrightarrow> request_step p s t"
  by (auto simp: next_request_def split: request_pc.splits list.splits if_splits option.splits
      intro: request_step.intros after_refresh_None)

datatype action =
    DoAccept nat | DoStart nat | DoHandler nat | DoRead nat request_kind | DoRequest goroutine
  | DoAnswer goroutine | DoRefuse | DoTeardown | DoCopy "nat list" | DoClose

fun perform :: "action \<Rightarrow> clients_state \<Rightarrow> clients_state option" where
  "perform (DoAccept c) s =
     (if sv_conn s c = ConnNone then Some (set_conn c ConnAccepted (s\<lparr>sv_open := insert c (sv_open s)\<rparr>)) else None)"
| "perform (DoStart c) s = (if sv_conn s c = ConnAccepted then Some (startClient c s) else None)"
| "perform (DoHandler c) s = handler_step c s"
| "perform (DoRead c k) s =
     (if sv_conn s c = ConnServing \<and> c \<in> sv_open s \<and> sv_request s (Handler c) = ReqNone \<and> k \<in> {KList, KSign}
      then Some (join_refresh (Handler c) k (sv_group s c) s) else None)"
| "perform (DoRequest p) s = next_request p s"
| "perform (DoAnswer p) s = upstream_returns p s"
| "perform DoRefuse s = (if sv_shutdown s = ShutNot then Some (refuseNewClients s) else None)"
| "perform DoTeardown s = teardown_step s"
| "perform (DoCopy cs) s = (if sv_shutdown s = ShutResolved then closeClients_copy cs s else None)"
| "perform DoClose s = closeClients_step s"

fun perform_all :: "action list \<Rightarrow> clients_state \<Rightarrow> clients_state option" where
  "perform_all [] s = Some s"
| "perform_all (a # as) s = (case perform a s of None \<Rightarrow> None | Some t \<Rightarrow> perform_all as t)"

lemma perform_step: "perform a s = Some t \<Longrightarrow> clients_step s t"
  by (cases a) (auto split: if_splits intro: clients_step.intros next_request_step)

lemma perform_all_reach: "perform_all as s = Some t \<Longrightarrow> clients_reach s \<Longrightarrow> clients_reach t"
proof (induction as arbitrary: s)
  case (Cons a as)
  then show ?case by (auto split: option.splits dest: perform_step intro: reach_step)
qed simp

text \<open>
  A server of one group with two clients. The startup listing is answered; then client 7 owns a
  refresh and is blocked in an upstream request that is never answered, client 8 waits for that
  refresh, and the server is shut down up to the wait for its clients.
\<close>

definition idle_server :: clients_state where
  "idle_server = \<lparr>sv_clients = {}, sv_clientsClosing = False, sv_clientWG = 0, sv_ctx = False,
     sv_conn = (\<lambda>_. ConnNone), sv_open = {}, sv_hangup = {}, sv_shutdown = ShutNot,
     sv_group = (\<lambda>_. 0), sv_request = (\<lambda>_. ReqNone)(Startup := ReqBound [(0, 0)]), sv_bound = True,
     sv_upClosed = False, sv_cached = True, sv_inFlight = (\<lambda>g. if g < 1 then Some g else None),
     sv_refreshes = 1, sv_done = {}, sv_fetch = None, sv_fetches = 0, sv_fetched = {}\<rparr>"

definition busy_actions :: "action list" where
  "busy_actions = [DoRequest Startup, DoRequest Startup, DoAccept 7, DoAccept 8, DoStart 7, DoStart 8,
     DoAnswer Startup, DoRequest Startup, DoRequest Startup,
     DoRead 7 KList, DoRead 8 KSign, DoRequest (Handler 7),
     DoRefuse, DoTeardown, DoTeardown, DoTeardown, DoCopy [8, 7], DoClose, DoClose, DoClose]"

definition end_actions :: "action list" where
  "end_actions = [DoRequest (Handler 7), DoRequest (Handler 7), DoRequest (Handler 7), DoRequest (Handler 8),
     DoHandler 7, DoHandler 8, DoHandler 7, DoHandler 8, DoHandler 8, DoHandler 7, DoClose]"

definition waiting_server :: clients_state where
  "waiting_server = the (perform_all busy_actions idle_server)"

definition drained_server :: clients_state where
  "drained_server = the (perform_all end_actions waiting_server)"

lemmas run_defs = next_request_def upstream_returns_def join_refresh_def startClient_def handler_step_def
  serveConn_end_def serve_ends_def unregister_def wg_Done_def refuseNewClients_def teardown_step_def
  closeClients_copy_def closeClients_step_def set_conn_def close_conn_def goto_request_def
  finish_refresh_def finish_fetch_def interrupted_def

lemma idle_server_reach: "clients_reach idle_server"
  by (rule reach_init) (simp add: clients_init_def idle_server_def)

lemma waiting_server:
  "perform_all busy_actions idle_server = Some waiting_server"
  "sv_shutdown waiting_server = ShutWaiting" "sv_ctx waiting_server"
  "sv_conn waiting_server = (\<lambda>_. ConnNone)(7 := ConnServing, 8 := ConnServing)"
  "sv_request waiting_server (Handler 7) = ReqListing KList [(0, 1)] (Some 1)"
  "sv_request waiting_server (Handler 8) = ReqJoined KSign 1"
  by (simp_all add: waiting_server_def busy_actions_def idle_server_def run_defs fun_eq_iff)

lemma waiting_reach: "clients_reach waiting_server"
  using perform_all_reach [OF waiting_server(1) idle_server_reach] .

lemma drained_server:
  "perform_all (busy_actions @ end_actions) idle_server = Some drained_server" "sv_shutdown drained_server = ShutReturned"
  by (simp_all add: drained_server_def waiting_server_def busy_actions_def end_actions_def idle_server_def run_defs)

lemma drained_reach: "clients_reach drained_server"
  using perform_all_reach [OF drained_server(1) idle_server_reach] .

section \<open>Properties\<close>

lemma shut_returned_stays:
  assumes "clients_step s t" "sv_shutdown s = ShutReturned"
  shows "sv_shutdown t = ShutReturned"
  using assms
proof (induction rule: clients_step.induct)
  case (cl_request p s t)
  then show ?case using request_step_same by simp
next
  case (cl_answer p s t)
  then show ?case using upstream_returns_same by simp
next
  case (cl_read s c k)
  then show ?case using join_refresh_same by simp
qed (auto simp: startClient_def handler_step_def serveConn_end_def unregister_def wg_Done_def teardown_step_def
      closeClients_step_def split: client_pc.splits if_splits nat.splits)

text \<open>
  Property C30. The teardown waits for every client: once \<open>closeClients\<close> has returned, no
  handler runs, no client is registered and every connection that was served is closed, for
  ever after, and a connection accepted later is refused. The wait group is balanced, so
  \<open>Done\<close> never panics, and no handler is added once the shutdown has begun.
\<close>

theorem close_clients_drains:
  assumes "clients_reach s"
  shows "(sv_shutdown s = ShutReturned \<longrightarrow>
      sv_clients s = {} \<and> (\<forall>c. sv_conn s c \<in> {ConnNone, ConnAccepted, ConnRefused, ConnGone}) \<and>
      (\<forall>c. sv_conn s c = ConnGone \<longrightarrow> c \<notin> sv_open s) \<and>
      (\<forall>t. clients_step s t \<longrightarrow> sv_shutdown t = ShutReturned) \<and>
      (\<forall>c. sv_conn (startClient c s) c = ConnRefused)) \<and>
    (\<forall>c. sv_conn s c = ConnFinishing \<longrightarrow> wg_Done c s \<noteq> None) \<and>
    (\<forall>c. sv_shutdown s \<noteq> ShutNot \<longrightarrow> sv_clientWG (startClient c s) = sv_clientWG s)"
proof (intro conjI impI allI)
  note i = clients_reach_inv [OF assms, unfolded clients_inv_def]
  assume r: "sv_shutdown s = ShutReturned"
  then have none: "sv_conn s c \<notin> {ConnServing, ConnUnregister, ConnFinishing}" for c
    using i by (auto simp: handled_def)
  with i show "sv_clients s = {}" by auto
  show "sv_conn s c \<in> {ConnNone, ConnAccepted, ConnRefused, ConnGone}" for c
    using none [of c] by (cases "sv_conn s c") simp_all
  show "c \<notin> sv_open s" if "sv_conn s c = ConnGone" for c using i that by simp
  show "sv_shutdown t = ShutReturned" if "clients_step s t" for t using shut_returned_stays [OF that r] .
  show "sv_conn (startClient c s) c = ConnRefused" for c using i r by (simp add: startClient_def)
next
  note i = clients_reach_inv [OF assms, unfolded clients_inv_def]
  show "wg_Done c s \<noteq> None" if "sv_conn s c = ConnFinishing" for c
  proof -
    have "c \<in> handled s" using that by (simp add: handled_def)
    with i have "sv_clientWG s \<noteq> 0" by auto
    then show ?thesis by (simp add: wg_Done_def split: nat.splits)
  qed
  show "sv_clientWG (startClient c s) = sv_clientWG s" if "sv_shutdown s \<noteq> ShutNot" for c
    using i that by (simp add: startClient_def)
qed

theorem close_clients_drains_witness:
  "sv_shutdown drained_server = ShutReturned \<and> sv_clients drained_server = {} \<and>
   sv_conn (startClient 9 drained_server) 9 = ConnRefused \<and>
   sv_clientWG (startClient 9 waiting_server) = sv_clientWG waiting_server"
  using close_clients_drains [OF drained_reach] close_clients_drains [OF waiting_reach] drained_server(2) waiting_server(2)
  by simp

end
