(* ===== verification/ClientsLive.thy ===== *)
theory ClientsLive
  imports Clients
begin

text \<open>
  The teardown of \<open>Run\<close> does not hang on its clients. A handler in the middle of a request can be
  blocked in three ways: it waits for a refresh of its group, whose owner waits for a fetch of the
  shared cache, whose owner is in a request to the upstream agent. Every refresh and every fetch
  that is not completed has an owner, and the teardown has interrupted the requests to the agent
  before it waits; so at the end of each such chain is a goroutine that can move.
\<close>

section \<open>The invariant of the requests\<close>

fun refreshes_of :: "request_pc \<Rightarrow> nat set" where
  "refreshes_of (ReqBound rs) = snd ` set rs"
| "refreshes_of (ReqCache k rs) = snd ` set rs"
| "refreshes_of (ReqFetchWait k rs w) = snd ` set rs"
| "refreshes_of (ReqListing k rs w) = snd ` set rs"
| "refreshes_of (ReqFinishing k rs) = snd ` set rs"
| "refreshes_of _ = {}"

fun fetch_of :: "request_pc \<Rightarrow> nat set" where
  "fetch_of (ReqListing k rs (Some w)) = {w}"
| "fetch_of _ = {}"

text \<open>The tickets a goroutine waits for.\<close>

fun joined_of :: "request_pc \<Rightarrow> nat set" where
  "joined_of (ReqJoined k r) = {r}" | "joined_of _ = {}"

fun fetch_wait_of :: "request_pc \<Rightarrow> nat set" where
  "fetch_wait_of (ReqFetchWait k rs w) = {w}" | "fetch_wait_of _ = {}"

fun is_bound :: "request_pc \<Rightarrow> bool" where
  "is_bound (ReqBound rs) = True" | "is_bound _ = False"

fun ctx_over :: "shutdown_pc \<Rightarrow> bool" where
  "ctx_over ShutNot = False" | "ctx_over ShutRefusing = False" | "ctx_over _ = True"

fun startup_over :: "shutdown_pc \<Rightarrow> bool" where
  "startup_over ShutResolved = True" | "startup_over (ShutClosing cs) = True"
| "startup_over ShutWaiting = True" | "startup_over ShutReturned = True" | "startup_over _ = False"

definition request_inv :: "clients_state \<Rightarrow> bool" where
  "request_inv s \<longleftrightarrow>
     (\<forall>c. sv_request s (Handler c) \<noteq> ReqNone \<longrightarrow> sv_conn s c = ConnServing \<and> \<not> is_bound (sv_request s (Handler c))) \<and>
     {..<sv_refreshes s} \<subseteq> sv_done s \<union> (\<Union>p. refreshes_of (sv_request s p)) \<and>
     {..<sv_fetches s} \<subseteq> sv_fetched s \<union> (\<Union>p. fetch_of (sv_request s p)) \<and>
     (\<forall>g r. sv_inFlight s g = Some r \<longrightarrow> r < sv_refreshes s) \<and>
     (\<forall>w. sv_fetch s = Some w \<longrightarrow> w < sv_fetches s \<and> w \<notin> sv_fetched s) \<and>
     (\<forall>p. fetch_of (sv_request s p) \<subseteq> {..<sv_fetches s}) \<and> sv_fetched s \<subseteq> {..<sv_fetches s} \<and>
     (\<forall>p. joined_of (sv_request s p) \<subseteq> {..<sv_refreshes s} \<and> fetch_wait_of (sv_request s p) \<subseteq> {..<sv_fetches s}) \<and>
     (ctx_over (sv_shutdown s) \<longrightarrow> sv_ctx s) \<and>
     (startup_over (sv_shutdown s) \<longrightarrow> sv_request s Startup = ReqNone)"

lemma covered:
  "N \<subseteq> N0 \<union> F \<Longrightarrow> N0 \<subseteq> D0 \<union> U0 \<Longrightarrow> U0 \<subseteq> A \<union> U \<Longrightarrow> A \<subseteq> D \<union> F \<Longrightarrow> D0 \<subseteq> D \<Longrightarrow> F \<subseteq> U \<Longrightarrow> N \<subseteq> D \<union> U"
  by blast

text \<open>
  One goroutine goes on to \<open>pc\<close>: what it gives up is completed, what is new it owns, and what it
  waits for exists.
\<close>

lemma request_inv_goto:
  assumes inv: "request_inv s" and req: "sv_request t = (sv_request s)(p := pc)"
    and frame: "sv_conn t = sv_conn s" "sv_shutdown t = sv_shutdown s" "sv_ctx t = sv_ctx s"
    and who: "case p of Handler c \<Rightarrow> sv_conn s c = ConnServing \<and> \<not> is_bound pc
       | Startup \<Rightarrow> sv_request s Startup \<noteq> ReqNone"
    and refreshes: "sv_refreshes s \<le> sv_refreshes t" "{sv_refreshes s..<sv_refreshes t} \<subseteq> refreshes_of pc"
      "refreshes_of (sv_request s p) \<subseteq> sv_done t \<union> refreshes_of pc" "sv_done s \<subseteq> sv_done t"
    and fetches: "sv_fetches s \<le> sv_fetches t" "{sv_fetches s..<sv_fetches t} \<subseteq> fetch_of pc"
      "fetch_of (sv_request s p) \<subseteq> sv_fetched t \<union> fetch_of pc" "sv_fetched s \<subseteq> sv_fetched t"
    and flight: "\<And>g r. sv_inFlight t g = Some r \<Longrightarrow> sv_inFlight s g = Some r \<or> r < sv_refreshes t"
      "sv_fetch t = sv_fetch s \<and> sv_fetched t = sv_fetched s \<or>
       (\<forall>w. sv_fetch t = Some w \<longrightarrow> w < sv_fetches t \<and> w \<notin> sv_fetched t)"
      "fetch_of pc \<subseteq> {..<sv_fetches t}" "sv_fetched t \<subseteq> sv_fetched s \<union> fetch_of (sv_request s p)"
    and waits: "joined_of pc \<subseteq> {..<sv_refreshes t}" "fetch_wait_of pc \<subseteq> {..<sv_fetches t}"
  shows "request_inv t"
proof -
  have own: "(\<Union>q. f (sv_request s q)) \<subseteq> f (sv_request s p) \<union> (\<Union>q. f (sv_request t q))"
    and new: "f pc \<subseteq> (\<Union>q. f (sv_request t q))" for f :: "request_pc \<Rightarrow> nat set"
    unfolding req by (auto split: if_splits)
  note i = inv [unfolded request_inv_def]
  have grow: "{..<n} \<subseteq> {..<m} \<union> F" if "{m..<n} \<subseteq> F" for m n :: nat and F
  proof
    fix x assume "x \<in> {..<n}"
    with that show "x \<in> {..<m} \<union> F" by (cases "x < m") auto
  qed
  have r: "{..<sv_refreshes t} \<subseteq> sv_done t \<union> (\<Union>q. refreshes_of (sv_request t q))"
    by (rule covered [OF grow [OF refreshes(2)] _ own refreshes(3,4) new]) (use i in simp)
  have w: "{..<sv_fetches t} \<subseteq> sv_fetched t \<union> (\<Union>q. fetch_of (sv_request t q))"
    by (rule covered [OF grow [OF fetches(2)] _ own fetches(3,4) new]) (use i in simp)
  have h: "sv_conn t c = ConnServing \<and> \<not> is_bound (sv_request t (Handler c))"
    if "sv_request t (Handler c) \<noteq> ReqNone" for c
    using that i who frame(1) by (auto simp: req split: if_splits goroutine.splits)
  have st: "startup_over (sv_shutdown t) \<Longrightarrow> sv_request t Startup = ReqNone"
    using i who frame(2) by (auto simp: req split: if_splits goroutine.splits)
  have fl: "sv_inFlight t g = Some r \<Longrightarrow> r < sv_refreshes t" for g r
    using i flight(1) refreshes(1) by (meson less_le_trans)
  have fw: "w < sv_fetches t \<and> w \<notin> sv_fetched t" if "sv_fetch t = Some w" for w
    using i flight(2) fetches(1) that by (metis less_le_trans)
  have fo: "fetch_of (sv_request t q) \<subseteq> {..<sv_fetches t}" for q
    using i flight(3) fetches(1) by (simp add: req) (meson lessThan_subset_iff order_trans)
  have "sv_fetched s \<union> fetch_of (sv_request s p) \<subseteq> {..<sv_fetches s}" using i by simp
  then have fd: "sv_fetched t \<subseteq> {..<sv_fetches t}"
    using flight(4) fetches(1) by (meson lessThan_subset_iff order_trans)
  have j: "joined_of (sv_request t q) \<subseteq> {..<sv_refreshes t} \<and> fetch_wait_of (sv_request t q) \<subseteq> {..<sv_fetches t}" for q
    using i waits refreshes(1) fetches(1) by (simp add: req) (meson lessThan_subset_iff order_trans)
  show ?thesis unfolding request_inv_def
    by (intro conjI allI impI r w fl fw fo fd st j [THEN conjunct1] j [THEN conjunct2])
      (use i frame h fw in \<open>simp_all\<close>)
qed

lemma request_inv_serving: "request_inv s \<Longrightarrow> sv_request s (Handler c) \<noteq> ReqNone \<Longrightarrow> sv_conn s c = ConnServing"
  by (simp add: request_inv_def)

lemma request_inv_unbound: "request_inv s \<Longrightarrow> \<not> is_bound (sv_request s (Handler c))"
  by (cases "sv_request s (Handler c) = ReqNone") (simp_all add: request_inv_def)

text \<open>Who may go on to \<open>pc\<close> from a request: any position but the one of the startup.\<close>

lemma request_goes_on:
  "request_inv s \<Longrightarrow> sv_request s p \<noteq> ReqNone \<Longrightarrow> \<not> is_bound pc \<Longrightarrow>
     (case p of Handler c \<Rightarrow> sv_conn s c = ConnServing \<and> \<not> is_bound pc | Startup \<Rightarrow> sv_request s Startup \<noteq> ReqNone)"
  by (cases p) (simp_all add: request_inv_serving)

lemma after_refresh_pc:
  "after_refresh k pc \<Longrightarrow> refreshes_of pc = {} \<and> fetch_of pc = {} \<and> joined_of pc = {} \<and> fetch_wait_of pc = {} \<and> \<not> is_bound pc"
  by (cases k) auto

lemma finish_more_sel [simp]:
  "sv_done (finish_refresh x s) = insert (snd x) (sv_done s)" "sv_refreshes (finish_refresh x s) = sv_refreshes s"
  "sv_inFlight (finish_refresh x s) = (sv_inFlight s)(fst x := None)" "sv_fetch (finish_refresh x s) = sv_fetch s"
  "sv_fetches (finish_refresh x s) = sv_fetches s" "sv_fetched (finish_refresh x s) = sv_fetched s"
  "sv_done (finish_fetch w s) = sv_done s" "sv_refreshes (finish_fetch w s) = sv_refreshes s"
  "sv_inFlight (finish_fetch w s) = sv_inFlight s" "sv_fetch (finish_fetch w s) = None"
  "sv_fetches (finish_fetch w s) = sv_fetches s" "sv_fetched (finish_fetch w s) = insert w (sv_fetched s)"
  by (simp_all add: finish_refresh_def finish_fetch_def)

lemma upstream_returns_inv:
  assumes "upstream_returns p s = Some t" "request_inv s"
  shows "request_inv t"
proof (cases "sv_request s p")
  case (ReqListing k rs w)
  with assms(1) have t: "t = goto_request p (ReqFinishing k rs) (case w of None \<Rightarrow> s | Some w \<Rightarrow> finish_fetch w s)"
    by (simp add: upstream_returns_def)
  show ?thesis
    by (rule request_inv_goto [OF assms(2), where p = p and pc = "ReqFinishing k rs"])
      (use ReqListing request_goes_on [OF assms(2), of p "ReqFinishing k rs"] in \<open>auto simp: t split: option.splits\<close>)
next
  case ReqSigning
  with assms(1) have t: "t = goto_request p ReqNone s" by (simp add: upstream_returns_def)
  show ?thesis
    by (rule request_inv_goto [OF assms(2), where p = p and pc = ReqNone])
      (use ReqSigning request_goes_on [OF assms(2), of p ReqNone] in \<open>auto simp: t\<close>)
qed (use assms(1) in \<open>simp_all add: upstream_returns_def\<close>)

lemma request_step_inv: "request_step p s t \<Longrightarrow> request_inv s \<Longrightarrow> request_inv t"
proof (induction rule: request_step.induct)
  case (rq_interrupted s p t)
  then show ?case by (blast intro: upstream_returns_inv)
next
  case (rq_finished s p k pc)
  with after_refresh_pc request_goes_on [of s p pc] show ?case
    by (intro request_inv_goto [OF rq_finished.prems, where p = p and pc = pc]) auto
next
  case (rq_joined s p k r pc)
  with after_refresh_pc request_goes_on [of s p pc] show ?case
    by (intro request_inv_goto [OF rq_joined.prems, where p = p and pc = pc]) auto
next
  case (rq_finish s p k x rs)
  with request_goes_on [of s p "ReqFinishing k rs"] show ?case
    by (intro request_inv_goto [OF rq_finish.prems, where p = p and pc = "ReqFinishing k rs"]) (auto split: if_splits)
next
  case (rq_bound s p rs)
  with request_goes_on [of s p "ReqCache KStartup rs"] show ?case
    by (intro request_inv_goto [OF rq_bound.prems, where p = p and pc = "ReqCache KStartup rs"]) auto
next
  case (rq_uncached s p k rs)
  with request_goes_on [of s p "ReqListing k rs None"] show ?case
    by (intro request_inv_goto [OF rq_uncached.prems, where p = p and pc = "ReqListing k rs None"]) auto
next
  case (rq_hit s p k rs)
  with request_goes_on [of s p "ReqFinishing k rs"] show ?case
    by (intro request_inv_goto [OF rq_hit.prems, where p = p and pc = "ReqFinishing k rs"]) auto
next
  case (rq_fetch_wait s p k rs w)
  then have "w < sv_fetches s" by (simp add: request_inv_def)
  with rq_fetch_wait request_goes_on [of s p "ReqFetchWait k rs w"] show ?case
    by (intro request_inv_goto [OF rq_fetch_wait.prems, where p = p and pc = "ReqFetchWait k rs w"]) auto
next
  case (rq_fetch s p k rs)
  then have "sv_fetches s \<notin> sv_fetched s" by (auto simp: request_inv_def)
  with rq_fetch request_goes_on [of s p "ReqListing k rs (Some (sv_fetches s))"] show ?case
    by (intro request_inv_goto [OF rq_fetch.prems, where p = p and pc = "ReqListing k rs (Some (sv_fetches s))"]) auto
next
  case (rq_fetched s p k rs w)
  with request_goes_on [of s p "ReqCache k rs"] show ?case
    by (intro request_inv_goto [OF rq_fetched.prems, where p = p and pc = "ReqCache k rs"]) auto
qed

lemma join_refresh_inv:
  assumes "request_inv s" "sv_conn s c = ConnServing" "sv_request s (Handler c) = ReqNone"
  shows "request_inv (join_refresh (Handler c) k g s)"
proof (cases "sv_inFlight s g")
  case (Some r)
  with assms(1) have "r < sv_refreshes s" by (simp add: request_inv_def)
  then show ?thesis using Some assms(2,3)
    by (intro request_inv_goto [OF assms(1), where p = "Handler c" and pc = "ReqJoined k r"])
      (auto simp: join_refresh_def)
next
  case None
  then show ?thesis using assms(2,3)
    by (intro request_inv_goto [OF assms(1), where p = "Handler c" and pc = "ReqCache k [(g, sv_refreshes s)]"])
      (auto simp: join_refresh_def Let_def split: if_splits)
qed

text \<open>Steps that leave the requests alone.\<close>

lemma request_inv_keep:
  assumes inv: "request_inv s"
    and same: "sv_request t = sv_request s" "sv_refreshes t = sv_refreshes s" "sv_done t = sv_done s"
      "sv_inFlight t = sv_inFlight s" "sv_fetches t = sv_fetches s" "sv_fetched t = sv_fetched s" "sv_fetch t = sv_fetch s"
    and conn: "\<And>c. sv_conn s c = ConnServing \<Longrightarrow> sv_request s (Handler c) \<noteq> ReqNone \<Longrightarrow> sv_conn t c = ConnServing"
    and over: "ctx_over (sv_shutdown t) \<Longrightarrow> sv_ctx t" "startup_over (sv_shutdown t) \<Longrightarrow> sv_request s Startup = ReqNone"
  shows "request_inv t"
  using inv conn over unfolding request_inv_def same by simp

definition request_view where
  "request_view s = (sv_request s, sv_refreshes s, sv_done s, sv_inFlight s, sv_fetches s, sv_fetched s, sv_fetch s)"

lemma startClient_view:
  "request_view (startClient c s) = request_view s" "sv_shutdown (startClient c s) = sv_shutdown s"
  "sv_ctx (startClient c s) = sv_ctx s" "d \<noteq> c \<Longrightarrow> sv_conn (startClient c s) d = sv_conn s d"
  by (simp_all add: startClient_def request_view_def set_conn_def)

lemma handler_step_view:
  "handler_step c s = Some t \<Longrightarrow> request_view t = request_view s \<and> sv_shutdown t = sv_shutdown s \<and> sv_ctx t = sv_ctx s \<and>
     (\<forall>d. sv_conn s d = ConnServing \<and> sv_request s (Handler d) \<noteq> ReqNone \<longrightarrow> sv_conn t d = ConnServing)"
  by (auto simp: handler_step_def request_view_def serve_ends_def serveConn_end_def unregister_def wg_Done_def
      set_conn_def close_conn_def split: client_pc.splits if_splits nat.splits)

lemma clients_step_request_inv: "clients_step s t \<Longrightarrow> request_inv s \<Longrightarrow> request_inv t"
proof (induction rule: clients_step.induct)
  case (cl_handler c s t)
  from handler_step_view [OF cl_handler.hyps] cl_handler.prems show ?case
    by (intro request_inv_keep [OF cl_handler.prems]) (auto simp: request_view_def request_inv_def)
next
  case (cl_accept s c)
  then show ?case by (intro request_inv_keep [OF cl_accept.prems]) (auto simp: set_conn_def request_inv_def)
next
  case (cl_start s c)
  show ?case
  proof (intro request_inv_keep [OF cl_start.prems])
    fix d assume "sv_conn s d = ConnServing"
    with cl_start.hyps show "sv_conn (startClient c s) d = ConnServing" by (cases "d = c") (simp_all add: startClient_view)
  qed (use cl_start.prems startClient_view(1) [of c s] in \<open>auto simp: request_view_def startClient_view request_inv_def\<close>)
next
  case (cl_read s c k)
  then show ?case by (blast intro: join_refresh_inv)
next
  case (cl_sign s c)
  then show ?case
    by (intro request_inv_goto [OF cl_sign.prems, where p = "Handler c" and pc = ReqSigning]) auto
next
  case (cl_request p s t)
  then show ?case by (blast intro: request_step_inv)
next
  case (cl_answer p s t)
  then show ?case by (blast intro: upstream_returns_inv)
next
  case (cl_refuse s)
  then show ?case
    by (intro request_inv_keep [OF cl_refuse.prems]) (auto simp: refuseNewClients_def)
next
  case (cl_teardown s t)
  then show ?case
    by (intro request_inv_keep [OF cl_teardown.prems])
      (auto simp: teardown_step_def request_inv_def split: shutdown_pc.splits if_splits)
next
  case (cl_copy s cs t)
  then show ?case
    by (intro request_inv_keep [OF cl_copy.prems]) (auto simp: closeClients_copy_def request_inv_def split: if_splits)
next
  case (cl_close s t)
  then show ?case
    by (intro request_inv_keep [OF cl_close.prems])
      (auto simp: closeClients_step_def close_conn_def request_inv_def split: shutdown_pc.splits list.splits if_splits)
next
  case (cl_bound s)
  then show ?case by (intro request_inv_keep [OF cl_bound.prems]) (auto simp: request_inv_def)
next
  case (cl_hangup s c)
  then show ?case by (intro request_inv_keep [OF cl_hangup.prems]) (auto simp: request_inv_def)
next
  case (cl_cancel s)
  then show ?case by (intro request_inv_keep [OF cl_cancel.prems]) (auto simp: request_inv_def)
qed

lemma clients_init_request_inv: "clients_init s \<Longrightarrow> request_inv s"
proof -
  assume i: "clients_init s"
  then have req: "sv_request s = (\<lambda>_. ReqNone)(Startup := ReqBound (map (\<lambda>g. (g, g)) [0..<sv_refreshes s]))"
    by (simp add: clients_init_def)
  have "refreshes_of (sv_request s Startup) = {..<sv_refreshes s}"
    by (simp add: req image_image lessThan_atLeast0)
  then have "{..<sv_refreshes s} \<subseteq> (\<Union>p. refreshes_of (sv_request s p))" by blast
  then show ?thesis using i unfolding request_inv_def clients_init_def
    by (auto simp: req simp del: Union_iff split: if_splits)
qed

lemma clients_reach_request_inv: "clients_reach s \<Longrightarrow> request_inv s"
  by (erule reach_invariant) (auto intro: clients_init_request_inv clients_step_request_inv)

section \<open>No goroutine is stuck\<close>

text \<open>What \<open>p\<close> waits for is not completed, and \<open>q\<close> is to complete it.\<close>

definition blocked_on :: "clients_state \<Rightarrow> goroutine \<Rightarrow> goroutine \<Rightarrow> bool" where
  "blocked_on s p q \<longleftrightarrow>
     (joined_of (sv_request s p) - sv_done s) \<inter> refreshes_of (sv_request s q) \<noteq> {} \<or>
     (fetch_wait_of (sv_request s p) - sv_fetched s) \<inter> fetch_of (sv_request s q) \<noteq> {}"

lemma free_moves:
  assumes "sv_ctx s" "sv_request s p \<noteq> ReqNone"
    "joined_of (sv_request s p) \<subseteq> sv_done s" "fetch_wait_of (sv_request s p) \<subseteq> sv_fetched s"
  shows "next_request p s \<noteq> None"
  using assms
  by (auto simp: next_request_def interrupted_def upstream_returns_def split: request_pc.splits list.splits option.splits)

lemma fetch_waits:
  assumes "request_inv s" "sv_ctx s" "sv_request s p \<noteq> ReqNone" "joined_of (sv_request s p) \<subseteq> sv_done s"
  shows "\<exists>q. (blocked_on s)\<^sup>*\<^sup>* p q \<and> next_request q s \<noteq> None"
proof (cases "fetch_wait_of (sv_request s p) \<subseteq> sv_fetched s")
  case True
  with free_moves [OF assms(2,3,4)] show ?thesis by blast
next
  case False
  then obtain w where w: "w \<in> fetch_wait_of (sv_request s p)" "w \<notin> sv_fetched s" by blast
  with assms(1) have "w < sv_fetches s" by (auto simp: request_inv_def)
  with assms(1) w(2) obtain q where q: "w \<in> fetch_of (sv_request s q)" by (auto simp: request_inv_def)
  then have "blocked_on s p q" using w by (auto simp: blocked_on_def)
  moreover from q obtain k rs where "sv_request s q = ReqListing k rs (Some w)"
    by (cases "sv_request s q" rule: fetch_of.cases) auto
  with free_moves [OF assms(2), of q] have "next_request q s \<noteq> None" by simp
  ultimately show ?thesis by blast
qed

lemma never_stuck:
  assumes "request_inv s" "sv_ctx s" "sv_request s p \<noteq> ReqNone"
  shows "\<exists>q. (blocked_on s)\<^sup>*\<^sup>* p q \<and> next_request q s \<noteq> None"
proof (cases "joined_of (sv_request s p) \<subseteq> sv_done s")
  case True
  with fetch_waits [OF assms] show ?thesis .
next
  case False
  then obtain r where r: "r \<in> joined_of (sv_request s p)" "r \<notin> sv_done s" by blast
  with assms(1) have "r < sv_refreshes s" by (auto simp: request_inv_def)
  with assms(1) r(2) obtain q where q: "r \<in> refreshes_of (sv_request s q)" by (auto simp: request_inv_def)
  then have "blocked_on s p q" using r by (auto simp: blocked_on_def)
  moreover have "sv_request s q \<noteq> ReqNone" "joined_of (sv_request s q) = {}"
    using q by (cases "sv_request s q"; simp)+
  with fetch_waits [OF assms(1,2), of q] obtain d where "(blocked_on s)\<^sup>*\<^sup>* q d" "next_request d s \<noteq> None" by auto
  ultimately show ?thesis by (blast intro: converse_rtranclp_into_rtranclp)
qed

section \<open>The work that is left\<close>

text \<open>
  A goroutine woken by the cache starts over, so its steps alone do not get fewer; but it is woken
  once for every fetch that ends, and a goroutine in a request fetches at most once more.
\<close>

fun fetches_left :: "request_pc \<Rightarrow> nat" where
  "fetches_left (ReqBound rs) = 1"
| "fetches_left (ReqCache k rs) = 1"
| "fetches_left (ReqFetchWait k rs w) = 1"
| "fetches_left (ReqListing k rs (Some w)) = 1"
| "fetches_left _ = 0"

fun steps_left :: "nat set \<Rightarrow> request_pc \<Rightarrow> nat" where
  "steps_left F ReqNone = 0"
| "steps_left F ReqSigning = 1"
| "steps_left F (ReqJoined k r) = 2"
| "steps_left F (ReqFinishing k rs) = 2 + length rs"
| "steps_left F (ReqListing k rs w) = 3 + length rs"
| "steps_left F (ReqFetchWait k rs w) = (if w \<in> F then 6 else 4) + length rs"
| "steps_left F (ReqCache k rs) = 5 + length rs"
| "steps_left F (ReqBound rs) = 6 + length rs"

fun handler_work :: "client_pc \<Rightarrow> nat" where
  "handler_work ConnServing = 3" | "handler_work ConnUnregister = 2" | "handler_work ConnFinishing = 1"
| "handler_work _ = 0"

fun conn_work :: "clients_state \<Rightarrow> goroutine \<Rightarrow> nat" where
  "conn_work s (Handler c) = handler_work (sv_conn s c)" | "conn_work s Startup = 0"

definition running :: "clients_state \<Rightarrow> goroutine set" where
  "running s = insert Startup (Handler ` handled s)"

definition work_fetches :: "clients_state \<Rightarrow> nat" where
  "work_fetches s = (\<Sum>p \<in> running s. fetches_left (sv_request s p))"

definition work_steps :: "clients_state \<Rightarrow> nat" where
  "work_steps s = (\<Sum>p \<in> running s. steps_left (sv_fetched s) (sv_request s p) + conn_work s p)"

definition less_work :: "(clients_state \<times> clients_state) set" where
  "less_work = measures [work_fetches, work_steps]"

lemma wf_less_work: "wf less_work"
  by (simp add: less_work_def)

lemma sum_update:
  fixes f g :: "'a \<Rightarrow> nat"
  assumes "finite A" "p \<in> A" "\<And>q. q \<in> A \<Longrightarrow> q \<noteq> p \<Longrightarrow> g q = f q"
  shows "sum g A + f p = sum f A + g p"
proof -
  have "sum g (A - {p}) = sum f (A - {p})" using assms(3) by (intro sum.cong) auto
  then show ?thesis using assms(1,2) by (simp add: sum.remove [of A p])
qed

lemma finite_running: "clients_inv s \<Longrightarrow> finite (running s)"
  by (simp add: running_def clients_inv_def)

lemma in_running: "request_inv s \<Longrightarrow> sv_request s p \<noteq> ReqNone \<Longrightarrow> p \<in> running s"
  by (cases p) (auto simp: running_def handled_def dest: request_inv_serving)

lemma running_cong: "sv_conn t = sv_conn s \<Longrightarrow> running t = running s"
  by (simp add: running_def handled_def)

lemma conn_work_cong: "sv_conn t = sv_conn s \<Longrightarrow> conn_work t p = conn_work s p"
  by (cases p) simp_all

text \<open>A step of one goroutine in a request, from \<open>sv_request s p\<close> to \<open>pc\<close>.\<close>

lemma request_less_work:
  assumes fin: "clients_inv s" "request_inv s" and req: "sv_request s p \<noteq> ReqNone" "sv_request t = (sv_request s)(p := pc)"
    and conn: "sv_conn t = sv_conn s"
    and less: "fetches_left pc < fetches_left (sv_request s p) \<or>
      fetches_left pc = fetches_left (sv_request s p) \<and> sv_fetched t = sv_fetched s \<and>
      steps_left (sv_fetched s) pc < steps_left (sv_fetched s) (sv_request s p)"
  shows "(t, s) \<in> less_work"
proof -
  note p = finite_running [OF fin(1)] in_running [OF fin(2) req(1)]
  have f: "work_fetches t + fetches_left (sv_request s p) = work_fetches s + fetches_left pc"
    using sum_update [OF p, of "\<lambda>q. fetches_left (sv_request t q)" "\<lambda>q. fetches_left (sv_request s q)"]
    by (simp add: work_fetches_def running_cong [OF conn] req(2))
  have "work_steps t + (steps_left (sv_fetched s) (sv_request s p) + conn_work s p) =
      work_steps s + (steps_left (sv_fetched s) pc + conn_work s p)" if "sv_fetched t = sv_fetched s"
    using sum_update [OF p, of "\<lambda>q. steps_left (sv_fetched t) (sv_request t q) + conn_work t q"
      "\<lambda>q. steps_left (sv_fetched s) (sv_request s q) + conn_work s q"]
    by (simp add: work_steps_def running_cong [OF conn] req(2) that conn_work_cong [OF conn])
  with f less show ?thesis by (auto simp: less_work_def)
qed

lemma upstream_returns_less:
  assumes "upstream_returns p s = Some t" "clients_inv s" "request_inv s"
  shows "(t, s) \<in> less_work"
proof (cases "sv_request s p")
  case (ReqListing k rs w)
  with assms show ?thesis
    by (cases w) (auto simp: upstream_returns_def intro!: request_less_work [where p = p and pc = "ReqFinishing k rs"])
next
  case ReqSigning
  with assms show ?thesis
    by (auto simp: upstream_returns_def intro!: request_less_work [where p = p and pc = ReqNone])
qed (use assms(1) in \<open>simp_all add: upstream_returns_def\<close>)

lemma after_refresh_less: "after_refresh k pc \<Longrightarrow> fetches_left pc = 0 \<and> steps_left F pc \<le> 1"
  by (cases k) auto

lemma request_step_less:
  assumes "request_step p s t" "clients_inv s" "request_inv s"
  shows "(t, s) \<in> less_work"
  using assms
proof (induction rule: request_step.induct)
  case (rq_interrupted s p t)
  then show ?case by (blast intro: upstream_returns_less)
next
  case (rq_finished s p k pc)
  with after_refresh_less [of k pc "sv_fetched s"] show ?case
    by (intro request_less_work [where p = p and pc = pc]) auto
next
  case (rq_joined s p k r pc)
  with after_refresh_less [of k pc "sv_fetched s"] show ?case
    by (intro request_less_work [where p = p and pc = pc]) auto
next
  case (rq_fetch_wait s p k rs w)
  then have "w \<notin> sv_fetched s" by (simp add: request_inv_def)
  with rq_fetch_wait show ?case by (intro request_less_work [where p = p and pc = "ReqFetchWait k rs w"]) auto
next
  case (rq_bound s p rs)
  then show ?case by (intro request_less_work [where p = p and pc = "ReqCache KStartup rs"]) auto
next
  case (rq_uncached s p k rs)
  then show ?case by (intro request_less_work [where p = p and pc = "ReqListing k rs None"]) auto
next
  case (rq_hit s p k rs)
  then show ?case by (intro request_less_work [where p = p and pc = "ReqFinishing k rs"]) auto
next
  case (rq_fetch s p k rs)
  then show ?case by (intro request_less_work [where p = p and pc = "ReqListing k rs (Some (sv_fetches s))"]) auto
next
  case (rq_fetched s p k rs w)
  then show ?case by (intro request_less_work [where p = p and pc = "ReqCache k rs"]) auto
next
  case (rq_finish s p k x rs)
  then show ?case by (intro request_less_work [where p = p and pc = "ReqFinishing k rs"]) auto
qed

text \<open>A step of a handler outside its requests.\<close>

lemma handler_step_less:
  assumes step: "handler_step c s = Some t" and inv: "clients_inv s" "request_inv s" and c: "c \<in> handled s"
  shows "(t, s) \<in> less_work"
proof -
  have req: "sv_request s (Handler c) = ReqNone"
    using step request_inv_serving [OF inv(2), of c]
    by (cases "sv_conn s c = ConnServing") (auto simp: handler_step_def serve_ends_def split: if_splits)
  define pc where "pc = (case sv_conn s c of ConnServing \<Rightarrow> ConnUnregister | ConnUnregister \<Rightarrow> ConnFinishing | _ \<Rightarrow> ConnGone)"
  have conn: "sv_conn t = (sv_conn s)(c := pc)"
    and pc: "pc \<noteq> ConnServing" "handler_work pc < handler_work (sv_conn s c)"
    using step c by (auto simp: pc_def handler_step_def handled_def serveConn_end_def unregister_def wg_Done_def
        split: if_splits nat.splits)
  have view: "sv_request t = sv_request s" "sv_fetched t = sv_fetched s"
    using handler_step_view [OF step] by (simp_all add: request_view_def)
  have sub: "running t \<subseteq> running s" using conn c by (auto simp: running_def handled_def split: if_splits)
  have gone: "sv_request t p = ReqNone \<and> conn_work t p = 0" if "p \<in> running s - running t" for p
  proof -
    from that obtain d where "p = Handler d" "d \<notin> handled t" by (auto simp: running_def)
    then show ?thesis using in_running [OF inv(2), of p] view(1) that conn req request_inv_serving [OF inv(2), of d]
      by (cases "sv_conn t d") (auto simp: handled_def split: if_splits)
  qed
  have fin: "finite (running s)" "Handler c \<in> running s" using finite_running [OF inv(1)] c by (simp_all add: running_def)
  have "work_fetches t = work_fetches s"
    unfolding work_fetches_def view using sub fin(1) gone view(1) by (intro sum.mono_neutral_left) auto
  moreover have "work_steps t = (\<Sum>p \<in> running s. steps_left (sv_fetched s) (sv_request s p) + conn_work t p)"
    unfolding work_steps_def view using sub fin(1) gone view(1) by (intro sum.mono_neutral_left) auto
  moreover have "conn_work t q = conn_work s q" if "q \<noteq> Handler c" for q
    using that conn by (cases q) auto
  then have "(\<Sum>p \<in> running s. steps_left (sv_fetched s) (sv_request s p) + conn_work t p) + handler_work (sv_conn s c) =
    work_steps s + handler_work pc"
    using sum_update [OF fin, of "\<lambda>p. steps_left (sv_fetched s) (sv_request s p) + conn_work t p"
      "\<lambda>p. steps_left (sv_fetched s) (sv_request s p) + conn_work s p"] conn req
    by (simp add: work_steps_def)
  ultimately show ?thesis using pc(2) by (simp add: less_work_def)
qed

lemma work_keep:
  assumes "sv_conn t = sv_conn s" "request_view t = request_view s"
  shows "work_fetches t = work_fetches s \<and> work_steps t = work_steps s"
  using assms by (simp add: work_fetches_def work_steps_def running_cong [OF assms(1)] conn_work_cong [OF assms(1)] request_view_def)

lemma work_keep_conn:
  assumes "sv_conn t = (sv_conn s)(c := pc)" "request_view t = request_view s"
    "handler_work (sv_conn s c) = 0" "pc \<notin> {ConnServing, ConnUnregister, ConnFinishing}"
  shows "work_fetches t = work_fetches s \<and> work_steps t = work_steps s"
proof -
  have "handler_work pc = 0" using assms(4) by (cases pc) auto
  moreover have "sv_conn s c \<notin> {ConnServing, ConnUnregister, ConnFinishing}" using assms(3) by auto
  ultimately have "running t = running s" "conn_work t p = conn_work s p" for p
    using assms by (auto simp: running_def handled_def) (cases p; simp)
  then show ?thesis using assms(2) by (simp add: work_fetches_def work_steps_def request_view_def)
qed

text \<open>
  While \<open>closeClients\<close> waits every step of the server leaves less to do, or as much, and it goes on
  waiting until it has returned.
\<close>

lemma waiting_work:
  assumes "clients_step s t" "clients_inv s" "request_inv s" "sv_shutdown s = ShutWaiting"
  shows "(t, s) \<in> less_work \<or> work_fetches t = work_fetches s \<and> work_steps t = work_steps s"
  using assms
proof (induction rule: clients_step.induct)
  case (cl_accept s c)
  then show ?case
    by (intro disjI2 work_keep_conn [where c = c and pc = ConnAccepted]) (auto simp: request_view_def set_conn_def)
next
  case (cl_start s c)
  then have "startClient c s = set_conn c ConnRefused s" by (simp add: clients_inv_def startClient_def)
  with cl_start show ?case
    by (intro disjI2 work_keep_conn [where c = c and pc = ConnRefused]) (auto simp: request_view_def set_conn_def)
next
  case (cl_handler c s t)
  show ?case
  proof (cases "c \<in> handled s")
    case True
    with handler_step_less [OF cl_handler.hyps] cl_handler.prems show ?thesis by blast
  next
    case False
    with cl_handler.hyps have "sv_conn s c = ConnRefused" "sv_conn t = (sv_conn s)(c := ConnGone)"
      by (auto simp: handler_step_def handled_def split: client_pc.splits)
    with handler_step_view [OF cl_handler.hyps] show ?thesis
      by (intro disjI2 work_keep_conn [where c = c and pc = ConnGone]) auto
  qed
next
  case (cl_read s c k)
  then have "c \<notin> sv_open s" by (auto simp: clients_inv_def uninterrupted_def)
  with cl_read show ?case by simp
next
  case (cl_sign s c)
  then have "c \<notin> sv_open s" by (auto simp: clients_inv_def uninterrupted_def)
  with cl_sign show ?case by simp
next
  case (cl_request p s t)
  then show ?case using request_step_less by blast
next
  case (cl_answer p s t)
  then show ?case using upstream_returns_less by blast
next
  case (cl_close s t)
  then have "t = s\<lparr>sv_shutdown := ShutReturned\<rparr>" by (simp add: closeClients_step_def split: if_splits)
  then show ?case by (intro disjI2 work_keep) (simp_all add: request_view_def)
next
  case (cl_bound s)
  show ?case by (intro disjI2 work_keep) (simp_all add: request_view_def)
next
  case (cl_hangup s c)
  show ?case by (intro disjI2 work_keep) (simp_all add: request_view_def)
next
  case (cl_cancel s)
  show ?case by (intro disjI2 work_keep) (simp_all add: request_view_def)
qed (simp_all add: teardown_step_def)

text \<open>A step of a handler: outside its requests or inside.\<close>

definition handler_moves :: "nat \<Rightarrow> clients_state \<Rightarrow> clients_state \<Rightarrow> bool" where
  "handler_moves c s t \<longleftrightarrow> handler_step c s = Some t \<or> next_request (Handler c) s = Some t"

lemma handler_moves_step: "handler_moves c s t \<Longrightarrow> clients_step s t"
  by (auto simp: handler_moves_def intro: cl_handler cl_request next_request_step)

lemma handler_moves_less:
  assumes "handler_moves c s t" "clients_inv s" "request_inv s" "c \<in> handled s"
  shows "(t, s) \<in> less_work"
  using assms handler_step_less request_step_less next_request_step unfolding handler_moves_def by blast

text \<open>Whoever is at the end of a chain of waiting goroutines while the server waits, is a handler.\<close>

lemma waiting_handler:
  assumes inv: "clients_inv s" "request_inv s" and shut: "sv_shutdown s = ShutWaiting" and c: "c \<in> handled s"
  shows "\<exists>d t. d \<in> handled s \<and> (blocked_on s)\<^sup>*\<^sup>* (Handler c) (Handler d) \<and> handler_moves d s t"
proof (cases "sv_request s (Handler c) = ReqNone")
  case True
  have "sv_clientWG s \<noteq> 0" using inv(1) c by (auto simp: clients_inv_def)
  moreover have "serve_ends c s" if "sv_conn s c = ConnServing"
    using inv(1) shut that True by (auto simp: clients_inv_def uninterrupted_def serve_ends_def)
  ultimately have "handler_step c s \<noteq> None"
    using c by (auto simp: handler_step_def handled_def wg_Done_def split: nat.splits)
  with c show ?thesis by (auto simp: handler_moves_def)
next
  case False
  have late: "sv_ctx s" "sv_request s Startup = ReqNone" using inv(2) shut by (simp_all add: request_inv_def)
  from never_stuck [OF inv(2) late(1) False] obtain q t where q: "(blocked_on s)\<^sup>*\<^sup>* (Handler c) q" "next_request q s = Some t"
    by auto
  then have "sv_request s q \<noteq> ReqNone" by (auto simp: next_request_def)
  with late(2) request_inv_serving [OF inv(2)] obtain d where "q = Handler d" "d \<in> handled s"
    by (cases q) (auto simp: handled_def)
  with q show ?thesis by (auto simp: handler_moves_def)
qed

text \<open>
  Property C31. The teardown does not hang on a client, not even on one in the middle of a request
  to an agent that never answers. While \<open>closeClients\<close> waits, every handler can take its next step
  or waits, through a refresh of its group and a fetch of the cache, for a handler that can; every
  such step leaves less to do in a well-founded order, and no step of the server, its environment
  included, leaves more; once no handler is left the wait returns. And before that, once the
  context is cancelled, the startup listing can move or waits for a goroutine that can.
\<close>

theorem close_clients_returns:
  assumes "clients_reach s"
  shows "(sv_shutdown s = ShutWaiting \<longrightarrow>
      (\<forall>c \<in> handled s. \<exists>d \<in> handled s. \<exists>t. (blocked_on s)\<^sup>*\<^sup>* (Handler c) (Handler d) \<and> handler_moves d s t) \<and>
      (\<forall>c t. c \<in> handled s \<and> handler_moves c s t \<longrightarrow> clients_step s t \<and> (t, s) \<in> less_work) \<and>
      (\<forall>t. clients_step s t \<longrightarrow> (t, s) \<in> less_work \<or> work_fetches t = work_fetches s \<and> work_steps t = work_steps s) \<and>
      (handled s = {} \<longrightarrow> (\<exists>t. closeClients_step s = Some t \<and> sv_shutdown t = ShutReturned))) \<and>
    (sv_ctx s \<and> sv_request s Startup \<noteq> ReqNone \<longrightarrow>
      (\<exists>q. (blocked_on s)\<^sup>*\<^sup>* Startup q \<and> next_request q s \<noteq> None)) \<and>
    wf less_work"
proof -
  note i = clients_reach_inv [OF assms] clients_reach_request_inv [OF assms]
  have "sv_clientWG s = card (handled s)" using i(1) by (simp add: clients_inv_def)
  then have "\<exists>t. closeClients_step s = Some t \<and> sv_shutdown t = ShutReturned"
    if "sv_shutdown s = ShutWaiting" "handled s = {}" using that by (simp add: closeClients_step_def)
  then show ?thesis
    using waiting_handler [OF i] handler_moves_less [OF _ i] handler_moves_step waiting_work [OF _ i]
      never_stuck [OF i(2)] wf_less_work by blast
qed

text \<open>Client 8 waits for client 7, whose request to the agent has been interrupted.\<close>

theorem close_clients_returns_witness:
  "sv_shutdown waiting_server = ShutWaiting \<and> handler_step 8 waiting_server = None \<and>
   next_request (Handler 8) waiting_server = None \<and>
   (\<exists>d \<in> handled waiting_server. \<exists>t. (blocked_on waiting_server)\<^sup>*\<^sup>* (Handler 8) (Handler d) \<and> handler_moves d waiting_server t)"
proof -
  have "8 \<in> handled waiting_server" by (simp add: handled_def waiting_server)
  moreover have "handler_step 8 waiting_server = None"
    by (simp add: handler_step_def serve_ends_def waiting_server)
  moreover have "1 \<notin> sv_done waiting_server"
    by (simp add: waiting_server_def busy_actions_def idle_server_def run_defs)
  then have "next_request (Handler 8) waiting_server = None" by (simp add: next_request_def waiting_server)
  ultimately show ?thesis using close_clients_returns [OF waiting_reach] waiting_server(2) by blast
qed

end
