(* ===== verification/GoQuote.thy ===== *)
theory GoQuote
  imports GoStrings
begin

text \<open>
  Go's \<open>unicode/utf8\<close> and \<open>strconv\<close> quoting, on strings as byte lists: \<open>Quote\<close>,
  \<open>QuotedPrefix\<close> and \<open>Unquote\<close> for double-quoted text (the program passes nothing else).
  The table of printable code points above Latin-1 is the parameter \<open>pr\<close>.
\<close>

section \<open>UTF-8\<close>

abbreviation code :: "char \<Rightarrow> nat" where
  "code c \<equiv> of_char c"

definition in_range :: "nat \<Rightarrow> nat \<Rightarrow> nat \<Rightarrow> bool" where
  "in_range lo hi n \<longleftrightarrow> lo \<le> n \<and> n \<le> hi"

text \<open>The code point at the start of a string and its width, if the string starts with one.\<close>

definition decode2 :: "nat \<Rightarrow> nat \<Rightarrow> (nat \<times> nat) option" where
  "decode2 b0 b1 = (if in_range 194 223 b0 \<and> in_range 128 191 b1
     then Some ((b0 - 192) * 64 + (b1 - 128), 2) else None)"

definition decode3 :: "nat \<Rightarrow> nat \<Rightarrow> nat \<Rightarrow> (nat \<times> nat) option" where
  "decode3 b0 b1 b2 =
     (if in_range 224 239 b0 \<and> in_range (if b0 = 224 then 160 else 128) (if b0 = 237 then 159 else 191) b1 \<and>
         in_range 128 191 b2
      then Some (((b0 - 224) * 64 + (b1 - 128)) * 64 + (b2 - 128), 3) else None)"

definition decode4 :: "nat \<Rightarrow> nat \<Rightarrow> nat \<Rightarrow> nat \<Rightarrow> (nat \<times> nat) option" where
  "decode4 b0 b1 b2 b3 =
     (if in_range 240 244 b0 \<and> in_range (if b0 = 240 then 144 else 128) (if b0 = 244 then 143 else 191) b1 \<and>
         in_range 128 191 b2 \<and> in_range 128 191 b3
      then Some ((((b0 - 240) * 64 + (b1 - 128)) * 64 + (b2 - 128)) * 64 + (b3 - 128), 4) else None)"

fun utf8_decode :: "string \<Rightarrow> (nat \<times> nat) option" where
  "utf8_decode [] = None"
| "utf8_decode (c0 # s) =
     (if code c0 < 128 then Some (code c0, 1)
      else if code c0 < 224 then (case s of c1 # _ \<Rightarrow> decode2 (code c0) (code c1) | _ \<Rightarrow> None)
      else if code c0 < 240
      then (case s of c1 # c2 # _ \<Rightarrow> decode3 (code c0) (code c1) (code c2) | _ \<Rightarrow> None)
      else (case s of c1 # c2 # c3 # _ \<Rightarrow> decode4 (code c0) (code c1) (code c2) (code c3) | _ \<Rightarrow> None))"

definition RuneError :: nat where "RuneError = 65533"

definition DecodeRune :: "string \<Rightarrow> nat \<times> nat" where
  "DecodeRune s = (case utf8_decode s of Some rw \<Rightarrow> rw | None \<Rightarrow> (RuneError, if s = [] then 0 else 1))"

definition ValidRune :: "nat \<Rightarrow> bool" where
  "ValidRune r \<longleftrightarrow> r < 55296 \<or> (57343 < r \<and> r \<le> 1114111)"

definition encode_valid :: "nat \<Rightarrow> string" where
  "encode_valid r =
     (if r < 128 then [char_of r]
      else if r < 2048 then [char_of (192 + r div 64), char_of (128 + r mod 64)]
      else if r < 65536
      then [char_of (224 + r div 4096), char_of (128 + r div 64 mod 64), char_of (128 + r mod 64)]
      else [char_of (240 + r div 262144), char_of (128 + r div 4096 mod 64),
            char_of (128 + r div 64 mod 64), char_of (128 + r mod 64)])"

definition AppendRune :: "nat \<Rightarrow> string" where
  "AppendRune r = encode_valid (if ValidRune r then r else RuneError)"

function ValidString :: "string \<Rightarrow> bool" where
  "ValidString s =
     (if s = [] then True
      else case utf8_decode s of None \<Rightarrow> False | Some (r, w) \<Rightarrow> ValidString (drop (max 1 w) s))"
  by pat_completeness auto
termination by (relation "measure length") auto

declare ValidString.simps [simp del]

lemma code_less: "code c < 256"
  by (cases c) (simp add: of_char_def)

lemma div_mod_parts:
  fixes a b m :: nat
  assumes "b < m"
  shows "(a * m + b) div m = a" "(a * m + b) mod m = b"
  using assms by simp_all

lemma decode2_spec:
  assumes "decode2 (code c0) (code c1) = Some (r, w)"
  shows "w = 2 \<and> ValidRune r \<and> 128 \<le> r \<and> encode_valid r = [c0, c1]"
proof -
  from assms have b: "194 \<le> code c0" "code c0 \<le> 223" "128 \<le> code c1" "code c1 \<le> 191"
    and r: "r = (code c0 - 192) * 64 + (code c1 - 128)" and w: "w = 2"
    by (auto simp: decode2_def in_range_def split: if_splits)
  have "r div 64 = code c0 - 192" "r mod 64 = code c1 - 128"
    unfolding r by (rule div_mod_parts, use b in linarith)+
  moreover have "128 \<le> r" "r < 2048" using b unfolding r by linarith+
  ultimately show ?thesis using b w by (simp add: encode_valid_def ValidRune_def)
qed

lemma decode3_spec:
  assumes "decode3 (code c0) (code c1) (code c2) = Some (r, w)"
  shows "w = 3 \<and> ValidRune r \<and> 128 \<le> r \<and> encode_valid r = [c0, c1, c2]"
proof -
  from assms have b: "224 \<le> code c0" "code c0 \<le> 239" "128 \<le> code c1" "code c1 \<le> 191"
      "128 \<le> code c2" "code c2 \<le> 191"
    and e0: "code c0 = 224 \<Longrightarrow> 160 \<le> code c1" and ed: "code c0 = 237 \<Longrightarrow> code c1 \<le> 159"
    and r: "r = ((code c0 - 224) * 64 + (code c1 - 128)) * 64 + (code c2 - 128)" and w: "w = 3"
    by (auto simp: decode3_def in_range_def split: if_splits)
  obtain x y z where c: "code c0 = 224 + x" "code c1 = 128 + y" "code c2 = 128 + z"
    using b by (metis le_Suc_ex)
  note b = b [unfolded c] and e0 = e0 [unfolded c] and ed = ed [unfolded c]
  have r: "r = (x * 64 + y) * 64 + z" using r by (simp add: c)
  have yz: "y < 64" "z < 64" "x \<le> 15" using b by simp_all
  note parts = div_mod_parts [OF yz(2), of "x * 64 + y"] div_mod_parts [OF yz(1), of x]
  have "r div 4096 = r div 64 div 64" by (simp add: div_mult2_eq [symmetric])
  with parts have d: "r div 4096 = x" "r div 64 mod 64 = y" "r mod 64 = z" by (simp_all add: r)
  have lo: "2048 \<le> r"
  proof (cases "x = 0")
    case True
    with e0 show ?thesis by (simp add: r)
  next
    case False
    then show ?thesis by (simp add: r)
  qed
  have hi: "r < 65536" using yz by (simp add: r)
  have "r < 55296 \<or> 57343 < r"
  proof (cases "x = 13")
    case True
    with ed have "y \<le> 31" by simp
    with True yz show ?thesis by (simp add: r)
  next
    case False
    then have "x \<le> 12 \<or> 14 \<le> x" by linarith
    with yz show ?thesis by (auto simp: r)
  qed
  with lo hi d w show ?thesis using c by (auto simp: encode_valid_def ValidRune_def simp flip: c)
qed

lemma decode4_spec:
  assumes "decode4 (code c0) (code c1) (code c2) (code c3) = Some (r, w)"
  shows "w = 4 \<and> ValidRune r \<and> 128 \<le> r \<and> encode_valid r = [c0, c1, c2, c3]"
proof -
  from assms have b: "240 \<le> code c0" "code c0 \<le> 244" "128 \<le> code c1" "code c1 \<le> 191"
      "128 \<le> code c2" "code c2 \<le> 191" "128 \<le> code c3" "code c3 \<le> 191"
    and f0: "code c0 = 240 \<Longrightarrow> 144 \<le> code c1" and f4: "code c0 = 244 \<Longrightarrow> code c1 \<le> 143"
    and r: "r = (((code c0 - 240) * 64 + (code c1 - 128)) * 64 + (code c2 - 128)) * 64 + (code c3 - 128)"
    and w: "w = 4"
    by (auto simp: decode4_def in_range_def split: if_splits)
  obtain x y z v where c: "code c0 = 240 + x" "code c1 = 128 + y" "code c2 = 128 + z" "code c3 = 128 + v"
    using b by (metis le_Suc_ex)
  note b = b [unfolded c] and f0 = f0 [unfolded c] and f4 = f4 [unfolded c]
  have r: "r = ((x * 64 + y) * 64 + z) * 64 + v" using r by (simp add: c)
  have yz: "y < 64" "z < 64" "v < 64" "x \<le> 4" using b by simp_all
  have "r div 64 = (x * 64 + y) * 64 + z" "r mod 64 = v"
    unfolding r by (rule div_mod_parts [OF yz(3)])+
  moreover have "((x * 64 + y) * 64 + z) div 64 = x * 64 + y" "((x * 64 + y) * 64 + z) mod 64 = z"
    "(x * 64 + y) div 64 = x" "(x * 64 + y) mod 64 = y"
    by (rule div_mod_parts [OF yz(2)] div_mod_parts [OF yz(1)])+
  moreover have "r div 4096 = r div 64 div 64" "r div 262144 = r div 64 div 64 div 64"
    by (simp_all add: div_mult2_eq [symmetric])
  ultimately have d: "r div 262144 = x" "r div 4096 mod 64 = y" "r div 64 mod 64 = z" "r mod 64 = v"
    by (simp_all only:)
  have lo: "65536 \<le> r"
  proof (cases "x = 0")
    case True
    with f0 show ?thesis by (simp add: r)
  next
    case False
    then show ?thesis by (simp add: r)
  qed
  have hi: "r \<le> 1114111"
  proof (cases "x = 4")
    case True
    with f4 yz show ?thesis by (simp add: r)
  next
    case False
    with yz show ?thesis by (simp add: r)
  qed
  from lo hi d w show ?thesis using c by (auto simp: encode_valid_def ValidRune_def simp flip: c)
qed

text \<open>Decoding looks at the bytes of its code point only, which are its encoding.\<close>

lemma decode_encode:
  assumes "utf8_decode s = Some (r, w)"
  shows "ValidRune r \<and> 0 < w \<and> w \<le> length s \<and> take w s = encode_valid r \<and>
    (\<forall>t. utf8_decode (take w s @ t) = Some (r, w)) \<and> (r < 128 \<longleftrightarrow> code (hd s) < 128)"
proof -
  obtain c0 s1 where s: "s = c0 # s1" using assms by (cases s) auto
  consider "code c0 < 128" | "\<not> code c0 < 128" "code c0 < 224"
    | "\<not> code c0 < 224" "code c0 < 240" | "\<not> code c0 < 240" by linarith
  then show ?thesis
  proof cases
    case 1
    with assms show ?thesis by (auto simp: s ValidRune_def encode_valid_def)
  next
    case 2
    with assms obtain c1 s2 where s1: "s1 = c1 # s2" and d: "decode2 (code c0) (code c1) = Some (r, w)"
      by (auto simp: s split: list.splits)
    from decode2_spec [OF d] d 2 show ?thesis by (auto simp: s s1 numeral_2_eq_2)
  next
    case 3
    with assms obtain c1 c2 s2 where s1: "s1 = c1 # c2 # s2"
      and d: "decode3 (code c0) (code c1) (code c2) = Some (r, w)"
      by (auto simp: s split: list.splits)
    from decode3_spec [OF d] d 3 show ?thesis by (auto simp: s s1 numeral_3_eq_3)
  next
    case 4
    with assms obtain c1 c2 c3 s2 where s1: "s1 = c1 # c2 # c3 # s2"
      and d: "decode4 (code c0) (code c1) (code c2) (code c3) = Some (r, w)"
      by (auto simp: s split: list.splits)
    from decode4_spec [OF d] d 4 show ?thesis by (auto simp: s s1 eval_nat_numeral)
  qed
qed

section \<open>\<open>Quote\<close>\<close>

definition hex_digit :: "nat \<Rightarrow> char" where
  "hex_digit d = char_of (if d < 10 then 48 + d else 87 + d)"

text \<open>\<open>hex n v\<close>: the last \<open>n\<close> hexadecimal digits of \<open>v\<close>.\<close>

fun hex :: "nat \<Rightarrow> nat \<Rightarrow> string" where
  "hex 0 v = []"
| "hex (Suc n) v = hex n (v div 16) @ [hex_digit (v mod 16)]"

abbreviation dquote :: char where "dquote \<equiv> CHR 0x22"
abbreviation backslash :: char where "backslash \<equiv> CHR 0x5C"

definition IsPrint :: "(nat \<Rightarrow> bool) \<Rightarrow> nat \<Rightarrow> bool" where
  "IsPrint pr r = (if r \<le> 255 then in_range 32 126 r \<or> (in_range 161 255 r \<and> r \<noteq> 173) else pr r)"

definition escapes :: "(nat \<times> char) list" where
  "escapes = [(7, CHR ''a''), (8, CHR ''b''), (12, CHR ''f''), (10, CHR ''n''), (13, CHR ''r''),
     (9, CHR ''t''), (11, CHR ''v'')]"

definition appendEscapedRune :: "(nat \<Rightarrow> bool) \<Rightarrow> nat \<Rightarrow> string" where
  "appendEscapedRune pr r =
     (if r = code dquote \<or> r = code backslash then [backslash, char_of r]
      else if IsPrint pr r then AppendRune r
      else case map_of escapes r of Some c \<Rightarrow> [backslash, c]
        | None \<Rightarrow>
            if r < 32 \<or> r = 127 then [backslash, CHR ''x''] @ hex 2 r
            else if \<not> ValidRune r then [backslash, CHR ''u''] @ hex 4 RuneError
            else if r < 65536 then [backslash, CHR ''u''] @ hex 4 r
            else [backslash, CHR ''U''] @ hex 8 r)"

text \<open>What one round of the loop of \<open>appendQuotedWith\<close> writes, and how much it consumes.\<close>

definition quote_step :: "(nat \<Rightarrow> bool) \<Rightarrow> string \<Rightarrow> string \<times> nat" where
  "quote_step pr s =
     (let (r, width) = DecodeRune s
      in if width = 1 \<and> r = RuneError then ([backslash, CHR ''x''] @ hex 2 (code (hd s)), 1)
         else (appendEscapedRune pr r, max 1 width))"

function quote_body :: "(nat \<Rightarrow> bool) \<Rightarrow> string \<Rightarrow> string" where
  "quote_body pr s =
     (if s = [] then []
      else fst (quote_step pr s) @ quote_body pr (drop (snd (quote_step pr s)) s))"
  by pat_completeness auto
termination
  by (relation "measure (\<lambda>(_, s). length s)") (auto simp: quote_step_def Let_def split_beta)

declare quote_body.simps [simp del]

definition Quote :: "(nat \<Rightarrow> bool) \<Rightarrow> string \<Rightarrow> string" where
  "Quote pr s = dquote # quote_body pr s @ [dquote]"

section \<open>\<open>Unquote\<close>\<close>

definition unhex :: "char \<Rightarrow> nat option" where
  "unhex c = (let n = code c in
     if in_range 48 57 n then Some (n - 48)
     else if in_range 97 102 n then Some (n - 87)
     else if in_range 65 70 n then Some (n - 55)
     else None)"

fun read_hex :: "nat \<Rightarrow> nat \<Rightarrow> string \<Rightarrow> (nat \<times> string) option" where
  "read_hex 0 v s = Some (v, s)"
| "read_hex (Suc n) v [] = None"
| "read_hex (Suc n) v (c # s) = (case unhex c of None \<Rightarrow> None | Some x \<Rightarrow> read_hex n (v * 16 + x) s)"

definition octal :: "char \<Rightarrow> nat option" where
  "octal c = (if in_range 48 55 (code c) then Some (code c - 48) else None)"

definition read_octal :: "char \<Rightarrow> string \<Rightarrow> (nat \<times> string) option" where
  "read_octal c s = (case s of
      c1 # c2 # s \<Rightarrow> (case (octal c, octal c1, octal c2) of
          (Some a, Some b, Some d) \<Rightarrow>
            (let v = (a * 8 + b) * 8 + d in if v > 255 then None else Some (v, s))
        | _ \<Rightarrow> None)
    | _ \<Rightarrow> None)"

definition unescapes :: "(char \<times> nat) list" where
  "unescapes = [(CHR ''a'', 7), (CHR ''b'', 8), (CHR ''f'', 12), (CHR ''n'', 10), (CHR ''r'', 13),
     (CHR ''t'', 9), (CHR ''v'', 11), (backslash, code backslash), (dquote, code dquote)]"

text \<open>
  \<open>UnquoteChar(s, '"')\<close>: the value, whether it is a code point rather than a byte, and the
  rest. A code point escape above the runes overflows Go's 32-bit \<open>rune\<close> to an invalid one,
  so it is refused either way.
\<close>

definition UnquoteChar :: "string \<Rightarrow> (nat \<times> bool \<times> string) option" where
  "UnquoteChar s = (case s of
      [] \<Rightarrow> None
    | c # t \<Rightarrow>
        if c = dquote then None
        else if 128 \<le> code c then (let (r, width) = DecodeRune s in Some (r, True, drop width s))
        else if c \<noteq> backslash then Some (code c, False, t)
        else (case t of
            [] \<Rightarrow> None
          | e # u \<Rightarrow>
              (case map_of unescapes e of Some v \<Rightarrow> Some (v, False, u)
               | None \<Rightarrow>
                   if e = CHR ''x'' then map_option (\<lambda>(v, u). (v, False, u)) (read_hex 2 0 u)
                   else if e = CHR ''u'' \<or> e = CHR ''U'' then
                     (case read_hex (if e = CHR ''u'' then 4 else 8) 0 u of
                        None \<Rightarrow> None
                      | Some (v, u) \<Rightarrow> if ValidRune v then Some (v, True, u) else None)
                   else if octal e \<noteq> None then map_option (\<lambda>(v, u). (v, False, u)) (read_octal e u)
                   else None)))"

lemma read_hex_shorter: "read_hex n v s = Some (x, t) \<Longrightarrow> length t \<le> length s"
  by (induction n v s rule: read_hex.induct) (fastforce split: option.splits)+

lemma DecodeRune_width: "s \<noteq> [] \<Longrightarrow> DecodeRune s = (r, w) \<Longrightarrow> 0 < w"
  using decode_encode [of s] by (auto simp: DecodeRune_def split: option.splits prod.splits)

lemma UnquoteChar_shorter: "UnquoteChar s = Some (r, m, t) \<Longrightarrow> length t < length s"
  using DecodeRune_width [of s]
  by (auto simp: UnquoteChar_def read_octal_def Let_def dest!: read_hex_shorter
      split: list.splits option.splits if_splits prod.splits)

text \<open>The loop of \<open>unquote\<close> from behind the opening quote: the value and what is left.\<close>

function unquote_loop :: "string \<Rightarrow> string \<Rightarrow> (string \<times> string) option" where
  "unquote_loop inp buf =
     (case inp of
        [] \<Rightarrow> None
      | c # rest \<Rightarrow>
          if c = dquote then Some (buf, rest)
          else if c = CHR 0x0A then None
          else case UnquoteChar inp of
                 None \<Rightarrow> None
               | Some (r, multibyte, inp) \<Rightarrow>
                   unquote_loop inp (buf @ (if r < 128 \<or> \<not> multibyte then [char_of r] else AppendRune r)))"
  by pat_completeness auto
termination
  by (relation "measure (\<lambda>(inp, _). length inp)") (auto dest: UnquoteChar_shorter)

declare unquote_loop.simps [simp del]

text \<open>The whole of \<open>unquote\<close>, with its path for text without escapes.\<close>

definition unquote :: "string \<Rightarrow> (string \<times> string) option" where
  "unquote s = (case s of
      c # rest \<Rightarrow>
        if c \<noteq> dquote \<or> dquote \<notin> set rest then None
        else let body = takeWhile (\<lambda>c. c \<noteq> dquote) rest
             in if backslash \<notin> set body \<and> CHR 0x0A \<notin> set body \<and> ValidString body
                then Some (body, drop (Suc (length body)) rest)
                else unquote_loop rest []
    | [] \<Rightarrow> None)"

definition QuotedPrefix :: "string \<Rightarrow> string option" where
  "QuotedPrefix s = map_option (\<lambda>(v, rem). take (length s - length rem) s) (unquote s)"

definition Unquote :: "string \<Rightarrow> string option" where
  "Unquote s = (case unquote s of Some (v, []) \<Rightarrow> Some v | _ \<Rightarrow> None)"

section \<open>The round trip\<close>

lemma unhex_digit: "d < 16 \<Longrightarrow> unhex (hex_digit d) = Some d"
  by (auto simp: unhex_def hex_digit_def in_range_def Let_def)

lemma read_hex_snoc:
  "read_hex n a s = Some (v, c # t) \<Longrightarrow> unhex c = Some x \<Longrightarrow> read_hex (Suc n) a s = Some (v * 16 + x, t)"
  by (induction n a s rule: read_hex.induct) (auto split: option.splits)

lemma read_hex_hex: "read_hex n a (hex n v @ t) = Some (a * 16 ^ n + v mod 16 ^ n, t)"
proof (induction n arbitrary: v t)
  case (Suc n)
  have "read_hex n a (hex (Suc n) v @ t) = Some (a * 16 ^ n + v div 16 mod 16 ^ n, hex_digit (v mod 16) # t)"
    using Suc.IH [of "v div 16" "hex_digit (v mod 16) # t"] by simp
  from read_hex_snoc [OF this unhex_digit]
  have "read_hex (Suc n) a (hex (Suc n) v @ t) =
    Some ((a * 16 ^ n + v div 16 mod 16 ^ n) * 16 + v mod 16, t)" by simp
  moreover have "v mod 16 ^ Suc n = v div 16 mod 16 ^ n * 16 + v mod 16"
    using mod_mult2_eq [of v 16 "16 ^ n"] by simp
  ultimately show ?case by (simp add: algebra_simps)
qed simp

lemma hex_chars: "set (hex n v) \<subseteq> hex_digit ` {..<16}"
  by (induction n arbitrary: v) auto

text \<open>\<open>written out bs\<close>: reading the bytes \<open>out\<close> back gives the bytes \<open>bs\<close>.\<close>

definition written :: "string \<Rightarrow> string \<Rightarrow> bool" where
  "written out bs \<longleftrightarrow> (\<forall>rest. \<exists>r m. UnquoteChar (out @ rest) = Some (r, m, rest) \<and>
     (if r < 128 \<or> \<not> m then [char_of r] else AppendRune r) = bs) \<and>
     out \<noteq> [] \<and> hd out \<noteq> dquote \<and> CHR 0x0A \<notin> set out"

lemma writtenD:
  "written out bs \<Longrightarrow> \<exists>r m. UnquoteChar (out @ rest) = Some (r, m, rest) \<and>
     (if r < 128 \<or> \<not> m then [char_of r] else AppendRune r) = bs"
  "written out bs \<Longrightarrow> \<exists>c cs. out = c # cs \<and> c \<noteq> dquote \<and> c \<noteq> CHR 0x0A"
  unfolding written_def by (blast, cases out, auto)

lemma writtenI:
  assumes "\<And>rest. UnquoteChar (out @ rest) = Some (r, m, rest)"
    and "(if r < 128 \<or> \<not> m then [char_of r] else AppendRune r) = bs"
    and "out \<noteq> []" "hd out \<noteq> dquote" "CHR 0x0A \<notin> set out"
  shows "written out bs"
  unfolding written_def using assms by blast

lemma written_escape:
  assumes "map_of unescapes e = Some v" "e \<noteq> CHR 0x0A"
  shows "written [backslash, e] [char_of v]"
  using assms by (auto simp: written_def UnquoteChar_def)

lemma newline_no_hex: "CHR 0x0A \<notin> set (hex n v)"
proof -
  have "code (hex_digit d) \<noteq> 10" if "d < 16" for d using that by (simp add: hex_digit_def)
  then have "CHR 0x0A \<notin> hex_digit ` {..<16}" by (force dest: arg_cong [of _ _ code])
  then show ?thesis using hex_chars [of n v] by blast
qed

lemma written_byte: "v < 256 \<Longrightarrow> written ([backslash, CHR ''x''] @ hex 2 v) [char_of v]"
  using newline_no_hex [of 2 v] read_hex_hex [of 2 0 v]
  by (auto simp: written_def UnquoteChar_def unescapes_def)

lemma written_rune:
  assumes "ValidRune r" "128 \<le> r"
  shows "r < 65536 \<Longrightarrow> written ([backslash, CHR ''u''] @ hex 4 r) (encode_valid r)"
    and "written ([backslash, CHR ''U''] @ hex 8 r) (encode_valid r)"
proof -
  have "r < 4294967296" using assms(1) by (auto simp: ValidRune_def)
  then have "UnquoteChar (([backslash, CHR ''U''] @ hex 8 r) @ rest) = Some (r, True, rest)" for rest
    using read_hex_hex [of 8 0 r rest] assms(1) by (simp add: UnquoteChar_def unescapes_def)
  then show "written ([backslash, CHR ''U''] @ hex 8 r) (encode_valid r)"
    by (rule writtenI) (use assms newline_no_hex [of 8 r] in \<open>simp_all add: AppendRune_def\<close>)
  assume "r < 65536"
  then have "UnquoteChar (([backslash, CHR ''u''] @ hex 4 r) @ rest) = Some (r, True, rest)" for rest
    using read_hex_hex [of 4 0 r rest] assms(1) by (simp add: UnquoteChar_def unescapes_def)
  then show "written ([backslash, CHR ''u''] @ hex 4 r) (encode_valid r)"
    by (rule writtenI) (use assms newline_no_hex [of 4 r] in \<open>simp_all add: AppendRune_def\<close>)
qed

lemma encode_valid_not_ascii:
  "128 \<le> r \<Longrightarrow> ValidRune r \<Longrightarrow> c \<in> set (encode_valid r) \<Longrightarrow> 128 \<le> code c"
  by (auto simp: encode_valid_def ValidRune_def split: if_splits)

lemma written_raw:
  assumes "utf8_decode s = Some (r, w)" "128 \<le> r"
  shows "written (take w s) (take w s)"
proof -
  note d = decode_encode [OF assms(1)]
  have enc: "take w s = encode_valid r" "ValidRune r" using d by simp_all
  have big: "128 \<le> code c" if "c \<in> set (take w s)" for c
    using encode_valid_not_ascii [OF assms(2) enc(2)] that by (simp add: enc(1))
  have "take w s \<noteq> []" using d by (cases s) auto
  then obtain c cs where cs: "take w s = c # cs" by (cases "take w s") blast+
  have c: "128 \<le> code c" using big [of c] cs by simp
  have "UnquoteChar (take w s @ rest) = Some (r, True, rest)" for rest
  proof -
    have "utf8_decode (take w s @ rest) = Some (r, w)" using d by blast
    then have "DecodeRune (take w s @ rest) = (r, w)" by (simp only: DecodeRune_def option.case)
    moreover have "w \<le> length s" using d by blast
    then have "drop w (take w s @ rest) = rest" by simp
    ultimately show ?thesis using c by (auto simp: UnquoteChar_def cs)
  qed
  moreover have "AppendRune r = take w s" using enc by (simp add: AppendRune_def)
  moreover have "CHR 0x0A \<notin> set (take w s)" using big [of "CHR 0x0A"] by auto
  ultimately show ?thesis using assms(2) c cs by (auto simp: written_def)
qed

lemma written_ascii:
  assumes "code c < 128" "c \<noteq> dquote" "c \<noteq> backslash" "c \<noteq> CHR 0x0A"
  shows "written [c] [c]"
  using assms by (auto simp: written_def UnquoteChar_def)

lemma escapes_unescapes: "map_of escapes r = Some e \<Longrightarrow> map_of unescapes e = Some r \<and> e \<noteq> CHR 0x0A"
  by (auto simp: escapes_def unescapes_def split: if_splits)

lemma decode_ascii: "utf8_decode s = Some (r, w) \<Longrightarrow> r < 128 \<Longrightarrow> take w s = [char_of r]"
  using decode_encode [of s r w] by (simp add: encode_valid_def)

lemma written_printable:
  assumes "utf8_decode s = Some (r, w)" "IsPrint pr r" "r \<noteq> code dquote" "r \<noteq> code backslash"
  shows "written (AppendRune r) (take w s)"
proof (cases "r < 128")
  case False
  with written_raw [OF assms(1)] decode_encode [OF assms(1)] show ?thesis by (simp add: AppendRune_def)
next
  case True
  with assms(2) have "32 \<le> r" by (auto simp: IsPrint_def in_range_def)
  have c: "code (char_of r :: char) = r" using True by simp
  have "char_of r \<noteq> x" if "code x \<noteq> r" for x using that c by metis
  then have "char_of r \<noteq> dquote" "char_of r \<noteq> backslash" "char_of r \<noteq> CHR 0x0A"
    using assms(3,4) \<open>32 \<le> r\<close> by auto
  with True c have "written [char_of r] [char_of r]" by (intro written_ascii) simp_all
  with True decode_ascii [OF assms(1) True] decode_encode [OF assms(1)] show ?thesis
    by (simp add: AppendRune_def encode_valid_def)
qed

lemma written_appendEscapedRune:
  assumes "utf8_decode s = Some (r, w)"
  shows "written (appendEscapedRune pr r) (take w s)"
proof -
  note d = decode_encode [OF assms]
  note ascii = decode_ascii [OF assms]
  show ?thesis
  proof (cases "r = code dquote \<or> r = code backslash")
    case True
    moreover have "map_of unescapes dquote = Some (code dquote)"
      "map_of unescapes backslash = Some (code backslash)" by (simp_all add: unescapes_def)
    moreover have "code dquote < 128" "code backslash < 128" by simp_all
    ultimately have "map_of unescapes (char_of r) = Some r" "char_of r \<noteq> CHR 0x0A" "r < 128"
      by (auto simp del: of_char_Char)
    with written_escape [of "char_of r" r] ascii True show ?thesis by (auto simp: appendEscapedRune_def)
  next
    case plain: False
    show ?thesis
    proof (cases "IsPrint pr r")
      case True
      with plain written_printable [OF assms True] show ?thesis by (simp add: appendEscapedRune_def)
    next
      case np: False
      show ?thesis
      proof (cases "map_of escapes r")
        case (Some e)
        then have "r < 128" by (auto simp: escapes_def split: if_splits)
        with Some np plain ascii written_escape [of e r] escapes_unescapes [OF Some] show ?thesis
          by (simp add: appendEscapedRune_def)
      next
        case None
        show ?thesis
        proof (cases "r < 128")
          case True
          with np have "r < 32 \<or> r = 127" by (auto simp: IsPrint_def in_range_def)
          with True None np plain ascii written_byte [of r] show ?thesis
            by (simp add: appendEscapedRune_def)
        next
          case False
          with None np plain d written_rune [of r]
          show ?thesis by (simp add: appendEscapedRune_def)
        qed
      qed
    qed
  qed
qed

lemma quote_step_decoded:
  assumes "utf8_decode s = Some (r, w)"
  shows "quote_step pr s = (appendEscapedRune pr r, w)"
proof -
  note d = decode_encode [OF assms]
  have "\<not> (w = 1 \<and> r = RuneError)"
  proof
    assume "w = 1 \<and> r = RuneError"
    with d have "length (encode_valid RuneError) = 1" by (metis length_take min_absorb2 Suc_leI One_nat_def)
    then show False by (simp add: encode_valid_def RuneError_def)
  qed
  moreover have "max 1 w = w" using d by simp
  ultimately show ?thesis using assms by (auto simp: quote_step_def DecodeRune_def Let_def)
qed

lemma quote_step_written:
  assumes "s \<noteq> []"
  shows "0 < snd (quote_step pr s) \<and> written (fst (quote_step pr s)) (take (snd (quote_step pr s)) s)"
proof (cases "utf8_decode s")
  case None
  obtain c t where "s = c # t" using assms by (cases s) auto
  with None written_byte [of "code c"] show ?thesis
    by (simp add: quote_step_def DecodeRune_def code_less)
next
  case (Some rw)
  obtain r w where rw: "rw = (r, w)" by fastforce
  from decode_encode [OF Some [unfolded rw]] written_appendEscapedRune [OF Some [unfolded rw], of pr] show ?thesis
    by (simp add: quote_step_decoded [OF Some [unfolded rw]])
qed

lemma unquote_loop_written:
  assumes "written out bs"
  shows "unquote_loop (out @ rest) buf = unquote_loop rest (buf @ bs)"
proof -
  obtain r m where u: "UnquoteChar (out @ rest) = Some (r, m, rest)"
    "(if r < 128 \<or> \<not> m then [char_of r] else AppendRune r) = bs"
    using writtenD(1) [OF assms] by blast
  obtain c cs where "out = c # cs" "c \<noteq> dquote" "c \<noteq> CHR 0x0A"
    using writtenD(2) [OF assms] by blast
  with u show ?thesis by (subst unquote_loop.simps) auto
qed

lemma quote_body_Nil [simp]: "quote_body pr [] = []"
  by (simp add: quote_body.simps)

lemma unquote_quote_body: "unquote_loop (quote_body pr s @ dquote # rest) buf = Some (buf @ s, rest)"
proof (induction pr s arbitrary: buf rule: quote_body.induct)
  case (1 pr s)
  show ?case
  proof (cases "s = []")
    case True
    then show ?thesis by (simp add: unquote_loop.simps [of "dquote # rest"])
  next
    case False
    note w = quote_step_written [OF False, of pr]
    have "unquote_loop (quote_body pr s @ dquote # rest) buf =
      unquote_loop (quote_body pr (drop (snd (quote_step pr s)) s) @ dquote # rest)
        (buf @ take (snd (quote_step pr s)) s)"
      using False w unquote_loop_written by (simp add: quote_body.simps [of pr s])
    with 1 [OF False] show ?thesis by simp
  qed
qed

text \<open>The path for text without escapes gives what the loop gives.\<close>

lemma unquote_loop_plain:
  assumes "ValidString body" "backslash \<notin> set body" "CHR 0x0A \<notin> set body" "dquote \<notin> set body"
  shows "unquote_loop (body @ dquote # rest) buf = Some (buf @ body, rest)"
  using assms
proof (induction body arbitrary: buf rule: ValidString.induct)
  case (1 body)
  show ?case
  proof (cases "body = []")
    case True
    then show ?thesis by (simp add: unquote_loop.simps [of "dquote # rest"])
  next
    case False
    with 1(2) obtain r w where dec: "utf8_decode body = Some (r, w)"
      and v: "ValidString (drop (max 1 w) body)"
      by (auto simp: ValidString.simps [of body] split: option.splits)
    note d = decode_encode [OF dec]
    have mw: "max 1 w = w" using d by simp
    have wr: "written (take w body) (take w body)"
    proof (cases "128 \<le> r")
      case True
      with written_raw [OF dec] show ?thesis .
    next
      case lo: False
      obtain c t where b: "body = c # t" using False by (cases body) auto
      have "w = 1" "code c < 128" using dec d lo by (auto simp: b)
      with 1(3-5) b written_ascii [of c] show ?thesis by auto
    qed
    have "set (drop w body) \<subseteq> set body" by (rule set_drop_subset)
    then have "backslash \<notin> set (drop w body)" "CHR 0x0A \<notin> set (drop w body)" "dquote \<notin> set (drop w body)"
      using 1(3-5) by auto
    from 1(1) [OF False dec refl, unfolded mw, OF v [unfolded mw] this] unquote_loop_written [OF wr]
    have "unquote_loop (take w body @ drop w body @ dquote # rest) buf = Some (buf @ take w body @ drop w body, rest)"
      by simp
    then show ?thesis by (simp add: append_take_drop_id [symmetric] flip: append_assoc)
  qed
qed

lemma read_hex_set: "read_hex n v s = Some (x, t) \<Longrightarrow> set t \<subseteq> set s"
  by (induction n v s rule: read_hex.induct) (auto split: option.splits)

lemma UnquoteChar_set:
  assumes "UnquoteChar s = Some (r, m, t)"
  shows "set t \<subseteq> set s"
proof -
  obtain c u where s: "s = c # u" using assms by (cases s) (auto simp: UnquoteChar_def)
  show ?thesis
  proof (cases "128 \<le> code c")
    case True
    with assms have "\<exists>n. t = drop n s" by (auto simp: UnquoteChar_def s split: if_splits prod.splits)
    then show ?thesis using set_drop_subset by fast
  next
    case False
    with assms have "t = u \<or> (\<exists>e v. u = e # v \<and> set t \<subseteq> set v)"
      by (auto simp: UnquoteChar_def read_octal_def Let_def s dest!: read_hex_set
          split: list.splits option.splits if_splits)
    with s show ?thesis by auto
  qed
qed

lemma unquote_loop_ends: "unquote_loop inp buf = Some x \<Longrightarrow> dquote \<in> set inp"
proof (induction inp buf rule: unquote_loop.induct)
  case (1 inp buf)
  obtain c rest where inp: "inp = c # rest" using 1(2) by (cases inp) (auto simp: unquote_loop.simps [of "[]"])
  show ?case
  proof (cases "c = dquote")
    case False
    with 1(2) inp obtain r m t where u: "UnquoteChar inp = Some (r, m, t)" "c \<noteq> CHR 0x0A"
      "unquote_loop t (buf @ (if r < 128 \<or> \<not> m then [char_of r] else AppendRune r)) = Some x"
      by (auto simp: unquote_loop.simps [of "c # rest" buf] split: option.splits if_splits)
    from 1(1) [OF inp False u(2) u(1) refl refl u(3)] have "dquote \<in> set t" .
    moreover have "set t \<subseteq> set inp" using UnquoteChar_set [OF u(1)] .
    ultimately show ?thesis by blast
  qed (simp add: inp)
qed

lemma unquote_loop_unquote:
  assumes "unquote_loop rest [] = Some (v, t)"
  shows "unquote (dquote # rest) = Some (v, t)"
proof -
  have q: "dquote \<in> set rest" using unquote_loop_ends [OF assms] .
  define body where "body = takeWhile (\<lambda>c. c \<noteq> dquote) rest"
  have split: "rest = body @ dquote # drop (Suc (length body)) rest"
  proof -
    have "dropWhile (\<lambda>c. c \<noteq> dquote) rest \<noteq> []" using q by (simp add: dropWhile_eq_Nil_conv)
    then have "dropWhile (\<lambda>c. c \<noteq> dquote) rest = dquote # tl (dropWhile (\<lambda>c. c \<noteq> dquote) rest)"
      using hd_dropWhile [of "\<lambda>c. c \<noteq> dquote" rest] by (cases "dropWhile (\<lambda>c. c \<noteq> dquote) rest") auto
    then have r: "rest = body @ dquote # tl (dropWhile (\<lambda>c. c \<noteq> dquote) rest)"
      by (metis body_def takeWhile_dropWhile_id)
    have "drop (Suc (length body)) (body @ dquote # u) = u" for u by simp
    with r show ?thesis by metis
  qed
  have nq: "dquote \<notin> set body" by (auto simp: body_def dest: set_takeWhileD)
  show ?thesis
  proof (cases "backslash \<notin> set body \<and> CHR 0x0A \<notin> set body \<and> ValidString body")
    case True
    have "unquote_loop rest [] = Some (body, drop (Suc (length body)) rest)"
      using unquote_loop_plain [of body "drop (Suc (length body)) rest" "[]"] True nq split by simp
    with assms have "v = body" "t = drop (Suc (length body)) rest" by auto
    with True q show ?thesis by (simp add: unquote_def body_def [symmetric])
  next
    case False
    with q assms show ?thesis by (auto simp: unquote_def Let_def body_def [symmetric])
  qed
qed

lemma unquote_Quote: "unquote (Quote pr s @ rest) = Some (s, rest)"
  using unquote_loop_unquote [of "quote_body pr s @ dquote # rest" s rest]
  by (simp add: Quote_def unquote_quote_body)

lemma QuotedPrefix_Quote: "QuotedPrefix (Quote pr s @ rest) = Some (Quote pr s)"
  by (simp add: QuotedPrefix_def unquote_Quote)

lemma Unquote_Quote: "Unquote (Quote pr s) = Some s"
  using unquote_Quote [of pr s "[]"] by (simp add: Unquote_def)

lemma quote_body_no_newline: "CHR 0x0A \<notin> set (quote_body pr s)"
proof (induction pr s rule: quote_body.induct)
  case (1 pr s)
  then show ?case
    using quote_step_written [of s pr] by (cases "s = []") (auto simp: written_def quote_body.simps [of pr s])
qed

lemma Quote_no_newline: "CHR 0x0A \<notin> set (Quote pr s)"
  using quote_body_no_newline by (simp add: Quote_def)

lemma unquote_loop_shorter: "unquote_loop inp buf = Some (v, t) \<Longrightarrow> length t \<le> length inp"
proof (induction inp buf rule: unquote_loop.induct)
  case (1 inp buf)
  obtain c rest where inp: "inp = c # rest" using 1(2) by (cases inp) (auto simp: unquote_loop.simps [of "[]"])
  show ?case
  proof (cases "c = dquote")
    case True
    with 1(2) show ?thesis by (simp add: inp unquote_loop.simps [of "dquote # rest"])
  next
    case False
    with 1(2) inp obtain r m u where u: "UnquoteChar inp = Some (r, m, u)" "c \<noteq> CHR 0x0A"
      "unquote_loop u (buf @ (if r < 128 \<or> \<not> m then [char_of r] else AppendRune r)) = Some (v, t)"
      by (auto simp: unquote_loop.simps [of "c # rest" buf] split: option.splits if_splits)
    from 1(1) [OF inp False u(2) u(1) refl refl u(3)] UnquoteChar_shorter [OF u(1)] show ?thesis by simp
  qed
qed

lemma QuotedPrefix_shorter: "QuotedPrefix s = Some q \<Longrightarrow> q \<noteq> [] \<and> s \<noteq> []"
proof -
  assume "QuotedPrefix s = Some q"
  then obtain v t where u: "unquote s = Some (v, t)" and q: "q = take (length s - length t) s"
    by (auto simp: QuotedPrefix_def)
  from u obtain c rest where s: "s = c # rest" by (cases s) (auto simp: unquote_def)
  from u s unquote_loop_shorter [of rest "[]"] have "length t < length s"
    by (auto simp: unquote_def Let_def split: if_splits)
  with q s show ?thesis by simp
qed

end
