(* ===== verification/Host.thy ===== *)
theory Host
  imports GoErr GoStrings GoPath GoTime GoQuote
begin

text \<open>
  The machine the service commands run on: files with their contents, the commands run and
  the signals sent so far, as a state; what goes wrong, what a command prints, and what the
  operating system says of paths and processes, as the parameter \<open>host_env\<close>. On it the
  scaffold of \<open>internal/config/config.go\<close> (\<open>DefaultPath\<close>, \<open>EnsureScaffold\<close>), and the parts of
  \<open>strconv\<close> that read numbers.
\<close>

section \<open>State and system calls\<close>

text \<open>How a command ended when it did not end well.\<close>

datatype cmd_error = CmdExit nat | CmdTimeout | CmdFailed string

record cmd_result =
  cr_stdout :: string
  cr_stderr :: string
  cr_err :: "cmd_error option"

text \<open>
  \<open>he_fail n\<close>: system call \<open>n\<close> fails, for a reason other than a missing file. \<open>he_left n\<close>: what
  a failed write leaves of the file. \<open>he_cmd n\<close>: the result of the command started as call \<open>n\<close>
  (of \<open>CombinedOutput\<close>, \<open>cr_stdout\<close> is all it collects).
\<close>

record host_env =
  he_fail :: "nat \<Rightarrow> string option"
  he_left :: "nat \<Rightarrow> string option"
  he_cmd :: "nat \<Rightarrow> cmd_result"
  he_kill0 :: "int \<Rightarrow> goerr option"
  he_same_file :: "string \<Rightarrow> string \<Rightarrow> bool"
  he_symlinks :: "string \<Rightarrow> string option"
  he_cwd :: "string option"
  he_exe :: "goerr + string"
  he_configDir :: "goerr + string"

record host =
  h_files :: "string \<Rightarrow> string option"
  h_commands :: "string list list"
  h_signals :: "int list"
  h_tick :: nat

definition host_call :: "host_env \<Rightarrow> host \<Rightarrow> goerr option \<times> host" where
  "host_call env h = (map_option ErrText (he_fail env (h_tick h)), h\<lparr>h_tick := Suc (h_tick h)\<rparr>)"

definition host_ReadFile :: "host_env \<Rightarrow> string \<Rightarrow> host \<Rightarrow> (goerr + string) \<times> host" where
  "host_ReadFile env path h =
     (case host_call env h of
        (Some e, h) \<Rightarrow> (Inl e, h)
      | (None, h) \<Rightarrow> (case h_files h path of None \<Rightarrow> (Inl (ErrSentinel OsErrNotExist), h)
                     | Some data \<Rightarrow> (Inr data, h)))"

definition host_Stat :: "host_env \<Rightarrow> string \<Rightarrow> host \<Rightarrow> goerr option \<times> host" where
  "host_Stat env path h =
     (case host_ReadFile env path h of (Inl e, h) \<Rightarrow> (Some e, h) | (Inr _, h) \<Rightarrow> (None, h))"

definition host_WriteFile :: "host_env \<Rightarrow> string \<Rightarrow> string \<Rightarrow> host \<Rightarrow> goerr option \<times> host" where
  "host_WriteFile env path data h =
     (case host_call env h of
        (Some e, h') \<Rightarrow> (Some e, h'\<lparr>h_files := (h_files h')
           (path := (case he_left env (h_tick h) of Some d \<Rightarrow> Some d | None \<Rightarrow> h_files h' path))\<rparr>)
      | (None, h) \<Rightarrow> (None, h\<lparr>h_files := (h_files h)(path \<mapsto> data)\<rparr>))"

definition host_Remove :: "host_env \<Rightarrow> string \<Rightarrow> host \<Rightarrow> goerr option \<times> host" where
  "host_Remove env path h =
     (case host_call env h of
        (Some e, h) \<Rightarrow> (Some e, h)
      | (None, h) \<Rightarrow> (case h_files h path of None \<Rightarrow> (Some (ErrSentinel OsErrNotExist), h)
                     | Some _ \<Rightarrow> (None, h\<lparr>h_files := (h_files h)(path := None)\<rparr>)))"

definition host_MkdirAll :: "host_env \<Rightarrow> string \<Rightarrow> host \<Rightarrow> goerr option \<times> host" where
  "host_MkdirAll env dir h = host_call env h"

text \<open>Commands do not touch the files of this model.\<close>

definition host_command :: "host_env \<Rightarrow> string list \<Rightarrow> host \<Rightarrow> cmd_result \<times> host" where
  "host_command env args h =
     (he_cmd env (h_tick h), h\<lparr>h_commands := h_commands h @ [args], h_tick := Suc (h_tick h)\<rparr>)"

definition host_SendHUP :: "host_env \<Rightarrow> int \<Rightarrow> host \<Rightarrow> goerr option \<times> host" where
  "host_SendHUP env pid h =
     (case host_call env h of
        (Some e, h) \<Rightarrow> (Some e, h)
      | (None, h) \<Rightarrow> (None, h\<lparr>h_signals := h_signals h @ [pid]\<rparr>))"

text \<open>Sequencing with an early return on an error.\<close>

definition then_do ::
  "('h \<Rightarrow> goerr option \<times> 'h) \<Rightarrow> ('h \<Rightarrow> goerr option \<times> 'h) \<Rightarrow> 'h \<Rightarrow> goerr option \<times> 'h" where
  "then_do f g h = (case f h of (Some e, h) \<Rightarrow> (Some e, h) | (None, h) \<Rightarrow> g h)"

definition wrapping :: "string \<Rightarrow> (goerr option \<times> 'h) \<Rightarrow> goerr option \<times> 'h" where
  "wrapping msg = (\<lambda>(err, h). (map_option (\<lambda>e. ErrWrap (msg @ '': '' @ err_text e) [e]) err, h))"

lemma host_call_sel [simp]:
  "h_files (snd (host_call env h)) = h_files h" "h_commands (snd (host_call env h)) = h_commands h"
  "h_signals (snd (host_call env h)) = h_signals h"
  by (simp_all add: host_call_def)

lemma host_callD:
  "host_call env h = (e, h') \<Longrightarrow> h_files h' = h_files h \<and> h_commands h' = h_commands h \<and>
     h_signals h' = h_signals h \<and> (\<forall>x. e = Some x \<longrightarrow> \<not> os_IsNotExist x \<and> \<not> errors_Is x OsErrNotExist)"
  by (auto simp: host_call_def os_IsNotExist_def)

lemma host_ReadFileD:
  "host_ReadFile env path h = (r, h') \<Longrightarrow> h_files h' = h_files h \<and> h_commands h' = h_commands h \<and>
     h_signals h' = h_signals h \<and>
     (case r of Inr data \<Rightarrow> h_files h path = Some data | Inl e \<Rightarrow> os_IsNotExist e \<longrightarrow> h_files h path = None)"
  by (auto simp: host_ReadFile_def dest!: host_callD split: prod.splits option.splits)

lemma host_StatD:
  "host_Stat env path h = (r, h') \<Longrightarrow> h_files h' = h_files h \<and> h_commands h' = h_commands h \<and>
     h_signals h' = h_signals h \<and>
     (case r of None \<Rightarrow> h_files h path \<noteq> None | Some e \<Rightarrow> os_IsNotExist e \<longrightarrow> h_files h path = None)"
  by (auto simp: host_Stat_def dest!: host_ReadFileD split: prod.splits sum.splits)

lemma host_WriteFileD:
  "host_WriteFile env path data h = (r, h') \<Longrightarrow> h_commands h' = h_commands h \<and> h_signals h' = h_signals h \<and>
     (\<forall>p. p \<noteq> path \<longrightarrow> h_files h' p = h_files h p) \<and> (r = None \<longrightarrow> h_files h' path = Some data)"
  by (auto simp: host_WriteFile_def dest!: host_callD split: prod.splits option.splits)

lemma host_RemoveD:
  "host_Remove env path h = (r, h') \<Longrightarrow> h_commands h' = h_commands h \<and> h_signals h' = h_signals h \<and>
     (\<forall>p. p \<noteq> path \<longrightarrow> h_files h' p = h_files h p) \<and>
     (case r of None \<Rightarrow> h_files h' path = None | Some e \<Rightarrow> os_IsNotExist e \<longrightarrow> h_files h' path = None)"
  by (auto simp: host_Remove_def dest!: host_callD split: prod.splits option.splits)

lemma host_commandD:
  "host_command env args h = (r, h') \<Longrightarrow> h_files h' = h_files h \<and> h_signals h' = h_signals h \<and>
     h_commands h' = h_commands h @ [args]"
  by (auto simp: host_command_def)

lemma then_do_None: "then_do f g h = (None, h') \<longleftrightarrow> (\<exists>h1. f h = (None, h1) \<and> g h1 = (None, h'))"
  by (auto simp: then_do_def split: prod.split option.split)

lemma wrapping_None [simp]: "wrapping msg r = (None, h) \<longleftrightarrow> r = (None, h)"
  by (cases r) (simp add: wrapping_def)

section \<open>The configuration scaffold\<close>

definition AppName :: string where "AppName = ''ssh-agent-proxy''"

definition DefaultPath :: "host_env \<Rightarrow> goerr + string" where
  "DefaultPath env =
     (case he_configDir env of
        Inl e \<Rightarrow> Inl (ErrWrap (''determining user config dir: '' @ err_text e) [e])
      | Inr dir \<Rightarrow> Inr (Join [dir, AppName, ''config.yaml'']))"

definition quoted_text :: "string \<Rightarrow> string" where
  "quoted_text s = dquote # s @ [dquote]"

definition sampleConfig :: string where
  "sampleConfig = join_with [CHR 0x0A]
     [''# ssh-agent-proxy configuration.'',
      ''# Run 'ssh-agent-proxy -list' to print your upstream keys as ready-to-paste entries.'',
      [],
      ''# Path to the upstream SSH agent socket (required).'',
      ''# Must be an absolute path; environment variables and ~ are NOT expanded.'',
      ''upstream: /run/user/1000/keyrings/bitwarden/agent.sock'',
      [],
      ''# Verbose logging.'',
      ''debug: false'',
      [],
      ''# Filtered views of the upstream agent. Each group is exposed on its own socket;'',
      ''# point a client at it with: export SSH_AUTH_SOCK=<socket>'',
      ''# Populate a group's keys with entries from 'ssh-agent-proxy -list'' @ [CHR 0x27],
      ''# (match by comment, sha256 or md5).'',
      ''groups:'',
      ''  - name: default'',
      ''    enabled: false'',
      ''    socket: /run/user/1000/ssh-agent-proxys/default.sock'',
      ''    keys:'',
      ''      - comment: '' @ quoted_text ''laptop@work'',
      ''      - md5: '' @ quoted_text ''MD5:aa:bb:cc:dd:...'',
      ''      - sha256: '' @ quoted_text ''SHA256:abc123...'',
      []]"

definition EnsureScaffold :: "host_env \<Rightarrow> string \<Rightarrow> host \<Rightarrow> (goerr + bool) \<times> host" where
  "EnsureScaffold env path h =
     (case host_MkdirAll env (Dir path) h of
        (Some e, h) \<Rightarrow> (Inl (ErrWrap (''creating config dir: '' @ err_text e) [e]), h)
      | (None, h) \<Rightarrow>
     (case host_Stat env path h of
        (Some e, h) \<Rightarrow>
          if os_IsNotExist e then
            (case host_WriteFile env path sampleConfig h of
               (Some e, h) \<Rightarrow> (Inl (ErrWrap (''writing sample config: '' @ err_text e) [e]), h)
             | (None, h) \<Rightarrow> (Inr True, h))
          else (Inr False, h)
      | (None, h) \<Rightarrow> (Inr False, h)))"

text \<open>An existing configuration is never touched, and no other file.\<close>

lemma EnsureScaffoldD:
  assumes "EnsureScaffold env path h = (r, h')"
  shows "h_commands h' = h_commands h \<and> h_signals h' = h_signals h \<and>
    (\<forall>p. p \<noteq> path \<or> h_files h path \<noteq> None \<longrightarrow> h_files h' p = h_files h p) \<and>
    (r = Inr True \<longrightarrow> h_files h path = None \<and> h_files h' path = Some sampleConfig)"
proof -
  obtain m h1 where m: "host_call env h = (m, h1)" by fastforce
  obtain s h2 where s: "host_Stat env path h1 = (s, h2)" by fastforce
  obtain v h3 where v: "host_WriteFile env path sampleConfig h2 = (v, h3)" by fastforce
  show ?thesis
    using assms m s v host_callD [OF m] host_StatD [OF s] host_WriteFileD [OF v]
    by (auto simp: EnsureScaffold_def host_MkdirAll_def split: option.splits if_splits)
qed

section \<open>Reading numbers\<close>

definition digit_value :: "char \<Rightarrow> nat option" where
  "digit_value c = (if in_range 48 57 (code c) then Some (code c - 48) else None)"

fun read_digits :: "nat \<Rightarrow> string \<Rightarrow> nat option" where
  "read_digits v [] = Some v"
| "read_digits v (c # s) = (case digit_value c of None \<Rightarrow> None | Some d \<Rightarrow> read_digits (v * 10 + d) s)"

text \<open>\<open>strconv.Atoi\<close> on a 64-bit platform: a value out of range is an error.\<close>

definition Atoi :: "string \<Rightarrow> int option" where
  "Atoi s =
     (let (neg, t) = (case s of c # t \<Rightarrow> if c = CHR ''-'' then (True, t)
                                        else if c = CHR ''+'' then (False, t) else (False, s)
                      | [] \<Rightarrow> (False, s))
      in if t = [] then None
         else case read_digits 0 t of None \<Rightarrow> None
           | Some n \<Rightarrow> (let i = (if neg then - int n else int n)
                       in if - (2 ^ 63) \<le> i \<and> i < 2 ^ 63 then Some i else None))"

end
