(* ===== verification/ServiceDefs.thy ===== *)
theory ServiceDefs
  imports GoQuote GoPath GoErr GoTime
begin

text \<open>
  \<open>internal/service/definitions.go\<close>: the systemd unit the program writes and reads back, and
  the argument vector from which \<open>-status\<close> tells the configuration in use.
\<close>

section \<open>Writing the systemd unit\<close>

abbreviation newline :: char where "newline \<equiv> CHR 0x0A"

text \<open>\<open>strings.NewReplacer("%", "%%", "$", "$$")\<close>.\<close>

definition doubled :: "char \<Rightarrow> bool" where
  "doubled c \<longleftrightarrow> c = CHR ''%'' \<or> c = CHR ''$''"

definition escape_systemd :: "string \<Rightarrow> string" where
  "escape_systemd arg = concat (map (\<lambda>c. if doubled c then [c, c] else [c]) arg)"

definition quoteSystemdArgument :: "(nat \<Rightarrow> bool) \<Rightarrow> string \<Rightarrow> string" where
  "quoteSystemdArgument pr arg = Quote pr (escape_systemd arg)"

definition unit_head :: "string list" where
  "unit_head = [''[Unit]'', ''Description=SSH Agent Proxy (filtering proxy for ssh-agent)'',
     ''After=default.target'', [], ''[Service]'', ''Type=simple'']"

definition unit_tail :: "string list" where
  "unit_tail = [''Restart=on-failure'', ''RestartSec=2'', [], ''[Install]'', ''WantedBy=default.target'', []]"

definition service_args :: "string \<Rightarrow> string \<Rightarrow> int \<Rightarrow> string list" where
  "service_args executable cfgPath cacheSeconds =
     [executable, ''-config'', cfgPath, ''--cache'', format_int cacheSeconds]"

definition renderSystemdUnit :: "(nat \<Rightarrow> bool) \<Rightarrow> string \<Rightarrow> string \<Rightarrow> int \<Rightarrow> string" where
  "renderSystemdUnit pr executable cfgPath cacheSeconds =
     (let quoted = map (quoteSystemdArgument pr) (service_args executable cfgPath cacheSeconds)
      in join_with [newline] (unit_head @ [''ExecStart='' @ join_with '' '' quoted] @ unit_tail))"

section \<open>Reading it back\<close>

text \<open>\<open>strings.NewReplacer("%%", "%", "$$", "$")\<close>: left to right, without overlaps.\<close>

fun unescape_systemd :: "string \<Rightarrow> string" where
  "unescape_systemd (a # b # s) =
     (if doubled a \<and> a = b then a # unescape_systemd s else a # unescape_systemd (b # s))"
| "unescape_systemd s = s"

text \<open>\<open>strings.IndexFunc(line, unicode.IsSpace)\<close>, and \<open>unicode.IsSpace\<close> of a single byte.\<close>

fun index_space :: "string \<Rightarrow> nat option" where
  "index_space [] = None"
| "index_space (c # s) =
     (if drop_space space_runes (c # s) \<noteq> None then Some 0 else map_option Suc (index_space s))"

definition byte_is_space :: "char \<Rightarrow> bool" where
  "byte_is_space c \<longleftrightarrow> code c \<in> {9, 10, 11, 12, 13, 32, 133, 160}"

lemma index_space_pos: "drop_space space_runes s = None \<Longrightarrow> index_space s = Some i \<Longrightarrow> 0 < i \<and> s \<noteq> []"
  by (cases s) (auto split: if_splits)

lemma trim_left_runes_None: "[] \<notin> set runes \<Longrightarrow> drop_space runes (trim_left_runes runes s) = None"
  by (induction runes s rule: trim_left_runes.induct)
    (subst trim_left_runes.simps, auto split: option.splits)

lemma trim_left_space_None: "drop_space space_runes (trim_left_space s) = None"
  by (simp add: trim_left_space_def trim_left_runes_None space_runes_nonempty)

lemma trim_left_runes_le: "length (trim_left_runes runes s) \<le> length s"
proof (induction runes s rule: trim_left_runes.induct)
  case (1 runes s)
  show ?case
  proof (cases "[] \<in> set runes \<or> drop_space runes s = None")
    case True
    then show ?thesis by (subst trim_left_runes.simps) auto
  next
    case False
    then obtain t where t: "drop_space runes s = Some t" "[] \<notin> set runes" by auto
    from 1 [OF t(2,1)] drop_space_shorter [OF t] t show ?thesis
      by (simp add: trim_left_runes.simps [of runes s])
  qed
qed

lemma trim_left_space_le: "length (trim_left_space s) \<le> length s"
  by (simp add: trim_left_space_def trim_left_runes_le)

function parseSystemdArguments :: "string \<Rightarrow> string list \<Rightarrow> goerr + string list" where
  "parseSystemdArguments line0 args =
     (let line = trim_left_space line0
      in if line = [] then Inr args
         else if hd line \<noteq> dquote then
           (case index_space line of
              None \<Rightarrow> Inr (args @ [line])
            | Some stop \<Rightarrow> parseSystemdArguments (drop stop line) (args @ [take stop line]))
         else (case QuotedPrefix line of
              None \<Rightarrow> Inl (ErrText ''reading quoted argument: invalid syntax'')
            | Some quoted \<Rightarrow>
                (case Unquote quoted of
                   None \<Rightarrow> Inl (ErrText ''unquoting argument: invalid syntax'')
                 | Some value \<Rightarrow>
                     (let line = drop (length quoted) line
                      in if line \<noteq> [] \<and> \<not> byte_is_space (hd line)
                         then Inl (ErrText ''unexpected character after quoted argument'')
                         else parseSystemdArguments line (args @ [unescape_systemd value])))))"
  by pat_completeness auto
termination
proof (relation "measure (\<lambda>(line, _). length line)", goal_cases)
  case (2 line0 args line stop)
  then have "0 < stop" "line \<noteq> []" using index_space_pos [OF trim_left_space_None] by auto
  then have "length (drop stop line) < length line" by simp
  with 2 trim_left_space_le [of line0] show ?case by simp
next
  case (3 line0 args line quoted v rest)
  then have "quoted \<noteq> []" "line \<noteq> []" using QuotedPrefix_shorter [of line quoted] by auto
  then have "length (drop (length quoted) line) < length line" by simp
  with 3 trim_left_space_le [of line0] show ?case by simp
qed simp

declare parseSystemdArguments.simps [simp del]

fun exec_start_loop :: "string list \<Rightarrow> goerr + string list" where
  "exec_start_loop [] = Inr []"
| "exec_start_loop (line # lines) =
     (case cut_prefix ''ExecStart='' line of
        None \<Rightarrow> exec_start_loop lines
      | Some rest \<Rightarrow>
          (case parseSystemdArguments rest [] of
             Inl err \<Rightarrow> Inl (ErrWrap (''parsing ExecStart: '' @ err_text err) [err])
           | Inr args \<Rightarrow> if args = [] then Inl (ErrText ''parsing ExecStart: command is empty'')
                         else Inr args))"

definition parseSystemdExecStart :: "string \<Rightarrow> goerr + string list" where
  "parseSystemdExecStart unit = exec_start_loop (split_on newline unit)"

definition parseSystemdExecStartBinary :: "string \<Rightarrow> goerr + string" where
  "parseSystemdExecStartBinary unit =
     (case parseSystemdExecStart unit of Inl err \<Rightarrow> Inl err
      | Inr args \<Rightarrow> Inr (if args = [] then [] else hd args))"

section \<open>The configuration of a command line\<close>

text \<open>The loop over \<open>args[i:]\<close>; a later flag wins.\<close>

fun config_prefixed :: "string list \<Rightarrow> string \<Rightarrow> string \<Rightarrow> string" where
  "config_prefixed [] arg configPath = configPath"
| "config_prefixed (prefix # prefixes) arg configPath =
     config_prefixed prefixes arg (case cut_prefix prefix arg of Some v \<Rightarrow> v | None \<Rightarrow> configPath)"

fun config_loop :: "string list \<Rightarrow> string \<Rightarrow> string" where
  "config_loop [] configPath = configPath"
| "config_loop (arg # args) configPath =
     (if arg = ''-config'' \<or> arg = ''--config''
      then (case args of [] \<Rightarrow> configPath | v # rest \<Rightarrow> config_loop rest v)
      else config_loop args (config_prefixed [''-config='', ''--config=''] arg configPath))"

definition configArgument :: "string list \<Rightarrow> string" where
  "configArgument args = config_loop (tl args) []"

section \<open>The round trip\<close>

lemma unescape_escape: "unescape_systemd (escape_systemd s) = s"
proof (induction s)
  case (Cons c s)
  have one: "unescape_systemd (c # t) = c # unescape_systemd t" if "\<not> doubled c" for t
    using that by (cases t) simp_all
  show ?case
  proof (cases "doubled c")
    case True
    with Cons show ?thesis by (simp add: escape_systemd_def)
  next
    case False
    with Cons one show ?thesis by (simp add: escape_systemd_def)
  qed
qed (simp add: escape_systemd_def)

lemma trim_left_blank: "trim_left_space (CHR '' '' # s) = trim_left_space s"
proof -
  have "drop_space space_runes (CHR '' '' # s) = Some s"
    by (simp add: drop_space_def space_runes_def has_prefix_def)
  then show ?thesis
    by (simp add: trim_left_space_def space_runes_nonempty trim_left_runes.simps [of _ "CHR '' '' # s"])
qed

lemma trim_left_dquote: "trim_left_space (dquote # s) = dquote # s"
  by (rule trim_left_space_id, rule drop_space_None_Cons) (simp_all add: is_ascii_def)

lemma parse_blank: "parseSystemdArguments (CHR '' '' # s) args = parseSystemdArguments s args"
  by (simp add: parseSystemdArguments.simps [of "CHR '' '' # s"] parseSystemdArguments.simps [of s] trim_left_blank)

lemma parse_quoted:
  assumes "rest = [] \<or> hd rest = CHR '' ''"
  shows "parseSystemdArguments (quoteSystemdArgument pr arg @ rest) args =
    parseSystemdArguments rest (args @ [arg])"
proof -
  let ?q = "quoteSystemdArgument pr arg"
  obtain body where body: "?q = dquote # body" by (simp add: quoteSystemdArgument_def Quote_def)
  have trim: "trim_left_space (?q @ rest) = ?q @ rest" by (simp add: body trim_left_dquote)
  have "QuotedPrefix (?q @ rest) = Some ?q" "Unquote ?q = Some (escape_systemd arg)"
    by (simp_all add: quoteSystemdArgument_def QuotedPrefix_Quote Unquote_Quote)
  moreover have "rest \<noteq> [] \<Longrightarrow> byte_is_space (hd rest)" using assms by (auto simp: byte_is_space_def)
  moreover have "hd (?q @ rest) = dquote" "?q \<noteq> []" by (simp_all add: body)
  ultimately show ?thesis
    by (simp add: parseSystemdArguments.simps [of "?q @ rest"] trim unescape_escape Let_def) blast
qed

lemma parse_nothing: "parseSystemdArguments [] args = Inr args"
  by (simp add: parseSystemdArguments.simps trim_left_space_def)

lemma parse_joined:
  "parseSystemdArguments (join_with '' '' (map (quoteSystemdArgument pr) args)) acc = Inr (acc @ args)"
proof (induction args arbitrary: acc)
  case (Cons arg args)
  show ?case
  proof (cases args)
    case Nil
    with parse_quoted [of "[]" pr arg acc] show ?thesis by (simp add: parse_nothing)
  next
    case (Cons b bs)
    with parse_quoted [of "CHR '' '' # join_with '' '' (map (quoteSystemdArgument pr) args)" pr arg acc]
      Cons.IH [of "acc @ [arg]"] show ?thesis by (simp add: parse_blank)
  qed
qed (simp add: parse_nothing)

lemma join_with_set: "set (join_with sep es) \<subseteq> set sep \<union> \<Union> (set ` set es)"
  by (induction sep es rule: join_with.induct) auto

text \<open>The lines of a written unit: only the command depends on the arguments.\<close>

lemma unit_lines:
  "split_on newline (renderSystemdUnit pr executable cfgPath cacheSeconds) =
     unit_head @ [''ExecStart='' @ join_with '' ''
       (map (quoteSystemdArgument pr) (service_args executable cfgPath cacheSeconds))] @ unit_tail"
proof -
  let ?cmd = "join_with '' '' (map (quoteSystemdArgument pr) (service_args executable cfgPath cacheSeconds))"
  have "newline \<notin> set (quoteSystemdArgument pr a)" for a
    by (simp add: quoteSystemdArgument_def Quote_no_newline)
  then have "newline \<notin> set ?cmd" using join_with_set [of "'' ''"] by fastforce
  then have "\<forall>l \<in> set (unit_head @ [''ExecStart='' @ ?cmd] @ unit_tail). newline \<notin> set l"
    by (simp add: unit_head_def unit_tail_def)
  then show ?thesis unfolding renderSystemdUnit_def Let_def
    by (intro split_on_join) (simp_all add: unit_head_def)
qed

lemma exec_start_rendered:
  "parseSystemdExecStart (renderSystemdUnit pr executable cfgPath cacheSeconds) =
     Inr (service_args executable cfgPath cacheSeconds)"
proof -
  let ?args = "service_args executable cfgPath cacheSeconds"
  have skip: "exec_start_loop (unit_head @ ls) = exec_start_loop ls" for ls
    by (simp add: unit_head_def cut_prefix_def has_prefix_def)
  have "exec_start_loop ((''ExecStart='' @ join_with '' '' (map (quoteSystemdArgument pr) ?args)) # ls) = Inr ?args"
    for ls
    using parse_joined [of pr ?args "[]"] by (simp add: cut_prefix_def has_prefix_def service_args_def)
  with skip show ?thesis by (simp add: parseSystemdExecStart_def unit_lines)
qed

lemma format_int_no_c: "CHR ''c'' \<notin> set (format_int n)"
proof -
  have "code (digit_char d) \<noteq> 99" if "d < 10" for d using that by (simp add: digit_char_def)
  then have "CHR ''c'' \<notin> digit_char ` {..<10}" by (force dest: arg_cong [of _ _ code])
  then have "CHR ''c'' \<notin> set (itoa k)" for k using itoa_digits [of k] by blast
  then show ?thesis by (simp add: format_int_def)
qed

lemma config_rendered: "configArgument (service_args executable cfgPath cacheSeconds) = cfgPath"
proof -
  let ?n = "format_int cacheSeconds"
  have "?n \<noteq> t" if "CHR ''c'' \<in> set t" for t using that format_int_no_c by metis
  then have "?n \<noteq> ''-config''" "?n \<noteq> ''--config''" "cut_prefix ''-config='' ?n = None"
    "cut_prefix ''--config='' ?n = None"
    by (simp_all add: cut_prefix_def has_prefix_iff) 
  then show ?thesis
    by (simp add: configArgument_def service_args_def) (simp add: cut_prefix_def has_prefix_def)
qed

section \<open>Properties\<close>

text \<open>
  Property C33. The unit file survives any path: whatever bytes the paths of the binary and of
  the configuration hold (quotes, percent and dollar signs, newlines, invalid UTF-8), the
  written unit has the fixed lines and one command line, so no directive can be injected;
  reading it back gives exactly the arguments written, the binary, and, through
  \<open>configArgument\<close>, the configuration path that \<open>-status\<close> and \<open>-diag\<close> report.
\<close>

theorem systemd_unit_roundtrip:
  "parseSystemdExecStart (renderSystemdUnit pr executable cfgPath cacheSeconds) =
      Inr [executable, ''-config'', cfgPath, ''--cache'', format_int cacheSeconds] \<and>
    parseSystemdExecStartBinary (renderSystemdUnit pr executable cfgPath cacheSeconds) = Inr executable \<and>
    configArgument [executable, ''-config'', cfgPath, ''--cache'', format_int cacheSeconds] = cfgPath \<and>
    (\<exists>command. split_on newline (renderSystemdUnit pr executable cfgPath cacheSeconds) =
       unit_head @ [''ExecStart='' @ command] @ unit_tail)"
  using exec_start_rendered [of pr executable cfgPath cacheSeconds]
    config_rendered [of executable cfgPath cacheSeconds] unit_lines [of pr executable cfgPath cacheSeconds]
  by (simp add: parseSystemdExecStartBinary_def service_args_def)

end
