(* ===== verification/Service.thy ===== *)
theory Service
  imports Host ServiceDefs
begin

text \<open>
  \<open>internal/service/service.go\<close>, \<open>service_linux.go\<close> and \<open>reload_unix.go\<close>: the interface of a
  service manager and what is built on it, the path a service definition runs, and the
  manager of systemd user units.

  The contract \<open>unit_manager\<close> says when a manager may be used by \<open>reinstall\<close>; it is
  interpreted on the systemd manager here and on the launchd manager in \<open>Launchd\<close>.
\<close>

section \<open>The interface\<close>

record status =
  st_Installed :: bool
  st_Running :: bool
  st_PID :: string
  st_Program :: string
  st_Config :: string

definition no_status :: status where
  "no_status = \<lparr>st_Installed = False, st_Running = False, st_PID = [], st_Program = [], st_Config = []\<rparr>"

record 'h manager =
  mg_Install :: "'h \<Rightarrow> goerr option \<times> 'h"
  mg_Uninstall :: "'h \<Rightarrow> goerr option \<times> 'h"
  mg_Start :: "'h \<Rightarrow> goerr option \<times> 'h"
  mg_Stop :: "'h \<Rightarrow> goerr option \<times> 'h"
  mg_Restart :: "'h \<Rightarrow> goerr option \<times> 'h"
  mg_Reload :: "'h \<Rightarrow> goerr option \<times> 'h"
  mg_Status :: "'h \<Rightarrow> (goerr + status) \<times> 'h"
  mg_LogHint :: string

definition reloadService ::
  "('h \<Rightarrow> (goerr + status) \<times> 'h) \<Rightarrow> (string \<Rightarrow> 'h \<Rightarrow> goerr option \<times> 'h) \<Rightarrow> 'h \<Rightarrow> goerr option \<times> 'h" where
  "reloadService get_status signal h =
     (case get_status h of
        (Inl err, h) \<Rightarrow> (Some err, h)
      | (Inr st, h) \<Rightarrow>
          if \<not> st_Installed st then (Some (ErrText ''ssh-agent-proxy is not installed''), h)
          else if \<not> st_Running st then (Some (ErrText ''ssh-agent-proxy is not running''), h)
          else if st_PID st = [] then (Some (ErrText ''ssh-agent-proxy service has no process id''), h)
          else (case signal (st_PID st) h of
                  (Some err, h) \<Rightarrow> (Some (ErrWrap (''signaling ssh-agent-proxy process '' @ st_PID st @
                      '': '' @ err_text err) [err]), h)
                | (None, h) \<Rightarrow> (None, h)))"

definition reinstall :: "'h manager \<Rightarrow> 'h \<Rightarrow> goerr option \<times> 'h" where
  "reinstall m h =
     (case mg_Status m h of
        (Inl err, h) \<Rightarrow> (Some err, h)
      | (Inr st, h) \<Rightarrow>
          if st_Installed st then then_do (mg_Uninstall m) (mg_Install m) h else mg_Install m h)"

definition signalReload :: "host_env \<Rightarrow> string \<Rightarrow> host \<Rightarrow> goerr option \<times> host" where
  "signalReload env pidValue h =
     (case Atoi pidValue of
        None \<Rightarrow> (Some (ErrText ''invalid process id''), h)
      | Some pid \<Rightarrow> if pid \<le> 0 then (Some (ErrText ''invalid process id''), h)
                    else host_SendHUP env pid h)"

section \<open>Paths\<close>

definition sameFile :: "host_env \<Rightarrow> string \<Rightarrow> string \<Rightarrow> bool" where
  "sameFile env left right = he_same_file env left right"

text \<open>The loop of \<open>stableExecutable\<close> at directory \<open>dir\<close>; it ends at the root.\<close>

function stable_loop :: "host_env \<Rightarrow> string \<Rightarrow> string \<Rightarrow> string" where
  "stable_loop env resolved dir =
     (let parent = Dir dir
      in if parent = dir then resolved
         else if Base parent = ''Cellar'' \<or> Base parent = ''Caskroom'' then
           (let link = Join [Dir parent, ''bin'', Base resolved]
            in if sameFile env link resolved then link else resolved)
         else stable_loop env resolved parent)"
  by pat_completeness auto
termination
  by (relation "measure (\<lambda>(_, _, dir). up_measure dir)") (auto intro: up_measure_Dir)

declare stable_loop.simps [simp del]

definition stableExecutable :: "host_env \<Rightarrow> string \<Rightarrow> string" where
  "stableExecutable env resolved = stable_loop env resolved (Dir resolved)"

definition CurrentExecutable :: "host_env \<Rightarrow> goerr + string" where
  "CurrentExecutable env =
     (case he_exe env of
        Inl e \<Rightarrow> Inl (ErrWrap (''locating executable: '' @ err_text e) [e])
      | Inr exe \<Rightarrow> Inr (case he_symlinks env exe of Some resolved \<Rightarrow> resolved | None \<Rightarrow> exe))"

definition executablePath :: "host_env \<Rightarrow> goerr + string" where
  "executablePath env =
     (case CurrentExecutable env of Inl e \<Rightarrow> Inl e | Inr exe \<Rightarrow> Inr (stableExecutable env exe))"

definition Abs :: "host_env \<Rightarrow> string \<Rightarrow> string option" where
  "Abs env path = (if IsAbs path then Some (Clean path)
     else map_option (\<lambda>cwd. Join [cwd, path]) (he_cwd env))"

definition normalizedPath :: "host_env \<Rightarrow> string \<Rightarrow> string" where
  "normalizedPath env path =
     (let path = (case Abs env path of Some absolute \<Rightarrow> absolute | None \<Rightarrow> path);
          path = Clean path
      in case he_symlinks env path of Some resolved \<Rightarrow> resolved | None \<Rightarrow> path)"

definition SamePath :: "host_env \<Rightarrow> string \<Rightarrow> string \<Rightarrow> bool" where
  "SamePath env left right \<longleftrightarrow> normalizedPath env left = normalizedPath env right"

definition CheckProgram :: "host_env \<Rightarrow> status \<Rightarrow> host \<Rightarrow> goerr option \<times> host" where
  "CheckProgram env st h =
     (if \<not> st_Installed st \<or> st_Program st = [] then (None, h)
      else case host_Stat env (st_Program st) h of
             (Some e, h) \<Rightarrow>
               if errors_Is e OsErrNotExist
               then (Some (ErrText ''installed service binary no longer exists; run -reinstall to install the current binary''), h)
               else (Some (ErrWrap (''checking installed service binary: '' @ err_text e) [e]), h)
           | (None, h) \<Rightarrow> (None, h))"

section \<open>The systemd manager\<close>

definition unitName :: string where "unitName = ''ssh-agent-proxy.service''"

record systemd_manager =
  sm_cfgPath :: string
  sm_cacheSeconds :: int
  sm_unitPath :: string

definition new_systemd :: "host_env \<Rightarrow> string \<Rightarrow> int \<Rightarrow> goerr + systemd_manager" where
  "new_systemd env cfgPath cacheSeconds =
     (case he_configDir env of Inl e \<Rightarrow> Inl e
      | Inr cfgDir \<Rightarrow> Inr \<lparr>sm_cfgPath = cfgPath, sm_cacheSeconds = cacheSeconds,
          sm_unitPath = Join [cfgDir, ''systemd'', ''user'', unitName]\<rparr>)"

definition systemctlOut :: "host_env \<Rightarrow> string list \<Rightarrow> host \<Rightarrow> (string \<times> goerr option) \<times> host" where
  "systemctlOut env args h =
     (let (res, h) = host_command env ([''systemctl'', ''--user''] @ args) h
      in ((cr_stdout res,
           map_option (\<lambda>e. ErrText (''systemctl --user '' @ join_with '' '' args)) (cr_err res)), h))"

definition systemctl :: "host_env \<Rightarrow> string list \<Rightarrow> host \<Rightarrow> goerr option \<times> host" where
  "systemctl env args h = (let ((out, err), h) = systemctlOut env args h in (err, h))"

definition sd_installed :: "host_env \<Rightarrow> systemd_manager \<Rightarrow> host \<Rightarrow> bool \<times> host" where
  "sd_installed env m h = (let (err, h) = host_Stat env (sm_unitPath m) h in (err = None, h))"

definition sd_Install :: "host_env \<Rightarrow> (nat \<Rightarrow> bool) \<Rightarrow> systemd_manager \<Rightarrow> host \<Rightarrow> goerr option \<times> host" where
  "sd_Install env pr m h =
     (let (inst, h) = sd_installed env m h
      in if inst then (Some (ErrSentinel ErrAlreadyInstalled), h)
         else case EnsureScaffold env (sm_cfgPath m) h of
           (Inl err, h) \<Rightarrow> (Some err, h)
         | (Inr created, h) \<Rightarrow>
             (case executablePath env of
                Inl err \<Rightarrow> (Some err, h)
              | Inr exe \<Rightarrow>
                  then_do (host_MkdirAll env (Dir (sm_unitPath m)))
                   (then_do (\<lambda>h. wrapping ''writing unit file'' (host_WriteFile env (sm_unitPath m)
                       (renderSystemdUnit pr exe (sm_cfgPath m) (sm_cacheSeconds m)) h))
                     (then_do (systemctl env [''daemon-reload''])
                       (systemctl env [''enable'', ''--now'', unitName]))) h))"

definition sd_Uninstall :: "host_env \<Rightarrow> systemd_manager \<Rightarrow> host \<Rightarrow> goerr option \<times> host" where
  "sd_Uninstall env m h =
     (let (inst, h) = sd_installed env m h;
          (disableErr, h) = (if inst then systemctl env [''disable'', ''--now'', unitName] h else (None, h));
          uninstallErr = (case disableErr of Some e \<Rightarrow> errors_Join [None, Some e] | None \<Rightarrow> None);
          (removeErr, h) = host_Remove env (sm_unitPath m) h;
          uninstallErr = (case removeErr of
              Some e \<Rightarrow> if \<not> os_IsNotExist e
                then errors_Join [uninstallErr, Some (ErrWrap (''removing unit file: '' @ err_text e) [e])]
                else uninstallErr
            | None \<Rightarrow> uninstallErr);
          (reloadErr, h) = systemctl env [''daemon-reload''] h;
          uninstallErr = (case reloadErr of Some e \<Rightarrow> errors_Join [uninstallErr, Some e] | None \<Rightarrow> uninstallErr)
      in (uninstallErr, h))"

definition execStartArguments :: "host_env \<Rightarrow> systemd_manager \<Rightarrow> host \<Rightarrow> (goerr + string list) \<times> host" where
  "execStartArguments env m h =
     (case host_ReadFile env (sm_unitPath m) h of
        (Inl e, h) \<Rightarrow> (Inl (ErrWrap (''reading unit file: '' @ err_text e) [e]), h)
      | (Inr data, h) \<Rightarrow> (parseSystemdExecStart data, h))"

text \<open>The process id systemd reports for a running unit.\<close>

definition sd_pid :: "host_env \<Rightarrow> bool \<Rightarrow> host \<Rightarrow> (goerr + string) \<times> host" where
  "sd_pid env running h =
     (if running then
        (let ((pidOut, err), h) = systemctlOut env [''show'', ''-p'', ''MainPID'', ''--value'', unitName] h
         in case err of Some e \<Rightarrow> (Inl e, h)
            | None \<Rightarrow> (let pid = trim_space pidOut
                       in (Inr (if pid \<noteq> [] \<and> pid \<noteq> ''0'' then pid else []), h)))
      else (Inr [], h))"

definition sd_status_rest :: "host_env \<Rightarrow> systemd_manager \<Rightarrow> bool \<Rightarrow> host \<Rightarrow> (goerr + status) \<times> host" where
  "sd_status_rest env m running h =
     (case sd_pid env running h of
        (Inl e, h) \<Rightarrow> (Inl e, h)
      | (Inr pid, h) \<Rightarrow>
     (case execStartArguments env m h of
        (Inl e, h) \<Rightarrow> (Inl e, h)
      | (Inr args, h) \<Rightarrow>
          (Inr \<lparr>st_Installed = True, st_Running = running, st_PID = pid,
             st_Program = (if args \<noteq> [] then hd args else []), st_Config = configArgument args\<rparr>, h)))"

definition sd_Status :: "host_env \<Rightarrow> systemd_manager \<Rightarrow> host \<Rightarrow> (goerr + status) \<times> host" where
  "sd_Status env m h =
     (case host_Stat env (sm_unitPath m) h of
        (Some e, h) \<Rightarrow> if \<not> os_IsNotExist e
            then (Inl (ErrWrap (''checking unit file: '' @ err_text e) [e]), h)
            else (Inr no_status, h)
      | (None, h) \<Rightarrow>
     (let ((activeOut, activeErr), h) = systemctlOut env [''is-active'', unitName] h;
          active = trim_space activeOut
      in if activeErr \<noteq> None \<and> active \<noteq> ''inactive'' \<and> active \<noteq> ''failed'' then (Inl (the activeErr), h)
         else sd_status_rest env m (active = ''active'') h))"

definition systemdManager :: "host_env \<Rightarrow> (nat \<Rightarrow> bool) \<Rightarrow> systemd_manager \<Rightarrow> host manager" where
  "systemdManager env pr m =
     \<lparr>mg_Install = sd_Install env pr m, mg_Uninstall = sd_Uninstall env m,
      mg_Start = systemctl env [''start'', unitName], mg_Stop = systemctl env [''stop'', unitName],
      mg_Restart = systemctl env [''restart'', unitName],
      mg_Reload = reloadService (sd_Status env m) (signalReload env),
      mg_Status = sd_Status env m,
      mg_LogHint = ''systemd journal (journalctl --user -u '' @ unitName @ '')''\<rparr>"

section \<open>The contract of reinstallation\<close>

text \<open>
  \<open>unit_of\<close> is the installed definition, \<open>wanted\<close> the one this binary installs (none when its
  own path is unknown), \<open>cfg_of\<close> the user's configuration file. A status speaks of the
  definition; a successful uninstallation leaves none, and a successful installation leaves
  the wanted one; installation is refused as a repeated one only when there is a definition;
  and an existing configuration is kept by all three.
\<close>

locale unit_manager =
  fixes m :: "'h manager" and unit_of :: "'h \<Rightarrow> 'd option" and wanted :: "'d option"
    and cfg_of :: "'h \<Rightarrow> 'c option"
  assumes status_unit: "mg_Status m h = (Inr st, h') \<Longrightarrow>
      unit_of h' = unit_of h \<and> (st_Installed st \<longleftrightarrow> unit_of h \<noteq> None)"
    and status_error: "mg_Status m h = (Inl e, h') \<Longrightarrow> e \<noteq> ErrSentinel ErrAlreadyInstalled"
    and status_cfg: "mg_Status m h = (r, h') \<Longrightarrow> cfg_of h' = cfg_of h"
    and install_unit: "mg_Install m h = (None, h') \<Longrightarrow> wanted \<noteq> None \<and> unit_of h' = wanted"
    and install_refused: "mg_Install m h = (Some (ErrSentinel ErrAlreadyInstalled), h') \<Longrightarrow>
      unit_of h \<noteq> None"
    and install_cfg: "mg_Install m h = (e', h') \<Longrightarrow> cfg_of h \<noteq> None \<Longrightarrow> cfg_of h' = cfg_of h"
    and uninstall_unit: "mg_Uninstall m h = (None, h') \<Longrightarrow> unit_of h' = None"
    and uninstall_error: "mg_Uninstall m h = (Some e, h') \<Longrightarrow> e \<noteq> ErrSentinel ErrAlreadyInstalled"
    and uninstall_cfg: "mg_Uninstall m h = (e', h') \<Longrightarrow> cfg_of h' = cfg_of h"
begin

text \<open>The three ways a reinstallation goes.\<close>

lemma reinstall_cases:
  assumes "reinstall m h = (err, h')"
  obtains (status) e where "err = Some e" "mg_Status m h = (Inl e, h')"
  | (uninstall) st h1 e where "err = Some e" "mg_Status m h = (Inr st, h1)"
      "mg_Uninstall m h1 = (Some e, h')"
  | (install) h2 where "mg_Install m h2 = (err, h')" "unit_of h2 = None"
      "cfg_of h2 = cfg_of h"
proof -
  obtain r h1 where s: "mg_Status m h = (r, h1)" by fastforce
  note keep = status_cfg [OF s]
  show thesis
  proof (cases r)
    case (Inl e)
    with assms s status [of e] show thesis by (auto simp: reinstall_def)
  next
    case (Inr st)
    note unit = status_unit [OF s [unfolded Inr]]
    show thesis
    proof (cases "st_Installed st")
      case False
      with assms s Inr unit keep install [of h1] show thesis by (simp add: reinstall_def)
    next
      case True
      obtain ue h2 where u: "mg_Uninstall m h1 = (ue, h2)" by fastforce
      show thesis
      proof (cases ue)
        case None
        with assms s Inr True u keep install [of h2] uninstall_unit [OF u [unfolded None]]
          uninstall_cfg [OF u] show thesis
          by (simp add: reinstall_def then_do_def)
      next
        case (Some e)
        with assms s Inr True u uninstall [of e st h1] show thesis by (auto simp: reinstall_def then_do_def)
      qed
    qed
  qed
qed

lemma reinstall_unit:
  assumes "reinstall m h = (None, h')"
  shows "wanted \<noteq> None \<and> unit_of h' = wanted"
  using assms by (cases rule: reinstall_cases) (simp_all add: install_unit)

lemma reinstall_not_refused:
  assumes "reinstall m h = (Some e, h')"
  shows "e \<noteq> ErrSentinel ErrAlreadyInstalled"
  using assms
proof (cases rule: reinstall_cases)
  case (install h2)
  with install_refused [of h2 h'] show ?thesis by auto
qed (auto dest: status_error uninstall_error)

lemma reinstall_cfg:
  assumes "reinstall m h = (err, h')" "cfg_of h \<noteq> None"
  shows "cfg_of h' = cfg_of h"
  using assms(1)
proof (cases rule: reinstall_cases)
  case (uninstall st h1 e)
  then show ?thesis using status_cfg uninstall_cfg by metis
next
  case (install h2)
  then show ?thesis using install_cfg assms(2) by metis
qed (auto dest: status_cfg)

end

section \<open>The systemd manager keeps it\<close>

lemma systemctlOutD:
  "systemctlOut env args h = (r, h') \<Longrightarrow> h_files h' = h_files h \<and> h_signals h' = h_signals h \<and>
     (\<forall>e. snd r = Some e \<longrightarrow> (\<exists>t. e = ErrText t))"
  by (auto simp: systemctlOut_def dest!: host_commandD split: prod.splits)

lemma systemctlD:
  "systemctl env args h = (r, h') \<Longrightarrow> h_files h' = h_files h \<and> h_signals h' = h_signals h \<and>
     (\<forall>e. r = Some e \<longrightarrow> (\<exists>t. e = ErrText t))"
  by (auto simp: systemctl_def dest!: systemctlOutD split: prod.splits)

lemma sd_installedD:
  "sd_installed env m h = (b, h') \<Longrightarrow> h_files h' = h_files h \<and> h_signals h' = h_signals h \<and>
     (b \<longrightarrow> h_files h (sm_unitPath m) \<noteq> None)"
  by (auto simp: sd_installed_def dest!: host_StatD split: prod.splits option.splits)

lemma not_sentinel_simps [simp]:
  "ErrText t \<noteq> ErrSentinel x" "ErrWrap t es \<noteq> ErrSentinel x" "ErrJoin es \<noteq> ErrSentinel x"
  by simp_all

lemma parse_error_text: "parseSystemdArguments line args = Inl e \<Longrightarrow> \<exists>t. e = ErrText t"
proof (induction line args rule: parseSystemdArguments.induct)
  case (1 line args)
  from 1(3) show ?case
    by (subst (asm) parseSystemdArguments.simps)
      (auto simp: Let_def split: if_splits option.splits intro: 1(1,2))
qed

lemma exec_start_error: "exec_start_loop ls = Inl e \<Longrightarrow> e \<noteq> ErrSentinel x"
  by (induction ls) (auto split: option.splits sum.splits if_splits)

lemma sd_StatusD:
  assumes "sd_Status env m h = (r, h')"
  shows "h_files h' = h_files h \<and> h_signals h' = h_signals h \<and>
    (case r of Inl e \<Rightarrow> e \<noteq> ErrSentinel x
     | Inr st \<Rightarrow> st_Installed st = (h_files h (sm_unitPath m) \<noteq> None))"
proof -
  obtain s h1 where s: "host_Stat env (sm_unitPath m) h = (s, h1)" by fastforce
  obtain a h2 where a: "systemctlOut env [''is-active'', unitName] h1 = (a, h2)" by fastforce
  obtain b h3 where b: "sd_pid env (trim_space (fst a) = ''active'') h2 = (b, h3)" by fastforce
  obtain c h4 where c: "execStartArguments env m h3 = (c, h4)" by fastforce
  have bd: "h_files h3 = h_files h2 \<and> h_signals h3 = h_signals h2 \<and> (\<forall>e. b = Inl e \<longrightarrow> (\<exists>t. e = ErrText t))"
    using b by (auto simp: sd_pid_def Let_def dest!: systemctlOutD split: prod.splits option.splits if_splits)
  have cd: "h_files h4 = h_files h3 \<and> h_signals h4 = h_signals h3 \<and> (\<forall>e. c = Inl e \<longrightarrow> e \<noteq> ErrSentinel x)"
    using c by (auto simp: execStartArguments_def parseSystemdExecStart_def
        dest!: host_ReadFileD exec_start_error split: prod.splits sum.splits)
  note sd = host_StatD [OF s] and ad = systemctlOutD [OF a]
  show ?thesis
  proof (cases s)
    case (Some e)
    with assms s sd show ?thesis by (auto simp: sd_Status_def no_status_def split: if_splits)
  next
    case None
    show ?thesis
    proof (cases "snd a \<noteq> None \<and> trim_space (fst a) \<noteq> ''inactive'' \<and> trim_space (fst a) \<noteq> ''failed''")
      case True
      with assms s None a sd ad show ?thesis by (auto simp: sd_Status_def split_beta Let_def)
    next
      case False
      with assms s None a have "sd_status_rest env m (trim_space (fst a) = ''active'') h2 = (r, h')"
        by (auto simp: sd_Status_def split_beta Let_def)
      with b c bd cd sd ad None show ?thesis
        by (auto simp: sd_status_rest_def split: sum.splits)
    qed
  qed
qed

lemma sd_UninstallD:
  assumes "sd_Uninstall env m h = (r, h')"
  shows "(\<forall>p. p \<noteq> sm_unitPath m \<longrightarrow> h_files h' p = h_files h p) \<and>
    (r = None \<longrightarrow> h_files h' (sm_unitPath m) = None) \<and> r \<noteq> Some (ErrSentinel x)"
proof -
  obtain i h1 where i: "sd_installed env m h = (i, h1)" by fastforce
  obtain d h2 where d: "(if i then systemctl env [''disable'', ''--now'', unitName] h1 else (None, h1)) = (d, h2)"
    by fastforce
  obtain v h3 where v: "host_Remove env (sm_unitPath m) h2 = (v, h3)" by fastforce
  obtain l h4 where l: "systemctl env [''daemon-reload''] h3 = (l, h4)" by fastforce
  have dd: "h_files h2 = h_files h1" using d by (auto dest!: systemctlD split: if_splits)
  note vd = host_RemoveD [OF v]
  have h': "h' = h4" using assms i d v l by (auto simp: sd_Uninstall_def Let_def split_beta)
  have r: "r \<noteq> Some (ErrSentinel x)"
    using assms i d v l systemctlD [OF l] by (auto simp: sd_Uninstall_def Let_def split: option.splits if_splits)
  have "h_files h3 (sm_unitPath m) = None" if "r = None"
    using assms i d v l vd that by (auto simp: sd_Uninstall_def Let_def errors_Join_None_iff split: option.splits if_splits)
  with r h' vd dd sd_installedD [OF i] systemctlD [OF l] show ?thesis by auto
qed

lemma EnsureScaffold_error: "EnsureScaffold env path h = (r, h') \<Longrightarrow> r \<noteq> Inl (ErrSentinel x)"
  by (auto simp: EnsureScaffold_def split: prod.splits option.splits if_splits)

lemma executablePath_error: "executablePath env \<noteq> Inl (ErrSentinel x)"
  by (auto simp: executablePath_def CurrentExecutable_def split: sum.splits)

lemma sd_InstallD:
  assumes "sd_Install env pr m h = (r, h')"
  shows "(r = None \<longrightarrow> (\<exists>exe. executablePath env = Inr exe \<and>
      h_files h' (sm_unitPath m) = Some (renderSystemdUnit pr exe (sm_cfgPath m) (sm_cacheSeconds m)))) \<and>
    (r = Some (ErrSentinel ErrAlreadyInstalled) \<longrightarrow> h_files h (sm_unitPath m) \<noteq> None) \<and>
    (\<forall>p. p \<noteq> sm_unitPath m \<and> h_files h p \<noteq> None \<longrightarrow> h_files h' p = h_files h p)"
proof -
  obtain i h1 where i: "sd_installed env m h = (i, h1)" by fastforce
  obtain e h2 where e: "EnsureScaffold env (sm_cfgPath m) h1 = (e, h2)" by fastforce
  note id = sd_installedD [OF i] and ed = EnsureScaffoldD [OF e]
  have keep: "h_files h2 p = h_files h p" if "h_files h p \<noteq> None" for p
    using ed id that by (cases "p = sm_cfgPath m") auto
  show ?thesis
  proof (cases "i \<or> (\<exists>x. e = Inl x) \<or> (\<exists>x. executablePath env = Inl x)")
    case True
    then show ?thesis using assms i e id keep EnsureScaffold_error [OF e] executablePath_error
      by (auto simp: sd_Install_def Let_def split: if_splits sum.splits)
  next
    case False
    then obtain cr exe where x: "\<not> i" "e = Inr cr" "executablePath env = Inr exe"
      by (cases e; cases "executablePath env") auto
    let ?unit = "renderSystemdUnit pr exe (sm_cfgPath m) (sm_cacheSeconds m)"
    obtain k h3 where k: "host_MkdirAll env (Dir (sm_unitPath m)) h2 = (k, h3)" by fastforce
    obtain v h4 where v: "host_WriteFile env (sm_unitPath m) ?unit h3 = (v, h4)" by fastforce
    obtain l h5 where l: "systemctl env [''daemon-reload''] h4 = (l, h5)" by fastforce
    obtain n h6 where n: "systemctl env [''enable'', ''--now'', unitName] h5 = (n, h6)" by fastforce
    note ds = host_callD [OF k [unfolded host_MkdirAll_def]] host_WriteFileD [OF v] systemctlD [OF l] systemctlD [OF n]
    from assms i e x k v l n have r: "(r, h') = (case k of Some y \<Rightarrow> (Some y, h3)
      | None \<Rightarrow> (case v of Some y \<Rightarrow> (Some (ErrWrap (''writing unit file: '' @ err_text y) [y]), h4)
      | None \<Rightarrow> (case l of Some y \<Rightarrow> (Some y, h5) | None \<Rightarrow> (n, h6))))"
      by (auto simp: sd_Install_def then_do_def wrapping_def split: option.splits)
    have "\<forall>y. k = Some y \<longrightarrow> y \<noteq> ErrSentinel ErrAlreadyInstalled"
      using k by (auto simp: host_MkdirAll_def host_call_def)
    with r ds keep x show ?thesis by (auto split: option.splits)
  qed
qed

text \<open>The configuration is a file of its own.\<close>

definition cfg_file :: "systemd_manager \<Rightarrow> host \<Rightarrow> string option" where
  "cfg_file m h = (if sm_cfgPath m = sm_unitPath m then None else h_files h (sm_cfgPath m))"

definition wanted_unit :: "host_env \<Rightarrow> (nat \<Rightarrow> bool) \<Rightarrow> systemd_manager \<Rightarrow> string option" where
  "wanted_unit env pr m = (case executablePath env of Inl e \<Rightarrow> None
     | Inr exe \<Rightarrow> Some (renderSystemdUnit pr exe (sm_cfgPath m) (sm_cacheSeconds m)))"

interpretation systemd: unit_manager "systemdManager env pr m" "\<lambda>h. h_files h (sm_unitPath m)"
  "wanted_unit env pr m" "cfg_file m" for env pr m
proof (unfold_locales, goal_cases)
  case (1 h st h')
  then show ?case using sd_StatusD by (fastforce simp: systemdManager_def)
next
  case (2 h e h')
  then show ?case using sd_StatusD by (fastforce simp: systemdManager_def)
next
  case (3 h r h')
  then show ?case using sd_StatusD by (fastforce simp: systemdManager_def cfg_file_def)
next
  case (4 h h')
  then show ?case by (auto simp: systemdManager_def wanted_unit_def dest!: sd_InstallD)
next
  case (5 h h')
  then show ?case by (auto simp: systemdManager_def dest!: sd_InstallD)
next
  case (6 h e h')
  then show ?case by (auto simp: systemdManager_def cfg_file_def dest!: sd_InstallD split: if_splits)
next
  case (7 h h')
  then show ?case using sd_UninstallD by (fastforce simp: systemdManager_def)
next
  case (8 h e h')
  then show ?case using sd_UninstallD by (fastforce simp: systemdManager_def)
next
  case (9 h e h')
  then show ?case using sd_UninstallD by (fastforce simp: systemdManager_def cfg_file_def)
qed

lemma installed_status:
  assumes "h_files h (sm_unitPath m) = Some (renderSystemdUnit pr exe (sm_cfgPath m) (sm_cacheSeconds m))"
    and "sd_Status env m h = (Inr st, h')"
  shows "st_Installed st \<and> st_Program st = exe \<and> st_Config st = sm_cfgPath m"
proof -
  obtain s h1 where s: "host_Stat env (sm_unitPath m) h = (s, h1)" by fastforce
  obtain a h2 where a: "systemctlOut env [''is-active'', unitName] h1 = (a, h2)" by fastforce
  have "s = None" using assms s host_StatD [OF s] by (auto simp: sd_Status_def split: option.splits if_splits)
  with assms(2) s a have r: "sd_status_rest env m (trim_space (fst a) = ''active'') h2 = (Inr st, h')"
    by (auto simp: sd_Status_def split_beta Let_def split: if_splits)
  then obtain pid h3 args where p: "sd_pid env (trim_space (fst a) = ''active'') h2 = (Inr pid, h3)"
    and e: "execStartArguments env m h3 = (Inr args, h')"
    and st: "st_Installed st" "st_Program st = (if args \<noteq> [] then hd args else [])" "st_Config st = configArgument args"
    by (auto simp: sd_status_rest_def split: prod.splits sum.splits)
  have "h_files h3 = h_files h"
    using p host_StatD [OF s] systemctlOutD [OF a]
    by (auto simp: sd_pid_def Let_def dest!: systemctlOutD split: prod.splits option.splits if_splits)
  with e assms(1) have "args = service_args exe (sm_cfgPath m) (sm_cacheSeconds m)"
    by (auto simp: execStartArguments_def exec_start_rendered dest!: host_ReadFileD split: prod.splits sum.splits)
  with st config_rendered show ?thesis by (simp add: service_args_def)
qed

section \<open>Reload signals\<close>

lemma signalReloadD:
  "signalReload env pidValue h = (r, h') \<Longrightarrow>
   (r = None \<longrightarrow> (\<exists>pid. Atoi pidValue = Some pid \<and> 0 < pid \<and> h_signals h' = h_signals h @ [pid])) \<and>
   (r \<noteq> None \<longrightarrow> h_signals h' = h_signals h) \<and> h_files h' = h_files h"
  by (auto simp: signalReload_def host_SendHUP_def dest!: host_callD
      split: option.splits if_splits prod.splits)

lemma reloadServiceD:
  assumes "reloadService get_status (signalReload env) h = (r, h')"
    and "\<And>h st h'. get_status h = (st, h') \<Longrightarrow> h_signals h' = h_signals h"
  shows "(r \<noteq> None \<longrightarrow> h_signals h' = h_signals h) \<and>
    (r = None \<longrightarrow> (\<exists>st h1 pid. get_status h = (Inr st, h1) \<and> st_Installed st \<and> st_Running st \<and>
       Atoi (st_PID st) = Some pid \<and> 0 < pid \<and> h_signals h' = h_signals h @ [pid]))"
proof -
  obtain s h1 where s: "get_status h = (s, h1)" by fastforce
  note same = assms(2) [OF s]
  show ?thesis
  proof (cases s)
    case (Inl e)
    with assms(1) s same show ?thesis by (auto simp: reloadService_def)
  next
    case (Inr st)
    obtain g h2 where g: "signalReload env (st_PID st) h1 = (g, h2)" by fastforce
    from assms(1) s Inr g same signalReloadD [OF g] show ?thesis
      by (auto simp: reloadService_def split: if_splits option.splits)
  qed
qed

section \<open>Properties\<close>

definition quiet_host :: host_env where
  "quiet_host = \<lparr>he_fail = (\<lambda>_. None), he_left = (\<lambda>_. None),
     he_cmd = (\<lambda>_. \<lparr>cr_stdout = ''active'', cr_stderr = [], cr_err = None\<rparr>),
     he_kill0 = (\<lambda>_. None), he_same_file = (\<lambda>_ _. False), he_symlinks = (\<lambda>_. None), he_cwd = None,
     he_exe = Inr ''/opt/p'', he_configDir = Inr ''/h/.config''\<rparr>"

definition sample_manager :: systemd_manager where
  "sample_manager = \<lparr>sm_cfgPath = ''/h/c.yaml'', sm_cacheSeconds = 3, sm_unitPath = ''/h/u''\<rparr>"

definition new_host :: host where
  "new_host = \<lparr>h_files = (\<lambda>_. None)(''/h/c.yaml'' \<mapsto> ''upstream: /a''), h_commands = [], h_signals = [],
     h_tick = 0\<rparr>"

definition running_host :: host where
  "running_host = new_host\<lparr>h_files := (\<lambda>_. None)(''/h/u'' \<mapsto> ''ExecStart=/p'')\<rparr>"

text \<open>
  Property C34. Reinstalling replaces the service and nothing else: whatever fails on the way,
  \<open>-reinstall\<close> never reports that the service is already installed and never changes an
  existing configuration; and when it succeeds, any later status that does not fail reports
  the service installed, with this binary's path and this configuration.
\<close>

theorem reinstall_replaces_unit:
  assumes "reinstall (systemdManager env pr m) h = (err, h1)" "sm_cfgPath m \<noteq> sm_unitPath m"
  shows "err \<noteq> Some (ErrSentinel ErrAlreadyInstalled) \<and>
    (h_files h (sm_cfgPath m) \<noteq> None \<longrightarrow> h_files h1 (sm_cfgPath m) = h_files h (sm_cfgPath m)) \<and>
    (err = None \<longrightarrow> (\<exists>exe. executablePath env = Inr exe \<and>
      (\<forall>env' st h2. sd_Status env' m h1 = (Inr st, h2) \<longrightarrow>
         st_Installed st \<and> st_Program st = exe \<and> st_Config st = sm_cfgPath m)))"
proof (intro conjI impI)
  show "err \<noteq> Some (ErrSentinel ErrAlreadyInstalled)"
    using systemd.reinstall_not_refused [of env pr m h] assms(1) by auto
  show "h_files h1 (sm_cfgPath m) = h_files h (sm_cfgPath m)" if "h_files h (sm_cfgPath m) \<noteq> None"
    using systemd.reinstall_cfg [OF assms(1)] assms(2) that by (simp add: cfg_file_def)
  assume "err = None"
  note u = systemd.reinstall_unit [OF assms(1) [unfolded this]]
  then obtain exe where "executablePath env = Inr exe"
    "h_files h1 (sm_unitPath m) = Some (renderSystemdUnit pr exe (sm_cfgPath m) (sm_cacheSeconds m))"
    by (cases "executablePath env") (auto simp: wanted_unit_def)
  with installed_status show "\<exists>exe. executablePath env = Inr exe \<and>
    (\<forall>env' st h2. sd_Status env' m h1 = (Inr st, h2) \<longrightarrow>
       st_Installed st \<and> st_Program st = exe \<and> st_Config st = sm_cfgPath m)" by blast
qed

lemma sample_executable: "executablePath quiet_host = Inr ''/opt/p''"
  by code_simp

lemmas host_ops = host_call_def host_ReadFile_def host_Stat_def host_WriteFile_def host_Remove_def
  host_MkdirAll_def host_command_def host_SendHUP_def then_do_def wrapping_def EnsureScaffold_def

lemma sample_reinstall:
  "\<exists>h1. reinstall (systemdManager quiet_host (\<lambda>_. True) sample_manager) new_host = (None, h1)"
proof -
  have "reinstall (systemdManager quiet_host (\<lambda>_. True) sample_manager) new_host =
    sd_Install quiet_host (\<lambda>_. True) sample_manager (new_host\<lparr>h_tick := 1\<rparr>)"
    by (simp add: reinstall_def systemdManager_def sd_Status_def host_ops quiet_host_def new_host_def
        sample_manager_def no_status_def os_IsNotExist_def)
  also have "\<exists>h1. sd_Install quiet_host (\<lambda>_. True) sample_manager (new_host\<lparr>h_tick := 1\<rparr>) = (None, h1)"
    by (simp add: sd_Install_def sd_installed_def systemctl_def systemctlOut_def host_ops quiet_host_def
        new_host_def sample_manager_def sample_executable [unfolded quiet_host_def])
  finally show ?thesis .
qed

theorem reinstall_replaces_unit_witness:
  "\<exists>h1. reinstall (systemdManager quiet_host (\<lambda>_. True) sample_manager) new_host = (None, h1) \<and>
     (\<forall>env' st h2. sd_Status env' sample_manager h1 = (Inr st, h2) \<longrightarrow> st_Program st = ''/opt/p'')"
proof -
  obtain h1 where r: "reinstall (systemdManager quiet_host (\<lambda>_. True) sample_manager) new_host = (None, h1)"
    using sample_reinstall by blast
  have "executablePath quiet_host = Inr ''/opt/p''" by (rule sample_executable)
  moreover have "sm_cfgPath sample_manager \<noteq> sm_unitPath sample_manager" by (simp add: sample_manager_def)
  ultimately show ?thesis using reinstall_replaces_unit [OF r] r by auto
qed

text \<open>
  Property C35. \<open>-reload\<close> signals the service's own process or nothing: SIGHUP goes to at most
  one process, the one systemd reports as the main process of the installed and running
  unit, with a positive number, so never to a process group or to every process; when the
  command fails, no signal was sent.
\<close>

theorem reload_signals_service_only:
  assumes "mg_Reload (systemdManager env pr m) h = (err, h')"
  shows "(err \<noteq> None \<longrightarrow> h_signals h' = h_signals h) \<and>
    (err = None \<longrightarrow> (\<exists>st h1 pid. sd_Status env m h = (Inr st, h1) \<and> st_Installed st \<and>
       st_Running st \<and> Atoi (st_PID st) = Some pid \<and> 0 < pid \<and> h_signals h' = h_signals h @ [pid]))"
proof -
  have "reloadService (sd_Status env m) (signalReload env) h = (err, h')"
    using assms by (simp add: systemdManager_def)
  from reloadServiceD [OF this] show ?thesis using sd_StatusD by blast
qed

lemma sample_reload:
  "fst (mg_Reload (systemdManager (quiet_host\<lparr>he_cmd := (\<lambda>n. \<lparr>cr_stdout = (if n = 1 then ''active'' else ''412''),
     cr_stderr = [], cr_err = None\<rparr>)\<rparr>) (\<lambda>_. True) sample_manager) running_host) = None"
  by code_simp

theorem reload_signals_service_only_witness:
  "\<exists>env h' pid. mg_Reload (systemdManager env (\<lambda>_. True) sample_manager) running_host = (None, h') \<and>
     0 < pid \<and> h_signals h' = [pid]"
proof -
  obtain env h' where r: "mg_Reload (systemdManager env (\<lambda>_. True) sample_manager) running_host = (None, h')"
    using sample_reload by (metis prod.collapse)
  from reload_signals_service_only [OF r] r show ?thesis by (auto simp: running_host_def new_host_def)
qed

end
