(* ===== verification/GoXml.thy ===== *)
theory GoXml
  imports GoQuote GoErr
begin

text \<open>
  Go's \<open>encoding/xml\<close> as far as the program uses it: the token writer of an \<open>Encoder\<close> with
  its indentation and its stack of open elements, the escaping of text, and the reading of
  the strings at one path of a document. The reader covers the documents the writer makes
  (names of letters, the one attribute, the eight escapes, text without carriage returns);
  on any other document it answers \<open>None\<close>, which its user passes to a parameter.
\<close>

section \<open>Text\<close>

abbreviation lt :: char where "lt \<equiv> CHR ''<''"
abbreviation gt :: char where "gt \<equiv> CHR ''>''"
abbreviation amp :: char where "amp \<equiv> CHR 0x26"

definition isInCharacterRange :: "nat \<Rightarrow> bool" where
  "isInCharacterRange r \<longleftrightarrow> r = 9 \<or> r = 10 \<or> r = 13 \<or> in_range 32 55295 r \<or> in_range 57344 65533 r \<or>
     in_range 65536 1114111 r"

definition xml_escapes :: "(nat \<times> string) list" where
  "xml_escapes =
     [(34, amp # ''#34;''), (39, amp # ''#39;''), (38, amp # ''amp;''), (60, amp # ''lt;''),
      (62, amp # ''gt;''), (9, amp # ''#x9;''), (10, amp # ''#xA;''), (13, amp # ''#xD;'')]"

text \<open>One round of the loop of \<open>EscapeString\<close>: what is written, what a reader makes of it, and the width.\<close>

definition unreadable :: "nat \<Rightarrow> nat \<Rightarrow> bool" where
  "unreadable r w \<longleftrightarrow> \<not> isInCharacterRange r \<or> (r = RuneError \<and> w = 1)"

definition xml_escape_step :: "string \<Rightarrow> string" where
  "xml_escape_step s =
     (let (r, w) = DecodeRune s
      in case map_of xml_escapes r of Some e \<Rightarrow> e
         | None \<Rightarrow> if unreadable r w then AppendRune RuneError else take w s)"

definition xml_clean_step :: "string \<Rightarrow> string" where
  "xml_clean_step s = (let (r, w) = DecodeRune s in if unreadable r w then AppendRune RuneError else take w s)"

definition rune_width :: "string \<Rightarrow> nat" where
  "rune_width s = max 1 (snd (DecodeRune s))"

function xml_escape :: "string \<Rightarrow> string" where
  "xml_escape s = (if s = [] then [] else xml_escape_step s @ xml_escape (drop (rune_width s) s))"
  by pat_completeness auto
termination by (relation "measure length") (auto simp: rune_width_def)

text \<open>The text a document can hold: anything else becomes the replacement character.\<close>

function xml_clean :: "string \<Rightarrow> string" where
  "xml_clean s = (if s = [] then [] else xml_clean_step s @ xml_clean (drop (rune_width s) s))"
  by pat_completeness auto
termination by (relation "measure length") (auto simp: rune_width_def)

function xml_text :: "string \<Rightarrow> bool" where
  "xml_text s =
     (if s = [] then True
      else (case DecodeRune s of (r, w) \<Rightarrow> \<not> unreadable r w) \<and> xml_text (drop (rune_width s) s))"
  by pat_completeness auto
termination by (relation "measure length") (auto simp: rune_width_def)

declare xml_escape.simps [simp del] xml_clean.simps [simp del] xml_text.simps [simp del]

definition read_char :: "string \<Rightarrow> (string \<times> string) option" where
  "read_char s =
     (if has_prefix [amp] s
      then map_option (\<lambda>(r, e). ([char_of r], drop (length e) s)) (find (\<lambda>(r, e). has_prefix e s) xml_escapes)
      else case utf8_decode s of None \<Rightarrow> None
           | Some (r, w) \<Rightarrow> if isInCharacterRange r \<and> r \<noteq> 13 \<and> r \<noteq> code gt
                          then Some (take w s, drop (max 1 w) s) else None)"

lemma read_char_shorter:
  assumes "read_char s = Some (bs, t)" "s \<noteq> []"
  shows "length t < length s"
proof -
  have "\<exists>n > 0. t = drop n s"
    using assms(1)
  proof (cases "has_prefix [amp] s")
    case True
    with assms(1) obtain r e where "find (\<lambda>(r, e). has_prefix e s) xml_escapes = Some (r, e)"
      "t = drop (length e) s" by (auto simp: read_char_def)
    moreover from this have "(r, e) \<in> set xml_escapes" by (metis find_Some_iff nth_mem)
    then have "e \<noteq> []" by (auto simp: xml_escapes_def)
    ultimately show ?thesis by blast
  next
    case False
    with assms(1) obtain w where "t = drop (max 1 w) s"
      by (auto simp: read_char_def split: option.splits if_splits)
    moreover have "0 < max 1 w" by simp
    ultimately show ?thesis by blast
  qed
  with assms(2) show ?thesis by auto
qed

text \<open>The text up to the next tag.\<close>

function read_text :: "string \<Rightarrow> (string \<times> string) option" where
  "read_text s =
     (if s = [] \<or> hd s = lt then Some ([], s)
      else case read_char s of None \<Rightarrow> None
           | Some (bs, t) \<Rightarrow> map_option (\<lambda>(u, v). (bs @ u, v)) (read_text t))"
  by pat_completeness auto
termination by (relation "measure length") (auto dest: read_char_shorter)

declare read_text.simps [simp del]

lemma xml_escape_Nil [simp]: "xml_escape [] = []"
  by (simp add: xml_escape.simps)

lemma xml_clean_Nil [simp]: "xml_clean [] = []"
  by (simp add: xml_clean.simps)

lemma read_text_Nil [simp]: "read_text [] = Some ([], [])"
  by (simp add: read_text.simps)

lemma read_text_tag [simp]: "read_text (lt # s) = Some ([], lt # s)"
  by (simp add: read_text.simps)

lemma xml_text_clean: "xml_text s \<Longrightarrow> xml_clean s = s"
proof (induction s rule: xml_clean.induct)
  case (1 s)
  show ?case
  proof (cases "s = []")
    case False
    obtain r w where d: "DecodeRune s = (r, w)" by fastforce
    with 1(2) False have "\<not> unreadable r w" "xml_text (drop (rune_width s) s)"
      by (simp_all add: xml_text.simps [of s])
    moreover have "take w s = take (rune_width s) s"
    proof (cases "utf8_decode s")
      case None
      with False d have "w = 1" by (simp add: DecodeRune_def)
      then show ?thesis by (simp add: rune_width_def d)
    next
      case (Some rw)
      with d decode_encode [of s r w] have "0 < w" by (simp add: DecodeRune_def)
      then show ?thesis by (simp add: rune_width_def d max_def)
    qed
    ultimately show ?thesis using 1(1) [OF False] False
      by (simp add: xml_clean.simps [of s] xml_clean_step_def d)
  qed simp
qed

text \<open>What one round writes is read back as one character, and holds no markup.\<close>

definition xml_written :: "string \<Rightarrow> string \<Rightarrow> bool" where
  "xml_written out bs \<longleftrightarrow> (\<forall>rest. read_char (out @ rest) = Some (bs, rest)) \<and> out \<noteq> [] \<and> lt \<notin> set out"

lemma xml_written_entity: "map_of xml_escapes r = Some e \<Longrightarrow> xml_written e [char_of r]"
  by (auto simp: xml_escapes_def xml_written_def read_char_def has_prefix_def split: if_splits)

lemma xml_written_rune:
  assumes "utf8_decode s = Some (r, w)" "isInCharacterRange r" "map_of xml_escapes r = None"
  shows "xml_written (take w s) (take w s)"
proof -
  note d = decode_encode [OF assms(1)]
  have enc: "take w s = encode_valid r" "ValidRune r" and w: "0 < w" "w \<le> length s" using d by auto
  have nb: "code c = r \<or> 128 \<le> code c" if "c \<in> set (take w s)" for c
    using that enc encode_valid_not_ascii [of r c] by (cases "r < 128") (auto simp: encode_valid_def)
  have r: "r \<noteq> 13" "r \<noteq> code gt" "r \<noteq> code lt" "r \<noteq> code amp"
    using assms(3) by (auto simp: xml_escapes_def split: if_splits)
  have "lt \<notin> set (take w s)" using nb [of lt] r by auto
  moreover have "read_char (take w s @ rest) = Some (take w s, rest)" for rest
  proof -
    have dec: "utf8_decode (take w s @ rest) = Some (r, w)" using d by blast
    have "amp \<notin> set (take w s)" using nb [of amp] r by auto
    moreover obtain c cs where "take w s = c # cs" using w by (cases "take w s") auto
    ultimately have "\<not> has_prefix [amp] (take w s @ rest)" by (auto simp: has_prefix_def)
    moreover have "take w (take w s @ rest) = take w s" "drop (max 1 w) (take w s @ rest) = rest"
      using w by (simp_all add: max_def)
    ultimately show ?thesis using dec assms(2) r by (simp add: read_char_def)
  qed
  ultimately show ?thesis using w by (auto simp: xml_written_def)
qed

lemma step_written:
  assumes "s \<noteq> []"
  shows "xml_written (xml_escape_step s) (xml_clean_step s)"
proof -
  obtain r w where d: "DecodeRune s = (r, w)" by fastforce
  have repl: "xml_written (AppendRune RuneError) (AppendRune RuneError)"
  proof -
    let ?u = "AppendRune RuneError"
    have e: "?u = [char_of (239 :: nat), char_of (191 :: nat), char_of (189 :: nat)]"
      by (simp add: AppendRune_def encode_valid_def ValidRune_def RuneError_def)
    have u: "utf8_decode ?u = Some (RuneError, 3)"
      unfolding e by (simp add: decode3_def in_range_def RuneError_def)
    have "take 3 ?u = ?u" unfolding e by simp
    moreover have "isInCharacterRange RuneError" "map_of xml_escapes RuneError = None"
      by (simp_all add: isInCharacterRange_def RuneError_def in_range_def xml_escapes_def)
    ultimately show ?thesis using xml_written_rune [OF u] by simp
  qed
  show ?thesis
  proof (cases "unreadable r w")
    case True
    then have "map_of xml_escapes r = None"
      by (auto simp: unreadable_def isInCharacterRange_def in_range_def xml_escapes_def RuneError_def split: if_splits)
    with True d repl show ?thesis by (simp add: xml_escape_step_def xml_clean_step_def)
  next
    case False
    have dec: "utf8_decode s = Some (r, w)"
      using d False assms by (auto simp: DecodeRune_def unreadable_def split: option.splits)
    note e = decode_encode [OF dec]
    show ?thesis
    proof (cases "map_of xml_escapes r")
      case None
      with False d xml_written_rune [OF dec] show ?thesis
        by (auto simp: xml_escape_step_def xml_clean_step_def unreadable_def)
    next
      case (Some x)
      then have "r < 128" by (auto simp: xml_escapes_def split: if_splits)
      with e have "take w s = [char_of r]" by (simp add: encode_valid_def)
      with Some False d xml_written_entity [OF Some] show ?thesis
        by (simp add: xml_escape_step_def xml_clean_step_def)
    qed
  qed
qed

lemma read_text_escape:
  "read_text (xml_escape s @ lt # rest) = Some (xml_clean s, lt # rest)"
proof (induction s rule: xml_escape.induct)
  case (1 s)
  show ?case
  proof (cases "s = []")
    case False
    note w = step_written [OF False]
    have "read_text (xml_escape s @ lt # rest) =
      map_option (\<lambda>(u, v). (xml_clean_step s @ u, v)) (read_text (xml_escape (drop (rune_width s) s) @ lt # rest))"
    proof -
      obtain c cs where "xml_escape_step s = c # cs" "c \<noteq> lt"
        using w by (cases "xml_escape_step s") (auto simp: xml_written_def)
      with w show ?thesis using False
        by (subst read_text.simps) (auto simp: xml_escape.simps [of s] xml_written_def)
    qed
    with 1 [OF False] show ?thesis by (simp add: xml_clean.simps [of s] False)
  qed simp
qed

lemma xml_escape_no_markup: "lt \<notin> set (xml_escape s)"
proof (induction s rule: xml_escape.induct)
  case (1 s)
  then show ?case
    using step_written [of s] by (cases "s = []") (auto simp: xml_written_def xml_escape.simps [of s])
qed

section \<open>The token writer\<close>

text \<open>
  The \<open>printer\<close> of an \<open>Encoder\<close> with an indent of one tab and no prefix. The empty name on
  \<open>xe_tags\<close> is the marker \<open>marshalInterface\<close> puts below the elements of a \<open>MarshalXML\<close> method.
\<close>

record xml_enc =
  xe_buf :: string
  xe_depth :: nat
  xe_indentedIn :: bool
  xe_putNewline :: bool
  xe_tags :: "string list"

definition xe_write :: "string \<Rightarrow> xml_enc \<Rightarrow> xml_enc" where
  "xe_write s e = e\<lparr>xe_buf := xe_buf e @ s\<rparr>"

definition xe_newline :: "xml_enc \<Rightarrow> xml_enc" where
  "xe_newline e =
     (let e = (if xe_putNewline e then xe_write [CHR 0x0A] e else e\<lparr>xe_putNewline := True\<rparr>)
      in xe_write (replicate (xe_depth e) (CHR 0x09)) e)"

definition xe_indent_in :: "xml_enc \<Rightarrow> xml_enc" where
  "xe_indent_in e = (let e = xe_newline e in e\<lparr>xe_depth := Suc (xe_depth e), xe_indentedIn := True\<rparr>)"

definition xe_indent_out :: "xml_enc \<Rightarrow> xml_enc" where
  "xe_indent_out e =
     (let indented = xe_indentedIn e; e = e\<lparr>xe_depth := xe_depth e - 1, xe_indentedIn := False\<rparr>
      in if indented then e else xe_newline e)"

definition xml_attr :: "string \<times> string \<Rightarrow> string" where
  "xml_attr = (\<lambda>(name, v). CHR '' '' # name @ CHR ''='' # CHR 0x22 # xml_escape v @ [CHR 0x22])"

definition writeStart :: "string \<Rightarrow> (string \<times> string) list \<Rightarrow> xml_enc \<Rightarrow> goerr option \<times> xml_enc" where
  "writeStart name attrs e =
     (if name = [] then (Some (ErrText ''xml: start tag with no name''), e)
      else (let e = e\<lparr>xe_tags := name # xe_tags e\<rparr>; e = xe_indent_in e
            in (None, xe_write (lt # name @ concat (map xml_attr attrs) @ [gt]) e)))"

definition writeEnd :: "string \<Rightarrow> xml_enc \<Rightarrow> goerr option \<times> xml_enc" where
  "writeEnd name e =
     (if name = [] then (Some (ErrText ''xml: end tag with no name''), e)
      else case xe_tags e of
        [] \<Rightarrow> (Some (ErrText ''xml: end tag without start tag''), e)
      | opened # tags \<Rightarrow>
          if opened = [] then (Some (ErrText ''xml: end tag without start tag''), e)
          else if opened \<noteq> name then (Some (ErrText ''xml: end tag does not match start tag''), e)
          else (let e = xe_indent_out (e\<lparr>xe_tags := tags\<rparr>)
                in (None, xe_write (lt # CHR ''/'' # name @ [gt]) e)))"

text \<open>Sequencing that stops at an error, and \<open>EncodeElement\<close> of a string and of \<open>struct{}{}\<close>.\<close>

definition enc_then ::
  "(xml_enc \<Rightarrow> goerr option \<times> xml_enc) \<Rightarrow> (xml_enc \<Rightarrow> goerr option \<times> xml_enc) \<Rightarrow> xml_enc \<Rightarrow> goerr option \<times> xml_enc" where
  "enc_then f g e = (case f e of (Some err, e) \<Rightarrow> (Some err, e) | (None, e) \<Rightarrow> g e)"

definition EncodeString :: "string \<Rightarrow> string \<Rightarrow> xml_enc \<Rightarrow> goerr option \<times> xml_enc" where
  "EncodeString v name =
     enc_then (writeStart name []) (enc_then (\<lambda>e. (None, xe_write (xml_escape v) e)) (writeEnd name))"

definition EncodeEmpty :: "string \<Rightarrow> xml_enc \<Rightarrow> goerr option \<times> xml_enc" where
  "EncodeEmpty name = enc_then (writeStart name []) (writeEnd name)"

text \<open>\<open>Encode\<close> of a value with a \<open>MarshalXML\<close> method, on a new encoder over \<open>buf\<close>.\<close>

definition Encode_Marshaler :: "(xml_enc \<Rightarrow> goerr option \<times> xml_enc) \<Rightarrow> string \<Rightarrow> goerr + string" where
  "Encode_Marshaler marshal buf =
     (case marshal \<lparr>xe_buf = buf, xe_depth = 0, xe_indentedIn = False, xe_putNewline = False, xe_tags = [[]]\<rparr> of
        (Some err, e) \<Rightarrow> Inl err
      | (None, e) \<Rightarrow> if 1 < length (xe_tags e)
          then Inl (ErrText ''xml: MarshalXML wrote invalid XML: element not closed'') else Inr (xe_buf e))"

section \<open>Reading the strings at a path\<close>

text \<open>
  A tag at the start of a string: \<open>(opens, closes, name)\<close> and the rest. \<open><name/>\<close> both opens
  and closes.
\<close>

definition is_letter :: "char \<Rightarrow> bool" where
  "is_letter c \<longleftrightarrow> in_range 65 90 (code c) \<or> in_range 97 122 (code c)"

definition version_attr :: string where
  "version_attr = '' version='' @ [CHR 0x22] @ ''1.0'' @ [CHR 0x22, gt]"

definition read_tag :: "string \<Rightarrow> ((bool \<times> bool \<times> string) \<times> string) option" where
  "read_tag s =
     (let (closing, s) = (if has_prefix [lt, CHR ''/''] s then (True, drop 2 s) else (False, drop 1 s));
          name = takeWhile is_letter s; s = drop (length name) s
      in if name = [] then None
         else if has_prefix [gt] s then Some ((\<not> closing, closing, name), drop 1 s)
         else if closing then None
         else if has_prefix [CHR ''/'', gt] s then Some ((True, True, name), drop 2 s)
         else if has_prefix version_attr s then Some ((True, False, name), drop (length version_attr) s)
         else None)"

lemma read_tag_shorter: "read_tag s = Some (tag, t) \<Longrightarrow> s \<noteq> [] \<Longrightarrow> length t < length s"
proof -
  assume "read_tag s = Some (tag, t)" "s \<noteq> []"
  moreover from this have "\<exists>n > 0. t = drop n s"
    by (fastforce simp: read_tag_def Let_def split: if_splits)
  ultimately show ?thesis by auto
qed

lemma read_text_le: "read_text s = Some (u, t) \<Longrightarrow> length t \<le> length s"
proof (induction s arbitrary: u t rule: read_text.induct)
  case (1 s)
  show ?case
  proof (cases "s = [] \<or> hd s = lt")
    case True
    with 1(2) show ?thesis by (simp add: read_text.simps [of s])
  next
    case False
    with 1(2) obtain bs t' u' where r: "read_char s = Some (bs, t')" "read_text t' = Some (u', t)"
      by (auto simp: read_text.simps [of s] split: option.splits)
    with 1(1) [OF False r(1) refl r(2)] read_char_shorter [OF r(1)] False show ?thesis by simp
  qed
qed

text \<open>
  The strings read so far grow by the text of each element at path \<open>target\<close> (from the element
  to the root); elements inside such an element are outside the covered documents.
\<close>

function read_path :: "string list \<Rightarrow> string list \<Rightarrow> string list \<Rightarrow> string \<Rightarrow> string list option" where
  "read_path target path found s =
     (case read_text s of None \<Rightarrow> None
      | Some (txt, s') \<Rightarrow>
          if s' = [] then None
          else case read_tag s' of None \<Rightarrow> None
             | Some ((opens, closes, name), s'') \<Rightarrow>
                 if opens then
                   (if path = target then None
                    else if closes
                    then (let found = (if name # path = target then found @ [[]] else found)
                          in if path = [] then Some found else read_path target path found s'')
                    else read_path target (name # path) found s'')
                 else if path = [] \<or> hd path \<noteq> name then None
                 else (let found = (if path = target then found @ [txt] else found)
                       in if tl path = [] then Some found else read_path target (tl path) found s''))"
  by pat_completeness auto
termination
  by (relation "measure (\<lambda>(target, path, found, s). length s)")
    (auto dest!: read_text_le read_tag_shorter)

declare read_path.simps [simp del]

end
