(* ===== verification/LaunchdDefs.thy ===== *)
theory LaunchdDefs
  imports GoXml ServiceDefs
begin

text \<open>
  \<open>internal/service/definitions.go\<close>, the part for launchd: the property list the program
  writes and reads back, and what it reads from the output of \<open>launchctl list\<close>.

  The regular expressions are matched as functions from a position to the match there. Each is
  deterministic: no byte that ends a repetition can also continue it. They work on bytes: the
  expressions name ASCII characters only, and no byte of a longer code point is one.
\<close>

section \<open>Writing the property list\<close>

definition quoted_ascii :: "string \<Rightarrow> string" where
  "quoted_ascii s = dquote # s @ [dquote]"

definition xml_Header :: string where
  "xml_Header = ''<?xml version='' @ quoted_ascii ''1.0'' @ '' encoding='' @ quoted_ascii ''UTF-8'' @ ''?>'' @ [newline]"

definition launchdPlistDoctype :: string where
  "launchdPlistDoctype = ''<!DOCTYPE plist PUBLIC '' @ quoted_ascii ''-//Apple//DTD PLIST 1.0//EN'' @ '' '' @
     quoted_ascii ''http://www.apple.com/DTDs/PropertyList-1.0.dtd'' @ ''>''"

record launchdPlist =
  lp_Label :: string
  lp_ProgramArguments :: "string list"
  lp_LogPath :: string

definition encodePlistKey :: "string \<Rightarrow> xml_enc \<Rightarrow> goerr option \<times> xml_enc" where
  "encodePlistKey key = EncodeString key ''key''"

definition encodePlistString :: "string \<Rightarrow> string \<Rightarrow> xml_enc \<Rightarrow> goerr option \<times> xml_enc" where
  "encodePlistString key v = enc_then (encodePlistKey key) (EncodeString v ''string'')"

fun encode_strings :: "string list \<Rightarrow> xml_enc \<Rightarrow> goerr option \<times> xml_enc" where
  "encode_strings [] e = (None, e)"
| "encode_strings (v # vs) e = enc_then (EncodeString v ''string'') (encode_strings vs) e"

definition encodePlistStringArray :: "string \<Rightarrow> string list \<Rightarrow> xml_enc \<Rightarrow> goerr option \<times> xml_enc" where
  "encodePlistStringArray key vs =
     enc_then (encodePlistKey key) (enc_then (writeStart ''array'' [])
       (enc_then (encode_strings vs) (writeEnd ''array'')))"

definition encodePlistBool :: "string \<Rightarrow> bool \<Rightarrow> xml_enc \<Rightarrow> goerr option \<times> xml_enc" where
  "encodePlistBool key v = enc_then (encodePlistKey key) (EncodeEmpty (if v then ''true'' else ''false''))"

definition encodePlistBoolDict :: "string \<Rightarrow> string \<Rightarrow> bool \<Rightarrow> xml_enc \<Rightarrow> goerr option \<times> xml_enc" where
  "encodePlistBoolDict key childKey childValue =
     enc_then (encodePlistKey key) (enc_then (writeStart ''dict'' [])
       (enc_then (encodePlistBool childKey childValue) (writeEnd ''dict'')))"

definition MarshalXML :: "launchdPlist \<Rightarrow> xml_enc \<Rightarrow> goerr option \<times> xml_enc" where
  "MarshalXML p =
     enc_then (writeStart ''plist'' [(''version'', ''1.0'')])
     (enc_then (writeStart ''dict'' [])
     (enc_then (encodePlistString ''Label'' (lp_Label p))
     (enc_then (encodePlistStringArray ''ProgramArguments'' (lp_ProgramArguments p))
     (enc_then (encodePlistBool ''RunAtLoad'' True)
     (enc_then (encodePlistBoolDict ''KeepAlive'' ''SuccessfulExit'' False)
     (enc_then (encodePlistString ''StandardOutPath'' (lp_LogPath p))
     (enc_then (encodePlistString ''StandardErrorPath'' (lp_LogPath p))
     (enc_then (writeEnd ''dict'') (writeEnd ''plist'')))))))))"

text \<open>\<open>strings.NewReplacer("<true></true>", "<true/>", "<false></false>", "<false/>")\<close>.\<close>

function launchdCanonicalElements :: "string \<Rightarrow> string" where
  "launchdCanonicalElements s =
     (if s = [] then []
      else case cut_prefix ''<true></true>'' s of Some t \<Rightarrow> ''<true/>'' @ launchdCanonicalElements t
      | None \<Rightarrow>
     (case cut_prefix ''<false></false>'' s of Some t \<Rightarrow> ''<false/>'' @ launchdCanonicalElements t
      | None \<Rightarrow> hd s # launchdCanonicalElements (tl s)))"
  by pat_completeness auto
termination by (relation "measure length") (auto simp: cut_prefix_Some_iff)

declare launchdCanonicalElements.simps [simp del]

definition renderLaunchdPlist :: "string \<Rightarrow> string list \<Rightarrow> string \<Rightarrow> goerr + string" where
  "renderLaunchdPlist label programArguments logPath =
     (case Encode_Marshaler (MarshalXML \<lparr>lp_Label = label, lp_ProgramArguments = programArguments,
              lp_LogPath = logPath\<rparr>) (xml_Header @ launchdPlistDoctype @ [newline]) of
        Inl err \<Rightarrow> Inl (ErrWrap (''encoding launchd plist: '' @ err_text err) [err])
      | Inr buf \<Rightarrow> Inr (launchdCanonicalElements buf))"

text \<open>
  \<open>xml.Unmarshal\<close> into the strings at \<open>dict\<close>, \<open>array\<close>, \<open>string\<close> below the root: read by
  \<open>read_path\<close> in the documents it covers, and by the parameter \<open>unmarshal\<close> in all others.
\<close>

definition plist_target :: "string list" where
  "plist_target = [''string'', ''array'', ''dict'', ''plist'']"

definition plist_body :: "string \<Rightarrow> string option" where
  "plist_body data =
     Option.bind (cut_prefix xml_Header data) (\<lambda>s. Option.bind (cut_prefix launchdPlistDoctype s) (cut_prefix [newline]))"

definition parseLaunchdPlistArguments :: "(string \<Rightarrow> goerr + string list) \<Rightarrow> string \<Rightarrow> goerr + string list" where
  "parseLaunchdPlistArguments unmarshal data =
     (case Option.bind (plist_body data) (read_path plist_target [] []) of
        Some args \<Rightarrow> Inr args
      | None \<Rightarrow> (case unmarshal data of
          Inl err \<Rightarrow> Inl (ErrWrap (''parsing launchd plist: '' @ err_text err) [err])
        | Inr args \<Rightarrow> Inr args))"

section \<open>The text of a property list\<close>

definition enc_ok :: "(xml_enc \<Rightarrow> goerr option \<times> xml_enc) \<Rightarrow> (nat \<Rightarrow> bool \<Rightarrow> string) \<Rightarrow> bool" where
  "enc_ok f out \<longleftrightarrow> (\<forall>e. xe_putNewline e \<longrightarrow>
     f e = (None, e\<lparr>xe_buf := xe_buf e @ out (xe_depth e) (xe_indentedIn e), xe_indentedIn := False\<rparr>))"

definition line :: "nat \<Rightarrow> string" where
  "line n = newline # replicate n (CHR 0x09)"

definition element :: "string \<Rightarrow> string \<Rightarrow> string" where
  "element name txt = lt # name @ gt # txt @ lt # CHR ''/'' # name @ [gt]"

lemma enc_then_assoc: "enc_then (enc_then f g) h = enc_then f (enc_then g h)"
  by (rule ext) (simp add: enc_then_def split: prod.split option.split)

lemma enc_ok_then:
  "enc_ok f a \<Longrightarrow> enc_ok g b \<Longrightarrow> enc_ok (enc_then f g) (\<lambda>n i. a n i @ b n False)"
  by (simp add: enc_ok_def enc_then_def)

lemma enc_ok_EncodeString:
  assumes "name \<noteq> []"
  shows "enc_ok (EncodeString v name) (\<lambda>n i. line n @ element name (xml_escape v))"
  using assms
  by (simp add: enc_ok_def EncodeString_def enc_then_def writeStart_def writeEnd_def Let_def xe_indent_in_def
      xe_indent_out_def xe_newline_def xe_write_def line_def element_def)

lemma enc_ok_EncodeEmpty:
  assumes "name \<noteq> []"
  shows "enc_ok (EncodeEmpty name) (\<lambda>n i. line n @ element name [])"
  using assms
  by (simp add: enc_ok_def EncodeEmpty_def enc_then_def writeStart_def writeEnd_def Let_def xe_indent_in_def
      xe_indent_out_def xe_newline_def xe_write_def line_def element_def)

text \<open>An element around content that has elements of its own.\<close>

definition closing :: "nat \<Rightarrow> bool \<Rightarrow> string \<Rightarrow> string" where
  "closing n direct name = (if direct then [] else line n) @ lt # CHR ''/'' # name @ [gt]"

lemma enc_ok_around:
  assumes "name \<noteq> []" "enc_ok f a"
  shows "enc_ok (enc_then (writeStart name []) (enc_then f (writeEnd name)))
    (\<lambda>n i. line n @ lt # name @ gt # a (Suc n) True @ closing n False name)"
  using assms
  by (simp add: enc_ok_def enc_then_def writeStart_def writeEnd_def Let_def xe_indent_in_def
      xe_indent_out_def xe_newline_def xe_write_def line_def closing_def)

definition string_lines :: "nat \<Rightarrow> string list \<Rightarrow> string" where
  "string_lines n vs = concat (map (\<lambda>v. line n @ element ''string'' (xml_escape v)) vs)"

lemma enc_ok_strings: "vs \<noteq> [] \<Longrightarrow> enc_ok (encode_strings vs) (\<lambda>n i. string_lines n vs)"
proof (induction vs)
  case (Cons v vs)
  have e: "encode_strings (v # vs) = enc_then (EncodeString v ''string'') (encode_strings vs)"
    by (rule ext) simp
  show ?case
  proof (cases "vs = []")
    case True
    then have "encode_strings vs e = (None, e)" for e by simp
    with enc_ok_EncodeString [of "''string''" v] show ?thesis
      by (simp add: enc_ok_def e enc_then_def string_lines_def True)
  next
    case False
    show ?thesis
      using enc_ok_then [OF enc_ok_EncodeString [of "''string''" v] Cons.IH [OF False]]
      unfolding e by (simp add: string_lines_def)
  qed
qed simp

lemma enc_ok_key: "enc_ok (encodePlistKey key) (\<lambda>n i. line n @ element ''key'' (xml_escape key))"
  unfolding encodePlistKey_def by (rule enc_ok_EncodeString) simp

lemma enc_ok_string:
  "enc_ok (encodePlistString key v)
     (\<lambda>n i. line n @ element ''key'' (xml_escape key) @ line n @ element ''string'' (xml_escape v))"
  using enc_ok_then [OF enc_ok_key enc_ok_EncodeString [of "''string''" v]]
  unfolding encodePlistString_def by simp

lemma enc_ok_bool:
  "enc_ok (encodePlistBool key v)
     (\<lambda>n i. line n @ element ''key'' (xml_escape key) @ line n @ element (if v then ''true'' else ''false'') [])"
  using enc_ok_then [OF enc_ok_key enc_ok_EncodeEmpty [of "if v then ''true'' else ''false''"]]
  unfolding encodePlistBool_def by simp

lemma enc_ok_array:
  "vs \<noteq> [] \<Longrightarrow> enc_ok (encodePlistStringArray key vs)
     (\<lambda>n i. line n @ element ''key'' (xml_escape key) @
        line n @ ''<array>'' @ string_lines (Suc n) vs @ closing n False ''array'')"
  using enc_ok_then [OF enc_ok_key enc_ok_around [of "''array''", OF _ enc_ok_strings [of vs]]]
  unfolding encodePlistStringArray_def by simp

lemma enc_ok_bool_dict:
  "enc_ok (encodePlistBoolDict key childKey v)
     (\<lambda>n i. line n @ element ''key'' (xml_escape key) @
        line n @ ''<dict>'' @ (line (Suc n) @ element ''key'' (xml_escape childKey) @
          line (Suc n) @ element (if v then ''true'' else ''false'') []) @ closing n False ''dict'')"
  using enc_ok_then [OF enc_ok_key enc_ok_around [of "''dict''", OF _ enc_ok_bool [of childKey v]]]
  unfolding encodePlistBoolDict_def by simp

text \<open>The text between the outer tags, with the two booleans as written.\<close>

definition key_line :: "nat \<Rightarrow> string \<Rightarrow> string" where
  "key_line n key = line n @ element ''key'' key"

definition string_line :: "nat \<Rightarrow> string \<Rightarrow> string" where
  "string_line n v = line n @ element ''string'' (xml_escape v)"

definition plist_text :: "string \<Rightarrow> string \<Rightarrow> string \<Rightarrow> string list \<Rightarrow> string \<Rightarrow> string" where
  "plist_text true_el false_el label args logPath =
     line 1 @ ''<dict>'' @ key_line 2 ''Label'' @ string_line 2 label @
     key_line 2 ''ProgramArguments'' @ line 2 @ ''<array>'' @ concat (map (string_line 3) args) @
     line 2 @ ''</array>'' @
     key_line 2 ''RunAtLoad'' @ line 2 @ true_el @
     key_line 2 ''KeepAlive'' @ line 2 @ ''<dict>'' @ key_line 3 ''SuccessfulExit'' @ line 3 @ false_el @
     line 2 @ ''</dict>'' @
     key_line 2 ''StandardOutPath'' @ string_line 2 logPath @
     key_line 2 ''StandardErrorPath'' @ string_line 2 logPath @
     line 1 @ ''</dict>'' @ line 0 @ ''</plist>''"

definition plist_start :: string where
  "plist_start = ''<plist version='' @ quoted_ascii ''1.0'' @ ''>''"

definition plain_char :: "char \<Rightarrow> bool" where
  "plain_char c \<longleftrightarrow> is_letter c \<or> in_range 45 57 (code c)"

lemma plain_text: "list_all plain_char s \<Longrightarrow> xml_escape s = s \<and> xml_text s"
proof (induction s)
  case (Cons c s)
  then have c: "code c < 128" "32 \<le> code c" "map_of xml_escapes (code c) = None" "code c \<noteq> RuneError"
    by (auto simp: plain_char_def is_letter_def in_range_def xml_escapes_def RuneError_def)
  then have "DecodeRune (c # s) = (code c, 1)" by (simp add: DecodeRune_def)
  with c Cons show ?case
    by (simp add: xml_escape.simps [of "c # s"] xml_text.simps [of "c # s"] xml_escape_step_def rune_width_def unreadable_def
        isInCharacterRange_def in_range_def)
qed (simp add: xml_text.simps)

lemmas enc_outer = enc_then_def writeStart_def writeEnd_def Let_def xe_indent_in_def xe_indent_out_def
  xe_newline_def xe_write_def

definition plist_content :: "string \<Rightarrow> string list \<Rightarrow> string \<Rightarrow> xml_enc \<Rightarrow> goerr option \<times> xml_enc" where
  "plist_content label args logPath =
     enc_then (encodePlistString ''Label'' label)
     (enc_then (encodePlistStringArray ''ProgramArguments'' args)
     (enc_then (encodePlistBool ''RunAtLoad'' True)
     (enc_then (encodePlistBoolDict ''KeepAlive'' ''SuccessfulExit'' False)
     (enc_then (encodePlistString ''StandardOutPath'' logPath)
       (encodePlistString ''StandardErrorPath'' logPath)))))"

lemma MarshalXML_nested:
  "MarshalXML \<lparr>lp_Label = label, lp_ProgramArguments = args, lp_LogPath = logPath\<rparr> =
     enc_then (writeStart ''plist'' [(''version'', ''1.0'')])
       (enc_then (enc_then (writeStart ''dict'' []) (enc_then (plist_content label args logPath) (writeEnd ''dict'')))
         (writeEnd ''plist''))"
  by (simp add: MarshalXML_def plist_content_def enc_then_assoc)

lemma escape_keys:
  "xml_escape ''Label'' = ''Label''" "xml_escape ''ProgramArguments'' = ''ProgramArguments''"
  "xml_escape ''RunAtLoad'' = ''RunAtLoad''" "xml_escape ''KeepAlive'' = ''KeepAlive''"
  "xml_escape ''SuccessfulExit'' = ''SuccessfulExit''" "xml_escape ''StandardOutPath'' = ''StandardOutPath''"
  "xml_escape ''StandardErrorPath'' = ''StandardErrorPath''"
  by (rule plain_text [THEN conjunct1], simp add: plain_char_def is_letter_def in_range_def)+

lemma xml_escape_version: "xml_escape ''1.0'' = ''1.0''"
  by (rule plain_text [THEN conjunct1]) (simp add: plain_char_def is_letter_def in_range_def)

lemma Encode_plist:
  assumes "args \<noteq> []"
  shows "Encode_Marshaler (MarshalXML \<lparr>lp_Label = label, lp_ProgramArguments = args, lp_LogPath = logPath\<rparr>) buf =
    Inr (buf @ plist_start @ plist_text (element ''true'' []) (element ''false'' []) label args logPath)"
proof -
  let ?strings = "\<lambda>n vs. concat (map (string_line n) vs)"
  have arr: "string_lines n vs = ?strings n vs" for n vs by (simp add: string_lines_def string_line_def [abs_def])
  note content = enc_ok_then [OF enc_ok_string [of "''Label''" label]
    enc_ok_then [OF enc_ok_array [OF assms, of "''ProgramArguments''"]
    enc_ok_then [OF enc_ok_bool [of "''RunAtLoad''" True]
    enc_ok_then [OF enc_ok_bool_dict [of "''KeepAlive''" "''SuccessfulExit''" False]
    enc_ok_then [OF enc_ok_string [of "''StandardOutPath''" logPath]
      enc_ok_string [of "''StandardErrorPath''" logPath]]]]], folded plist_content_def]
  have "enc_ok (enc_then (writeStart ''dict'' []) (enc_then (plist_content label args logPath) (writeEnd ''dict'')))
      (\<lambda>n i. line n @ ''<dict>'' @ (key_line (Suc n) ''Label'' @ string_line (Suc n) label @
        key_line (Suc n) ''ProgramArguments'' @ line (Suc n) @ ''<array>'' @ ?strings (Suc (Suc n)) args @
        line (Suc n) @ ''</array>'' @
        key_line (Suc n) ''RunAtLoad'' @ line (Suc n) @ element ''true'' [] @
        key_line (Suc n) ''KeepAlive'' @ line (Suc n) @ ''<dict>'' @ key_line (Suc (Suc n)) ''SuccessfulExit'' @
        line (Suc (Suc n)) @ element ''false'' [] @ line (Suc n) @ ''</dict>'' @
        key_line (Suc n) ''StandardOutPath'' @ string_line (Suc n) logPath @
        key_line (Suc n) ''StandardErrorPath'' @ string_line (Suc n) logPath) @ line n @ ''</dict>'')"
    using enc_ok_around [of "''dict''", OF _ content]
    by (simp add: closing_def key_line_def string_line_def escape_keys arr)
  then show ?thesis unfolding MarshalXML_nested
    by (simp add: Encode_Marshaler_def enc_ok_def enc_then_def [of "writeStart ''plist'' _"]
        enc_then_def [of _ "writeEnd ''plist''"] writeStart_def [of "''plist''"] writeEnd_def [of "''plist''"] Let_def
        xe_indent_in_def xe_indent_out_def xe_newline_def xe_write_def plist_text_def plist_start_def
        xml_attr_def xml_escape_version quoted_ascii_def numeral_2_eq_2 numeral_3_eq_3 line_def)
qed

section \<open>The canonical elements\<close>

lemma canon_Nil [simp]: "launchdCanonicalElements [] = []"
  by (simp add: launchdCanonicalElements.simps)

lemma canon_char: "c \<noteq> lt \<Longrightarrow> launchdCanonicalElements (c # s) = c # launchdCanonicalElements s"
  by (simp add: launchdCanonicalElements.simps [of "c # s"] cut_prefix_def has_prefix_def)

lemma canon_tag:
  "c \<noteq> CHR ''t'' \<Longrightarrow> c \<noteq> CHR ''f'' \<Longrightarrow>
    launchdCanonicalElements (lt # c # s) = lt # launchdCanonicalElements (c # s)"
  by (simp add: launchdCanonicalElements.simps [of "lt # c # s"] cut_prefix_def has_prefix_def)

lemma canon_plain: "lt \<notin> set a \<Longrightarrow> launchdCanonicalElements (a @ s) = a @ launchdCanonicalElements s"
  by (induction a) (auto simp: canon_char neq_commute)

lemma canon_line [simp]: "launchdCanonicalElements (line n @ s) = line n @ launchdCanonicalElements s"
  by (rule canon_plain) (auto simp: line_def)

lemma canon_true: "launchdCanonicalElements (element ''true'' [] @ s) = ''<true/>'' @ launchdCanonicalElements s"
  by (subst launchdCanonicalElements.simps) (simp add: element_def cut_prefix_def has_prefix_def)

lemma canon_false: "launchdCanonicalElements (element ''false'' [] @ s) = ''<false/>'' @ launchdCanonicalElements s"
  by (subst launchdCanonicalElements.simps) (simp add: element_def cut_prefix_def has_prefix_def)

lemma canon_key_line:
  "lt \<notin> set k \<Longrightarrow> launchdCanonicalElements (key_line n k @ s) = key_line n k @ launchdCanonicalElements s"
  by (simp add: key_line_def element_def canon_plain canon_char canon_tag)

lemma canon_string_line:
  "launchdCanonicalElements (string_line n v @ s) = string_line n v @ launchdCanonicalElements s"
  by (simp add: string_line_def element_def canon_plain canon_char canon_tag xml_escape_no_markup)

lemma canon_strings:
  "launchdCanonicalElements (concat (map (string_line n) vs) @ s) =
     concat (map (string_line n) vs) @ launchdCanonicalElements s"
  by (induction vs) (simp_all add: canon_string_line)

lemma canon_text:
  "launchdCanonicalElements (plist_text (element ''true'' []) (element ''false'' []) label args logPath) =
     plist_text ''<true/>'' ''<false/>'' label args logPath"
  by (simp add: plist_text_def canon_char canon_tag canon_key_line canon_string_line canon_strings canon_true
      canon_false)

lemma canon_head: "launchdCanonicalElements ((xml_Header @ launchdPlistDoctype @ [newline] @ plist_start) @ s) =
    (xml_Header @ launchdPlistDoctype @ [newline] @ plist_start) @ launchdCanonicalElements s"
  by (simp add: xml_Header_def launchdPlistDoctype_def plist_start_def quoted_ascii_def canon_char canon_tag)

lemma renderLaunchdPlist_text:
  assumes "args \<noteq> []"
  shows "renderLaunchdPlist label args logPath =
    Inr (xml_Header @ launchdPlistDoctype @ [newline] @ plist_start @
      plist_text ''<true/>'' ''<false/>'' label args logPath)"
  using canon_head [of "plist_text (element ''true'' []) (element ''false'' []) label args logPath"]
  by (simp add: renderLaunchdPlist_def Encode_plist [OF assms] canon_text)

section \<open>Reading it back\<close>

lemma read_text_line: "read_text (line n @ lt # s) = Some (line n, lt # s)"
proof -
  have step: "read_text (c # t) = map_option (\<lambda>(u, v). (c # u, v)) (read_text t)"
    if "c = newline \<or> c = CHR 0x09" for c t
    using that by (subst read_text.simps)
      (auto simp: read_char_def has_prefix_def isInCharacterRange_def in_range_def max_def)
  have "read_text (replicate n (CHR 0x09) @ lt # s) = Some (replicate n (CHR 0x09), lt # s)"
    by (induction n) (simp_all add: step)
  then show ?thesis by (simp add: line_def step)
qed

text \<open>Steps of the reader over the blocks of the text.\<close>

lemma read_open:
  assumes "name \<noteq> []" "list_all is_letter name" "path \<noteq> target" "read_text s = Some (txt, lt # name @ gt # rest)"
  shows "read_path target path found s = read_path target (name # path) found rest"
proof -
  have "takeWhile is_letter (name @ gt # rest) = name"
    using assms(2) by (subst takeWhile_append2) (auto simp: list_all_iff is_letter_def in_range_def)
  moreover have "\<not> has_prefix [lt, CHR ''/''] (lt # name @ gt # rest)"
    using assms(1,2) by (cases name) (auto simp: has_prefix_def is_letter_def in_range_def)
  ultimately have "read_tag (lt # name @ gt # rest) = Some ((True, False, name), rest)"
    using assms(1) by (simp add: read_tag_def has_prefix_def)
  then show ?thesis using assms(3,4) by (subst read_path.simps) simp
qed

lemma read_close:
  assumes "name \<noteq> []" "list_all is_letter name" "read_text s = Some (txt, lt # CHR ''/'' # name @ gt # rest)"
  shows "read_path target (name # path) found s =
    (let found = (if name # path = target then found @ [txt] else found)
     in if path = [] then Some found else read_path target path found rest)"
proof -
  have "takeWhile is_letter (name @ gt # rest) = name"
    using assms(2) by (subst takeWhile_append2) (auto simp: list_all_iff is_letter_def in_range_def)
  then have "read_tag (lt # CHR ''/'' # name @ gt # rest) = Some ((False, True, name), rest)"
    using assms(1) by (simp add: read_tag_def has_prefix_def)
  then show ?thesis using assms(3) by (subst read_path.simps) auto
qed

lemma read_empty:
  assumes "name \<noteq> []" "list_all is_letter name" "path \<noteq> target" "path \<noteq> []" "name # path \<noteq> target"
    and "read_text s = Some (txt, lt # name @ CHR ''/'' # gt # rest)"
  shows "read_path target path found s = read_path target path found rest"
proof -
  have "takeWhile is_letter (name @ CHR ''/'' # gt # rest) = name"
    using assms(2) by (subst takeWhile_append2) (auto simp: list_all_iff is_letter_def in_range_def)
  moreover have "\<not> has_prefix [lt, CHR ''/''] (lt # name @ CHR ''/'' # gt # rest)"
    using assms(1,2) by (cases name) (auto simp: has_prefix_def is_letter_def in_range_def)
  ultimately have "read_tag (lt # name @ CHR ''/'' # gt # rest) = Some ((True, True, name), rest)"
    using assms(1) by (simp add: read_tag_def has_prefix_def)
  then show ?thesis using assms(3-6) by (subst read_path.simps) simp
qed

lemma read_element:
  assumes "name \<noteq> []" "list_all is_letter name" "path \<noteq> target" "path \<noteq> []"
  shows "read_path target path found (line n @ element name (xml_escape v) @ rest) =
    read_path target path (if name # path = target then found @ [xml_clean v] else found) rest"
proof -
  have "read_path target path found (line n @ element name (xml_escape v) @ rest) =
    read_path target (name # path) found (xml_escape v @ lt # CHR ''/'' # name @ gt # rest)"
    by (rule read_open [OF assms(1-3)]) (simp add: element_def read_text_line)
  also have "\<dots> = read_path target path (if name # path = target then found @ [xml_clean v] else found) rest"
    using read_close [OF assms(1,2) read_text_escape, of target path] assms(4) by simp
  finally show ?thesis .
qed

lemma read_key_line:
  assumes "path \<noteq> plist_target" "path \<noteq> []" "xml_escape k = k"
  shows "read_path plist_target path found (key_line n k @ rest) = read_path plist_target path found rest"
  using read_element [of "''key''" path plist_target found n k rest] assms
  by (simp add: key_line_def plist_target_def is_letter_def in_range_def)

lemma read_string_line:
  assumes "path \<noteq> plist_target" "path \<noteq> []"
  shows "read_path plist_target path found (string_line n v @ rest) =
    read_path plist_target path (if path = tl plist_target then found @ [xml_clean v] else found) rest"
  using read_element [of "''string''" path plist_target found n v rest] assms
  by (simp add: string_line_def plist_target_def is_letter_def in_range_def)

lemma target_simps [simp]:
  "[''plist''] \<noteq> plist_target" "[''dict'', ''plist''] \<noteq> plist_target"
  "[''dict'', ''dict'', ''plist''] \<noteq> plist_target" "[''array'', ''dict'', ''plist''] \<noteq> plist_target"
  "tl plist_target = [''array'', ''dict'', ''plist'']"
  by (simp_all add: plist_target_def)

lemma read_strings:
  "read_path plist_target [''array'', ''dict'', ''plist''] found (concat (map (string_line n) vs) @ rest) =
    read_path plist_target [''array'', ''dict'', ''plist''] (found @ map xml_clean vs) rest"
  by (induction vs arbitrary: found) (simp_all add: read_string_line)

lemma read_tags:
  assumes "path \<noteq> plist_target"
  shows "read_path plist_target path found (line n @ ''<dict>'' @ rest) =
      read_path plist_target (''dict'' # path) found rest"
    and "read_path plist_target path found (line n @ ''<array>'' @ rest) =
      read_path plist_target (''array'' # path) found rest"
  by (rule read_open [OF _ _ assms]; simp add: read_text_line is_letter_def in_range_def)+

lemma read_end_tags:
  "read_path plist_target (''dict'' # p # path) found (line n @ ''</dict>'' @ rest) =
     read_path plist_target (p # path) found rest"
  "read_path plist_target (''array'' # p # path) found (line n @ ''</array>'' @ rest) =
     read_path plist_target (p # path) found rest"
  "read_path plist_target [''plist''] found (line n @ ''</plist>'' @ rest) = Some found"
  by (subst read_close; simp add: read_text_line is_letter_def in_range_def plist_target_def)+

lemma read_bools:
  assumes "path \<noteq> plist_target" "path \<noteq> []"
  shows "read_path plist_target path found (line n @ ''<true/>'' @ rest) = read_path plist_target path found rest"
    and "read_path plist_target path found (line n @ ''<false/>'' @ rest) = read_path plist_target path found rest"
  by (rule read_empty [where name = "''true''"] read_empty [where name = "''false''"];
      use assms in \<open>simp add: read_text_line is_letter_def in_range_def plist_target_def\<close>)+

lemma read_plist_start:
  "read_path plist_target [] [] (plist_start @ rest) = read_path plist_target [''plist''] [] rest"
  by (subst read_path.simps)
    (simp add: plist_start_def quoted_ascii_def read_tag_def has_prefix_def version_attr_def is_letter_def
      in_range_def plist_target_def)

lemma read_plist_text:
  "read_path plist_target [''plist''] [] (plist_text ''<true/>'' ''<false/>'' label args logPath) =
     Some (map xml_clean args)"
  unfolding plist_text_def
  by (simp add: read_key_line read_string_line read_strings read_tags [simplified] read_end_tags [simplified]
      read_end_tags(3) [where rest = "[]", simplified] read_bools [simplified] escape_keys)

lemma plist_body_rendered: "plist_body (xml_Header @ launchdPlistDoctype @ [newline] @ s) = Some s"
  by (simp add: plist_body_def cut_prefix_def has_prefix_def [of "[newline]"])

lemma parse_rendered:
  assumes "args \<noteq> []" "renderLaunchdPlist label args logPath = Inr data"
  shows "parseLaunchdPlistArguments unmarshal data = Inr (map xml_clean args)"
proof -
  let ?s = "plist_start @ plist_text ''<true/>'' ''<false/>'' label args logPath"
  have "data = xml_Header @ launchdPlistDoctype @ [newline] @ ?s"
    using assms by (simp add: renderLaunchdPlist_text)
  then have "plist_body data = Some ?s" by (simp only: plist_body_rendered)
  then show ?thesis
    by (simp only: parseLaunchdPlistArguments_def bind.simps read_plist_start read_plist_text option.case)
qed

lemma clean_args:
  "map xml_clean (service_args executable cfgPath cacheSeconds) =
     service_args (xml_clean executable) (xml_clean cfgPath) cacheSeconds"
proof -
  have "list_all plain_char (itoa k)" for k
  proof -
    have "plain_char (digit_char d)" if "d < 10" for d
      using that by (simp add: plain_char_def digit_char_def in_range_def)
    then show ?thesis using itoa_digits [of k] by (auto simp: list_all_iff)
  qed
  then have "list_all plain_char (format_int cacheSeconds)"
    by (simp add: format_int_def plain_char_def in_range_def)
  moreover have "list_all plain_char ''-config''" "list_all plain_char ''--cache''"
    by (simp_all add: plain_char_def is_letter_def in_range_def)
  ultimately show ?thesis by (simp add: service_args_def plain_text xml_text_clean)
qed

section \<open>The output of \<open>launchctl list\<close>\<close>

definition re_space :: "char \<Rightarrow> bool" where
  "re_space c \<longleftrightarrow> c \<in> {CHR 0x09, CHR 0x0A, CHR 0x0C, CHR 0x0D, CHR 0x20}"

text \<open>A literal after any white space; \<open>"(?:\\.|[^"\\])*"\<close>, which also returns the rest.\<close>

definition after_space :: "string \<Rightarrow> string \<Rightarrow> string option" where
  "after_space lit s = cut_prefix lit (dropWhile re_space s)"

fun quoted_rest :: "string \<Rightarrow> (string \<times> string) option" where
  "quoted_rest [] = None"
| "quoted_rest (c # s) =
     (if c = dquote then Some ([c], s)
      else if c = backslash
      then (case s of [] \<Rightarrow> None
            | d # t \<Rightarrow> if d = newline then None else map_option (\<lambda>(q, r). (c # d # q, r)) (quoted_rest t))
      else map_option (\<lambda>(q, r). (c # q, r)) (quoted_rest s))"

definition match_quoted :: "string \<Rightarrow> (string \<times> string) option" where
  "match_quoted s =
     (if has_prefix [dquote] s then map_option (\<lambda>(q, r). (dquote # q, r)) (quoted_rest (drop 1 s)) else None)"

text \<open>\<open>FindStringSubmatch\<close>: the match at the first position that has one.\<close>

fun first_match :: "(string \<Rightarrow> 'a option) \<Rightarrow> string \<Rightarrow> 'a option" where
  "first_match m [] = m []"
| "first_match m (c # s) = (case m (c # s) of Some x \<Rightarrow> Some x | None \<Rightarrow> first_match m s)"

definition quoted_key :: "string \<Rightarrow> string \<Rightarrow> string option" where
  "quoted_key key s = Option.bind (cut_prefix (quoted_ascii key) s) (after_space ''='')"

definition reLaunchdProgram :: "string \<Rightarrow> string option" where
  "reLaunchdProgram s =
     Option.bind (quoted_key ''Program'' s) (\<lambda>s.
     Option.bind (match_quoted (dropWhile re_space s)) (\<lambda>(q, s).
     if has_prefix '';'' s then Some q else None))"

definition reLaunchdArg0 :: "string \<Rightarrow> string option" where
  "reLaunchdArg0 s =
     Option.bind (quoted_key ''ProgramArguments'' s) (\<lambda>s.
     Option.bind (after_space ''('' s) (\<lambda>s.
     map_option fst (match_quoted (dropWhile re_space s))))"

text \<open>\<open>(.*?)\);\<close> with dots that match newlines: up to the first closing parenthesis and semicolon.\<close>

fun up_to_close :: "string \<Rightarrow> string option" where
  "up_to_close [] = None"
| "up_to_close (c # s) =
     (if has_prefix '');'' (c # s) then Some [] else map_option (\<lambda>t. c # t) (up_to_close s))"

definition reLaunchdArgs :: "string \<Rightarrow> string option" where
  "reLaunchdArgs s =
     Option.bind (quoted_key ''ProgramArguments'' s) (\<lambda>s. Option.bind (after_space ''('' s) up_to_close)"

definition reLaunchdPID :: "string \<Rightarrow> string option" where
  "reLaunchdPID s =
     Option.bind (quoted_key ''PID'' s) (\<lambda>s.
       (let s = dropWhile re_space s; digits = takeWhile (\<lambda>c. in_range 48 57 (code c)) s
        in if digits \<noteq> [] \<and> has_prefix '';'' (drop (length digits) s) then Some digits else None))"

text \<open>\<open>FindAllString\<close>: the matches from left to right, without overlaps.\<close>

lemma quoted_rest_shorter: "quoted_rest s = Some (q, r) \<Longrightarrow> length r < length s"
  by (induction s arbitrary: q r rule: quoted_rest.induct) (fastforce split: if_splits list.splits)+

lemma match_quoted_shorter: "match_quoted s = Some (q, r) \<Longrightarrow> length r < length s"
  by (cases s) (auto simp: match_quoted_def has_prefix_def dest!: quoted_rest_shorter split: if_splits)

function reQuotedArgument :: "string \<Rightarrow> string list" where
  "reQuotedArgument s =
     (if s = [] then []
      else case match_quoted s of Some (q, t) \<Rightarrow> q # reQuotedArgument t
           | None \<Rightarrow> reQuotedArgument (tl s))"
  by pat_completeness auto
termination by (relation "measure length") (auto dest: match_quoted_shorter)

declare reQuotedArgument.simps [simp del]

fun program_loop :: "(string \<Rightarrow> string option) list \<Rightarrow> string \<Rightarrow> goerr + string" where
  "program_loop [] output = Inr []"
| "program_loop (re # res) output =
     (case first_match re output of None \<Rightarrow> program_loop res output
      | Some quoted \<Rightarrow> (case Unquote quoted of
           None \<Rightarrow> Inl (ErrText ''unquoting launchd program: invalid syntax'')
         | Some program \<Rightarrow> Inr program))"

definition parseLaunchdProgram :: "string \<Rightarrow> goerr + string" where
  "parseLaunchdProgram output = program_loop [reLaunchdProgram, reLaunchdArg0] output"

fun unquote_all :: "string list \<Rightarrow> goerr + string list" where
  "unquote_all [] = Inr []"
| "unquote_all (q # qs) =
     (case Unquote q of None \<Rightarrow> Inl (ErrText ''unquoting launchd argument: invalid syntax'')
      | Some arg \<Rightarrow> (case unquote_all qs of Inl err \<Rightarrow> Inl err | Inr args \<Rightarrow> Inr (arg # args)))"

definition parseLaunchdArguments :: "string \<Rightarrow> goerr + string list" where
  "parseLaunchdArguments output =
     (case first_match reLaunchdArgs output of None \<Rightarrow> Inr []
      | Some body \<Rightarrow> unquote_all (reQuotedArgument body))"

section \<open>Properties\<close>

text \<open>
  Property C36. The property list survives any path: the written document starts with the
  XML declaration and the document type, and reading it back gives the program arguments with
  every code point an XML document cannot hold (control characters, invalid UTF-8) replaced by
  U+FFFD; so for paths of XML text it gives exactly the binary and the arguments written and,
  through \<open>configArgument\<close>, the configuration path. No path can add or remove an element.
\<close>

theorem launchd_plist_roundtrip:
  assumes "renderLaunchdPlist label (service_args executable cfgPath cacheSeconds) logPath = r"
  shows "\<exists>data. r = Inr data \<and> has_prefix (xml_Header @ launchdPlistDoctype) data \<and>
    parseLaunchdPlistArguments unmarshal data =
      Inr (service_args (xml_clean executable) (xml_clean cfgPath) cacheSeconds) \<and>
    configArgument (service_args (xml_clean executable) (xml_clean cfgPath) cacheSeconds) = xml_clean cfgPath \<and>
    (xml_text executable \<and> xml_text cfgPath \<longrightarrow>
      parseLaunchdPlistArguments unmarshal data = Inr (service_args executable cfgPath cacheSeconds))"
proof -
  let ?args = "service_args executable cfgPath cacheSeconds"
  have "?args \<noteq> []" by (simp add: service_args_def)
  note plist = renderLaunchdPlist_text [OF this, of label logPath] and reread = parse_rendered [OF this, of label logPath]
  obtain data where data: "r = Inr data" "has_prefix (xml_Header @ launchdPlistDoctype) data"
    using assms plist by (auto simp: has_prefix_iff)
  with assms reread [of data unmarshal] show ?thesis
    by (auto simp: clean_args config_rendered xml_text_clean)
qed

lemma xml_text_Cons: "code c < 128 \<Longrightarrow> xml_text (c # s) \<longleftrightarrow> isInCharacterRange (code c) \<and> xml_text s"
  by (auto simp: xml_text.simps [of "c # s"] DecodeRune_def unreadable_def rune_width_def RuneError_def)

lemma sample_xml_text: "xml_text ''/opt/p'' \<and> xml_text ''/h/<c>''"
  by (simp add: xml_text_Cons xml_text.simps [of "[]"] isInCharacterRange_def in_range_def)

theorem launchd_plist_roundtrip_witness:
  "\<exists>data. renderLaunchdPlist ''l'' (service_args ''/opt/p'' ''/h/<c>'' 3) ''/h/log'' = Inr data \<and>
     parseLaunchdPlistArguments (\<lambda>_. Inr []) data = Inr (service_args ''/opt/p'' ''/h/<c>'' 3)"
  using launchd_plist_roundtrip [OF refl, of "''l''" "''/opt/p''" "''/h/<c>''" 3 "''/h/log''" "\<lambda>_. Inr []"]
    sample_xml_text by auto

text \<open>
  The arguments of a running job end at the first closing parenthesis that is followed by a
  semicolon, also where it stands inside a quoted argument: of the job below, whose
  configuration is \<open>/h/a);b\<close>, only the binary and the flag are read, and its configuration is
  reported as unknown.
\<close>

definition job_with_parenthesis :: string where
  "job_with_parenthesis = quoted_ascii ''ProgramArguments'' @ '' = ('' @ [newline] @
     quoted_ascii ''/p'' @ '';'' @ [newline] @ quoted_ascii ''-config'' @ '';'' @ [newline] @
     quoted_ascii ''/h/a);b'' @ '';'' @ [newline] @ '');''"

lemma job_body:
  "first_match reLaunchdArgs job_with_parenthesis = Some ([newline] @ quoted_ascii ''/p'' @ '';'' @
     [newline] @ quoted_ascii ''-config'' @ '';'' @ [newline] @ dquote # ''/h/a'')"
  by (simp add: job_with_parenthesis_def quoted_ascii_def reLaunchdArgs_def quoted_key_def cut_prefix_def
      has_prefix_def after_space_def re_space_def)

lemma job_quoted:
  "reQuotedArgument ([newline] @ quoted_ascii ''/p'' @ '';'' @ [newline] @ quoted_ascii ''-config'' @ '';'' @
     [newline] @ dquote # ''/h/a'') = [quoted_ascii ''/p'', quoted_ascii ''-config'']"
  by (simp add: quoted_ascii_def reQuotedArgument.simps match_quoted_def has_prefix_def)

lemma job_unquoted:
  "Unquote (quoted_ascii ''/p'') = Some ''/p''" "Unquote (quoted_ascii ''-config'') = Some ''-config''"
  by code_simp+

lemma arguments_cut_at_parenthesis:
  "parseLaunchdArguments job_with_parenthesis = Inr [''/p'', ''-config''] \<and>
   configArgument [''/p'', ''-config''] = [] \<and>
   configArgument [''/p'', ''-config'', ''/h/a);b''] = ''/h/a);b''"
proof (intro conjI)
  show "parseLaunchdArguments job_with_parenthesis = Inr [''/p'', ''-config'']"
    by (simp only: parseLaunchdArguments_def job_body option.case job_quoted unquote_all.simps job_unquoted
        sum.case)
qed code_simp+

end
