(* ===== verification/Launchd.thy ===== *)
theory Launchd
  imports Service LaunchdDefs
begin

text \<open>
  \<open>internal/service/service_darwin.go\<close>: the manager of launchd user agents over the machine of
  \<open>Host\<close>. The results of \<open>launchctl\<close> are inputs; a command that outlives its deadline ends in
  \<open>CmdTimeout\<close>.
\<close>

section \<open>The commands\<close>

definition service_Label :: string where
  "service_Label = ''io.github.krisiasty.ssh-agent-proxy''"

definition runLaunchctl :: "host_env \<Rightarrow> string list \<Rightarrow> host \<Rightarrow> cmd_result \<times> host" where
  "runLaunchctl env args h = host_command env (''launchctl'' # args) h"

fun cmd_goerr :: "cmd_error \<Rightarrow> goerr" where
  "cmd_goerr (CmdExit n) = ErrText (''exit status '' @ itoa n)"
| "cmd_goerr CmdTimeout = ErrSentinel ContextDeadlineExceeded"
| "cmd_goerr (CmdFailed t) = ErrText t"

definition launchctlServiceNotFound :: nat where "launchctlServiceNotFound = 113"

definition launchctlNotFound :: "cmd_error option \<Rightarrow> bool" where
  "launchctlNotFound err \<longleftrightarrow> err = Some (CmdExit launchctlServiceNotFound)"

definition launchctl_failed :: "string list \<Rightarrow> string \<Rightarrow> cmd_error \<Rightarrow> goerr" where
  "launchctl_failed args message e =
     (let what = ''launchctl '' @ join_with '' '' args
      in ErrWrap (if message \<noteq> [] then what @ '': '' @ message @ '': '' @ err_text (cmd_goerr e)
                  else what @ '': '' @ err_text (cmd_goerr e)) [cmd_goerr e])"

definition launchctlCommandError :: "string list \<Rightarrow> string \<Rightarrow> cmd_error option \<Rightarrow> goerr option" where
  "launchctlCommandError args out runErr =
     (let message = trim_space out
      in case runErr of
           Some e \<Rightarrow> Some (launchctl_failed args message e)
         | None \<Rightarrow> if message \<noteq> []
             then Some (ErrText (''launchctl '' @ join_with '' '' args @ '': '' @ message)) else None)"

definition launchctl :: "host_env \<Rightarrow> string list \<Rightarrow> host \<Rightarrow> goerr option \<times> host" where
  "launchctl env args h =
     (let (res, h) = runLaunchctl env args h
      in (launchctlCommandError args (cr_stderr res @ cr_stdout res) (cr_err res), h))"

text \<open>\<open>kill(pid, 0)\<close>: no error, or one that says the process is another user's.\<close>

definition processAlive :: "goerr option \<Rightarrow> bool" where
  "processAlive err \<longleftrightarrow> err = None \<or> err_is err SysEPERM"

section \<open>The manager\<close>

record launchd_manager =
  lm_cfgPath :: string
  lm_cacheSeconds :: int
  lm_plistPath :: string
  lm_logPath :: string
  lm_uid :: nat

definition new_launchd :: "goerr + string \<Rightarrow> nat \<Rightarrow> string \<Rightarrow> int \<Rightarrow> goerr + launchd_manager" where
  "new_launchd home uid cfgPath cacheSeconds =
     (case home of Inl e \<Rightarrow> Inl e
      | Inr home \<Rightarrow> Inr \<lparr>lm_cfgPath = cfgPath, lm_cacheSeconds = cacheSeconds,
          lm_plistPath = Join [home, ''Library'', ''LaunchAgents'', service_Label @ ''.plist''],
          lm_logPath = Join [home, ''Library'', ''Logs'', ''ssh-agent-proxy.log''], lm_uid = uid\<rparr>)"

definition ld_installed :: "host_env \<Rightarrow> launchd_manager \<Rightarrow> host \<Rightarrow> bool \<times> host" where
  "ld_installed env m h = (let (err, h) = host_Stat env (lm_plistPath m) h in (err = None, h))"

definition ld_render :: "launchd_manager \<Rightarrow> string \<Rightarrow> goerr + string" where
  "ld_render m exe = renderLaunchdPlist service_Label
     (service_args exe (lm_cfgPath m) (lm_cacheSeconds m)) (lm_logPath m)"

definition ld_Install :: "host_env \<Rightarrow> launchd_manager \<Rightarrow> host \<Rightarrow> goerr option \<times> host" where
  "ld_Install env m h =
     (let (inst, h) = ld_installed env m h
      in if inst then (Some (ErrSentinel ErrAlreadyInstalled), h)
         else case EnsureScaffold env (lm_cfgPath m) h of
           (Inl err, h) \<Rightarrow> (Some err, h)
         | (Inr created, h) \<Rightarrow>
             (case executablePath env of
                Inl err \<Rightarrow> (Some err, h)
              | Inr exe \<Rightarrow>
                  then_do (host_MkdirAll env (Dir (lm_plistPath m)))
                   (then_do (host_MkdirAll env (Dir (lm_logPath m)))
                     (\<lambda>h. case ld_render m exe of
                        Inl err \<Rightarrow> (Some err, h)
                      | Inr plist \<Rightarrow>
                          then_do (\<lambda>h. wrapping ''writing plist'' (host_WriteFile env (lm_plistPath m) plist h))
                            (launchctl env [''load'', ''-w'', lm_plistPath m]) h)) h))"

definition ld_Uninstall :: "host_env \<Rightarrow> launchd_manager \<Rightarrow> host \<Rightarrow> goerr option \<times> host" where
  "ld_Uninstall env m h =
     (let (inst, h) = ld_installed env m h;
          (unloadErr, h) = (if inst then launchctl env [''unload'', ''-w'', lm_plistPath m] h else (None, h));
          uninstallErr = (case unloadErr of Some e \<Rightarrow> errors_Join [None, Some e] | None \<Rightarrow> None);
          (removeErr, h) = host_Remove env (lm_plistPath m) h;
          uninstallErr = (case removeErr of
              Some e \<Rightarrow> if \<not> os_IsNotExist e
                then errors_Join [uninstallErr, Some (ErrWrap (''removing plist: '' @ err_text e) [e])]
                else uninstallErr
            | None \<Rightarrow> uninstallErr)
      in (uninstallErr, h))"

text \<open>What the installed property list says of the service.\<close>

definition ld_definition ::
  "(string \<Rightarrow> goerr + string list) \<Rightarrow> host_env \<Rightarrow> launchd_manager \<Rightarrow> host \<Rightarrow> (goerr + status) \<times> host" where
  "ld_definition unmarshal env m h =
     (case host_Stat env (lm_plistPath m) h of
        (Some e, h) \<Rightarrow> if \<not> os_IsNotExist e
            then (Inl (ErrWrap (''checking launchd plist: '' @ err_text e) [e]), h)
            else (Inr no_status, h)
      | (None, h) \<Rightarrow>
     (case host_ReadFile env (lm_plistPath m) h of
        (Inl e, h) \<Rightarrow> (Inl (ErrWrap (''reading launchd plist: '' @ err_text e) [e]), h)
      | (Inr data, h) \<Rightarrow>
     (case parseLaunchdPlistArguments unmarshal data of
        Inl err \<Rightarrow> (Inl err, h)
      | Inr args \<Rightarrow> (Inr (no_status\<lparr>st_Installed := True,
          st_Program := (if args \<noteq> [] then hd args else []), st_Config := configArgument args\<rparr>), h))))"

text \<open>What the output of \<open>launchctl list\<close> adds to it.\<close>

definition ld_job :: "string \<Rightarrow> status \<Rightarrow> goerr + status" where
  "ld_job s st =
     (let st = (case first_match reLaunchdPID s of
                  Some pid \<Rightarrow> st\<lparr>st_Running := True, st_PID := pid\<rparr> | None \<Rightarrow> st)
      in case parseLaunchdProgram s of Inl err \<Rightarrow> Inl err
         | Inr program \<Rightarrow>
     (let st = (if program \<noteq> [] then st\<lparr>st_Program := program\<rparr> else st)
      in case parseLaunchdArguments s of Inl err \<Rightarrow> Inl err
         | Inr args \<Rightarrow> Inr (if args \<noteq> []
             then st\<lparr>st_Program := hd args, st_Config := configArgument args\<rparr> else st)))"

definition ld_Status ::
  "(string \<Rightarrow> goerr + string list) \<Rightarrow> host_env \<Rightarrow> launchd_manager \<Rightarrow> host \<Rightarrow> (goerr + status) \<times> host" where
  "ld_Status unmarshal env m h =
     (case ld_definition unmarshal env m h of
        (Inl err, h) \<Rightarrow> (Inl err, h)
      | (Inr st, h) \<Rightarrow>
     (let listArgs = [''list'', service_Label]; (res, h) = runLaunchctl env listArgs h
      in case cr_err res of
           None \<Rightarrow> (ld_job (cr_stdout res @ cr_stderr res) st, h)
         | Some e \<Rightarrow>
             if e = CmdTimeout
             then (Inl (ErrText (''inspecting launchd job: launchctl '' @ join_with '' '' listArgs @ '' timed out'')), h)
             else if launchctlNotFound (Some e) then (Inr st, h)
             else (let err = launchctl_failed listArgs (trim_space (cr_stderr res @ cr_stdout res)) e
                   in (Inl (ErrWrap (''inspecting launchd job: '' @ err_text err) [err]), h))))"

fun kickstart_loop :: "host_env \<Rightarrow> launchd_manager \<Rightarrow> string list \<Rightarrow> host \<Rightarrow> (goerr + int) \<times> host" where
  "kickstart_loop env m [] h =
     (Inl (ErrText ''ssh-agent-proxy is installed but not loaded in launchd; run -reinstall to load it''), h)"
| "kickstart_loop env m (domain # domains) h =
     (let target = domain @ ''/'' @ itoa (lm_uid m) @ ''/'' @ service_Label;
          args = [''kickstart'', ''-kp'', target];
          (res, h) = runLaunchctl env args h
      in if launchctlNotFound (cr_err res) then kickstart_loop env m domains h
         else case cr_err res of
           Some e \<Rightarrow> (Inl (launchctl_failed args (trim_space (cr_stderr res @ cr_stdout res)) e), h)
         | None \<Rightarrow>
           (case Atoi (trim_space (cr_stdout res)) of
              None \<Rightarrow> (Inl (ErrText (''launchctl '' @ join_with '' '' args @ '': unexpected output'')), h)
            | Some pid \<Rightarrow> if pid \<le> 0
                then (Inl (ErrText (''launchctl '' @ join_with '' '' args @ '': unexpected output'')), h)
                else (Inr pid, h)))"

definition kickstart :: "host_env \<Rightarrow> launchd_manager \<Rightarrow> host \<Rightarrow> (goerr + int) \<times> host" where
  "kickstart env m h = kickstart_loop env m [''gui'', ''user''] h"

definition ld_Restart ::
  "(string \<Rightarrow> goerr + string list) \<Rightarrow> host_env \<Rightarrow> launchd_manager \<Rightarrow> host \<Rightarrow> goerr option \<times> host" where
  "ld_Restart unmarshal env m h =
     (case ld_Status unmarshal env m h of
        (Inl err, h) \<Rightarrow> (Some err, h)
      | (Inr st, h) \<Rightarrow>
     (if \<not> st_Installed st then (Some (ErrText ''ssh-agent-proxy is not installed''), h)
      else case kickstart env m h of
        (Inl err, h) \<Rightarrow> (Some err, h)
      | (Inr pid, h) \<Rightarrow>
          if st_PID st = format_int pid
          then (Some (ErrText (''restart did not replace ssh-agent-proxy process '' @ format_int pid)), h)
          else if \<not> processAlive (he_kill0 env pid)
          then (Some (ErrText (''restarted ssh-agent-proxy process '' @ format_int pid @
              '' exited immediately; see '' @ lm_logPath m)), h)
          else (None, h)))"

definition launchdManager ::
  "(string \<Rightarrow> goerr + string list) \<Rightarrow> host_env \<Rightarrow> launchd_manager \<Rightarrow> host manager" where
  "launchdManager unmarshal env m =
     \<lparr>mg_Install = ld_Install env m, mg_Uninstall = ld_Uninstall env m,
      mg_Start = launchctl env [''start'', service_Label], mg_Stop = launchctl env [''stop'', service_Label],
      mg_Restart = ld_Restart unmarshal env m,
      mg_Reload = reloadService (ld_Status unmarshal env m) (signalReload env),
      mg_Status = ld_Status unmarshal env m,
      mg_LogHint = lm_logPath m\<rparr>"

section \<open>The contract of reinstallation\<close>

lemma launchctlD:
  "launchctl env args h = (r, h') \<Longrightarrow> h_files h' = h_files h \<and> h_signals h' = h_signals h \<and>
     h_commands h' = h_commands h @ [''launchctl'' # args] \<and> (\<forall>x. r \<noteq> Some (ErrSentinel x))"
  by (auto simp: launchctl_def runLaunchctl_def launchctlCommandError_def launchctl_failed_def Let_def
      dest!: host_commandD split: prod.splits option.splits if_splits)

lemma ld_installedD:
  "ld_installed env m h = (i, h') \<Longrightarrow> h_files h' = h_files h \<and> h_signals h' = h_signals h \<and>
     h_commands h' = h_commands h \<and> (i \<longrightarrow> h_files h (lm_plistPath m) \<noteq> None)"
  by (auto simp: ld_installed_def dest!: host_StatD split: prod.splits option.splits)

lemma unquote_all_error: "unquote_all qs = Inl e \<Longrightarrow> e \<noteq> ErrSentinel x"
  by (induction qs arbitrary: e) (auto split: option.splits sum.splits)

lemma ld_job_error: "ld_job s st = Inl e \<Longrightarrow> e \<noteq> ErrSentinel x"
  by (auto simp: ld_job_def parseLaunchdProgram_def parseLaunchdArguments_def Let_def dest: unquote_all_error
      split: sum.splits option.splits if_splits)

lemma ld_job_installed: "ld_job s st = Inr st' \<Longrightarrow> st_Installed st' = st_Installed st"
  by (auto simp: ld_job_def Let_def split: sum.splits option.splits if_splits)

lemma ld_definitionD:
  assumes "ld_definition unmarshal env m h = (r, h')"
  shows "h_files h' = h_files h \<and> h_signals h' = h_signals h \<and> h_commands h' = h_commands h \<and>
    (case r of Inl e \<Rightarrow> e \<noteq> ErrSentinel x
     | Inr st \<Rightarrow> (st_Installed st \<longleftrightarrow> h_files h (lm_plistPath m) \<noteq> None) \<and> \<not> st_Running st \<and> st_PID st = [])"
proof -
  obtain s h1 where s: "host_Stat env (lm_plistPath m) h = (s, h1)" by fastforce
  obtain d h2 where d: "host_ReadFile env (lm_plistPath m) h1 = (d, h2)" by fastforce
  show ?thesis using assms s d host_StatD [OF s] host_ReadFileD [OF d]
    by (auto simp: ld_definition_def no_status_def parseLaunchdPlistArguments_def
        split: option.splits if_splits sum.splits)
qed

lemma ld_StatusD:
  assumes "ld_Status unmarshal env m h = (r, h')"
  shows "h_files h' = h_files h \<and> h_signals h' = h_signals h \<and>
    (case r of Inl e \<Rightarrow> e \<noteq> ErrSentinel x
     | Inr st \<Rightarrow> (st_Installed st \<longleftrightarrow> h_files h (lm_plistPath m) \<noteq> None))"
proof -
  obtain d h1 where d: "ld_definition unmarshal env m h = (d, h1)" by fastforce
  obtain c h2 where c: "runLaunchctl env [''list'', service_Label] h1 = (c, h2)" by fastforce
  note dd = ld_definitionD [OF d, of x] and cd = host_commandD [OF c [unfolded runLaunchctl_def]]
  show ?thesis
  proof (cases d)
    case (Inl e)
    with assms d dd show ?thesis by (auto simp: ld_Status_def)
  next
    case (Inr st)
    with assms d c dd cd show ?thesis
      by (auto simp: ld_Status_def Let_def split: option.splits if_splits sum.splits
          dest: ld_job_error ld_job_installed)
  qed
qed

lemma ld_UninstallD:
  assumes "ld_Uninstall env m h = (r, h')"
  shows "(\<forall>p. p \<noteq> lm_plistPath m \<longrightarrow> h_files h' p = h_files h p) \<and>
    (r = None \<longrightarrow> h_files h' (lm_plistPath m) = None) \<and> r \<noteq> Some (ErrSentinel x)"
proof -
  obtain i h1 where i: "ld_installed env m h = (i, h1)" by fastforce
  obtain d h2 where d: "(if i then launchctl env [''unload'', ''-w'', lm_plistPath m] h1 else (None, h1)) = (d, h2)"
    by fastforce
  obtain v h3 where v: "host_Remove env (lm_plistPath m) h2 = (v, h3)" by fastforce
  have dd: "h_files h2 = h_files h1" using d by (auto dest!: launchctlD split: if_splits)
  show ?thesis
    using assms i d v dd ld_installedD [OF i] host_RemoveD [OF v]
    by (auto simp: ld_Uninstall_def Let_def errors_Join_None_iff split: option.splits if_splits)
qed

lemma ld_InstallD:
  assumes "ld_Install env m h = (r, h')"
  shows "(r = None \<longrightarrow> (\<exists>exe plist. executablePath env = Inr exe \<and> ld_render m exe = Inr plist \<and>
      h_files h' (lm_plistPath m) = Some plist)) \<and>
    (r = Some (ErrSentinel ErrAlreadyInstalled) \<longrightarrow> h_files h (lm_plistPath m) \<noteq> None) \<and>
    (\<forall>p. p \<noteq> lm_plistPath m \<and> h_files h p \<noteq> None \<longrightarrow> h_files h' p = h_files h p)"
proof -
  obtain i h1 where i: "ld_installed env m h = (i, h1)" by fastforce
  obtain e h2 where e: "EnsureScaffold env (lm_cfgPath m) h1 = (e, h2)" by fastforce
  note id = ld_installedD [OF i] and ed = EnsureScaffoldD [OF e]
  have keep: "h_files h2 p = h_files h p" if "h_files h p \<noteq> None" for p
    using ed id that by (cases "p = lm_cfgPath m") auto
  show ?thesis
  proof (cases "i \<or> (\<exists>x. e = Inl x) \<or> (\<exists>x. executablePath env = Inl x)")
    case True
    then show ?thesis using assms i e id keep EnsureScaffold_error [OF e] executablePath_error
      by (auto simp: ld_Install_def Let_def split: if_splits sum.splits)
  next
    case False
    then obtain cr exe where x: "\<not> i" "e = Inr cr" "executablePath env = Inr exe"
      by (cases e; cases "executablePath env") auto
    have "service_args exe (lm_cfgPath m) (lm_cacheSeconds m) \<noteq> []" by (simp add: service_args_def)
    from renderLaunchdPlist_text [OF this] obtain plist where plist: "ld_render m exe = Inr plist"
      by (auto simp: ld_render_def)
    obtain k h3 where k: "host_MkdirAll env (Dir (lm_plistPath m)) h2 = (k, h3)" by fastforce
    obtain l h4 where l: "host_MkdirAll env (Dir (lm_logPath m)) h3 = (l, h4)" by fastforce
    obtain v h5 where v: "host_WriteFile env (lm_plistPath m) plist h4 = (v, h5)" by fastforce
    obtain n h6 where n: "launchctl env [''load'', ''-w'', lm_plistPath m] h5 = (n, h6)" by fastforce
    note ds = host_callD [OF k [unfolded host_MkdirAll_def]] host_callD [OF l [unfolded host_MkdirAll_def]]
      host_WriteFileD [OF v] launchctlD [OF n]
    from assms i e x plist k l v n have r: "(r, h') = (case k of Some y \<Rightarrow> (Some y, h3)
      | None \<Rightarrow> (case l of Some y \<Rightarrow> (Some y, h4)
      | None \<Rightarrow> (case v of Some y \<Rightarrow> (Some (ErrWrap (''writing plist: '' @ err_text y) [y]), h5)
      | None \<Rightarrow> (n, h6))))"
      by (auto simp: ld_Install_def then_do_def wrapping_def split: option.splits)
    have "k \<noteq> Some (ErrSentinel ErrAlreadyInstalled)" "l \<noteq> Some (ErrSentinel ErrAlreadyInstalled)"
      using k l by (auto simp: host_MkdirAll_def host_call_def)
    with r ds keep x plist show ?thesis by (auto split: option.splits)
  qed
qed

definition ld_cfg_file :: "launchd_manager \<Rightarrow> host \<Rightarrow> string option" where
  "ld_cfg_file m h = (if lm_cfgPath m = lm_plistPath m then None else h_files h (lm_cfgPath m))"

definition wanted_plist :: "host_env \<Rightarrow> launchd_manager \<Rightarrow> string option" where
  "wanted_plist env m = (case executablePath env of Inl e \<Rightarrow> None
     | Inr exe \<Rightarrow> (case ld_render m exe of Inl e \<Rightarrow> None | Inr plist \<Rightarrow> Some plist))"

interpretation launchd: unit_manager "launchdManager unmarshal env m" "\<lambda>h. h_files h (lm_plistPath m)"
  "wanted_plist env m" "ld_cfg_file m" for unmarshal env m
proof (unfold_locales, goal_cases)
  case (1 h st h')
  then show ?case using ld_StatusD by (fastforce simp: launchdManager_def)
next
  case (2 h e h')
  then show ?case using ld_StatusD by (fastforce simp: launchdManager_def)
next
  case (3 h r h')
  then show ?case using ld_StatusD by (fastforce simp: launchdManager_def ld_cfg_file_def)
next
  case (4 h h')
  then show ?case by (auto simp: launchdManager_def wanted_plist_def dest!: ld_InstallD)
next
  case (5 h h')
  then show ?case by (auto simp: launchdManager_def dest!: ld_InstallD)
next
  case (6 h e h')
  then show ?case by (auto simp: launchdManager_def ld_cfg_file_def dest!: ld_InstallD split: if_splits)
next
  case (7 h h')
  then show ?case using ld_UninstallD by (fastforce simp: launchdManager_def)
next
  case (8 h e h')
  then show ?case using ld_UninstallD by (fastforce simp: launchdManager_def)
next
  case (9 h e h')
  then show ?case using ld_UninstallD by (fastforce simp: launchdManager_def ld_cfg_file_def)
qed

section \<open>Restart\<close>

text \<open>The commands a kickstart ran: one per domain, the last of which answered with the process.\<close>

definition kick_command :: "launchd_manager \<Rightarrow> string \<Rightarrow> string list" where
  "kick_command m domain =
     [''launchctl'', ''kickstart'', ''-kp'', domain @ ''/'' @ itoa (lm_uid m) @ ''/'' @ service_Label]"

lemma kickstart_loopD:
  "kickstart_loop env m domains h = (r, h') \<Longrightarrow>
    h_files h' = h_files h \<and> h_signals h' = h_signals h \<and>
    (\<exists>n \<le> length domains. h_commands h' = h_commands h @ map (kick_command m) (take n domains) \<and>
      (\<forall>pid. r = Inr pid \<longrightarrow> 0 < pid \<and> 0 < n))"
proof (induction domains arbitrary: h)
  case (Cons domain domains)
  let ?args = "[''kickstart'', ''-kp'', domain @ ''/'' @ itoa (lm_uid m) @ ''/'' @ service_Label]"
  obtain res h1 where c: "runLaunchctl env ?args h = (res, h1)" by fastforce
  note cd = host_commandD [OF c [unfolded runLaunchctl_def]]
  show ?case
  proof (cases "launchctlNotFound (cr_err res)")
    case True
    with Cons.prems c have "kickstart_loop env m domains h1 = (r, h')" by simp
    from Cons.IH [OF this] obtain n where
      "n \<le> length domains" "h_commands h' = h_commands h1 @ map (kick_command m) (take n domains)"
      "\<forall>pid. r = Inr pid \<longrightarrow> 0 < pid \<and> 0 < n" "h_files h' = h_files h1" "h_signals h' = h_signals h1" by blast
    with cd show ?thesis by (auto simp: kick_command_def intro!: exI [of _ "Suc n"])
  next
    case False
    with Cons.prems c cd show ?thesis
      by (auto simp: kick_command_def Let_def intro!: exI [of _ 1] split: option.splits if_splits)
  qed
qed auto

lemma ld_Status_commands:
  assumes "ld_Status unmarshal env m h = (r, h')"
  obtains queries where "h_commands h' = h_commands h @ queries"
    "queries \<in> {[], [[''launchctl'', ''list'', service_Label]]}"
proof -
  obtain d h1 where d: "ld_definition unmarshal env m h = (d, h1)" by fastforce
  obtain c h2 where c: "runLaunchctl env [''list'', service_Label] h1 = (c, h2)" by fastforce
  have "h_commands h' = h_commands h \<or> h_commands h' = h_commands h @ [[''launchctl'', ''list'', service_Label]]"
    using assms d c ld_definitionD [OF d] host_commandD [OF c [unfolded runLaunchctl_def]]
    by (auto simp: ld_Status_def Let_def split: option.splits if_splits sum.splits)
  with that show thesis by auto
qed

lemma ld_Restart_cases:
  assumes "ld_Restart unmarshal env m h = (err, h')"
  obtains (early) st e where "ld_Status unmarshal env m h = (st, h')" "err = Some e"
      "st = Inl e \<or> (\<exists>s. st = Inr s \<and> \<not> st_Installed s)"
  | (kicked) st h1 r where "ld_Status unmarshal env m h = (Inr st, h1)" "st_Installed st"
      "kickstart env m h1 = (r, h')"
      "err = None \<longrightarrow> (\<exists>pid. r = Inr pid \<and> st_PID st \<noteq> format_int pid \<and> processAlive (he_kill0 env pid))"
proof -
  obtain s h1 where s: "ld_Status unmarshal env m h = (s, h1)" by fastforce
  obtain k h2 where k: "kickstart env m h1 = (k, h2)" by fastforce
  show thesis
  proof (cases "\<exists>st. s = Inr st \<and> st_Installed st")
    case True
    with assms s k kicked show thesis by (auto simp: ld_Restart_def split: sum.splits if_splits)
  next
    case False
    with assms s early show thesis by (auto simp: ld_Restart_def split: sum.splits if_splits)
  qed
qed

section \<open>Properties\<close>

text \<open>
  Property C37. \<open>-restart\<close> under launchd replaces the process in one operation: it runs no
  command but one status query and at most one kickstart in each of the two domains (never a
  stop and a start, which race), touches no file and signals no process itself; it kickstarts
  only an installed service; and it reports success only when launchd started a process with a
  positive number that differs from the one that ran before and is alive.
\<close>

theorem restart_replaces_process:
  assumes "mg_Restart (launchdManager unmarshal env m) h = (err, h')"
  shows "h_files h' = h_files h \<and> h_signals h' = h_signals h \<and>
    (\<exists>queries n. h_commands h' = h_commands h @ queries @ map (kick_command m) (take n [''gui'', ''user'']) \<and>
      queries \<in> {[], [[''launchctl'', ''list'', service_Label]]} \<and>
      (h_files h (lm_plistPath m) = None \<longrightarrow> n = 0 \<and> err \<noteq> None)) \<and>
    (err = None \<longrightarrow> (\<exists>st h1 pid. ld_Status unmarshal env m h = (Inr st, h1) \<and> st_Installed st \<and>
      kickstart env m h1 = (Inr pid, h') \<and> 0 < pid \<and> st_PID st \<noteq> format_int pid \<and> processAlive (he_kill0 env pid)))"
proof -
  from assms have "ld_Restart unmarshal env m h = (err, h')" by (simp add: launchdManager_def)
  then show ?thesis
  proof (cases rule: ld_Restart_cases)
    case (early st e)
    obtain queries where q: "h_commands h' = h_commands h @ queries"
      "queries \<in> {[], [[''launchctl'', ''list'', service_Label]]}"
      by (rule ld_Status_commands [OF early(1)])
    with early ld_StatusD [OF early(1)] show ?thesis
      by (auto intro!: exI [of _ queries] exI [of _ 0])
  next
    case (kicked st h1 r)
    note sd = ld_StatusD [OF kicked(1)]
    obtain queries where q: "h_commands h1 = h_commands h @ queries"
      "queries \<in> {[], [[''launchctl'', ''list'', service_Label]]}"
      by (rule ld_Status_commands [OF kicked(1)])
    obtain n where n: "h_commands h' = h_commands h1 @ map (kick_command m) (take n [''gui'', ''user''])"
      "\<forall>pid. r = Inr pid \<longrightarrow> 0 < pid"  "h_files h' = h_files h1" "h_signals h' = h_signals h1"
      using kickstart_loopD [OF kicked(3) [unfolded kickstart_def]] by blast
    from n(1) q(1) have "h_commands h' = h_commands h @ queries @
        map (kick_command m) (take n [''gui'', ''user''])" by simp
    with n(2-) q(2) sd kicked show ?thesis by (auto intro!: exI [of _ queries] exI [of _ n])
  qed
qed

definition sample_launchd :: launchd_manager where
  "sample_launchd = \<lparr>lm_cfgPath = ''/h/c.yaml'', lm_cacheSeconds = 3, lm_plistPath = ''/h/u'',
     lm_logPath = ''/h/log'', lm_uid = 5\<rparr>"

definition kicked_host :: host_env where
  "kicked_host = quiet_host\<lparr>he_cmd := (\<lambda>n. if n = 2
      then \<lparr>cr_stdout = [], cr_stderr = [], cr_err = Some (CmdExit 113)\<rparr>
      else \<lparr>cr_stdout = ''77'', cr_stderr = [], cr_err = None\<rparr>)\<rparr>"

lemma sample_restart:
  "fst (mg_Restart (launchdManager (\<lambda>_. Inr [''/p'']) kicked_host sample_launchd) running_host) = None"
  by code_simp

theorem restart_replaces_process_witness:
  "\<exists>h'. mg_Restart (launchdManager (\<lambda>_. Inr [''/p'']) kicked_host sample_launchd) running_host = (None, h') \<and>
     h_signals h' = []"
proof -
  obtain h' where r:
    "mg_Restart (launchdManager (\<lambda>_. Inr [''/p'']) kicked_host sample_launchd) running_host = (None, h')"
    using sample_restart by (metis prod.collapse)
  from restart_replaces_process [OF r] r show ?thesis by (auto simp: running_host_def new_host_def)
qed

text \<open>
  Reinstalling under launchd replaces the service and nothing else: whatever fails
  on the way, \<open>-reinstall\<close> never reports that the service is already installed and never
  changes an existing configuration; and when it succeeds, the property list runs this binary
  with this configuration: reading it gives exactly that argument vector, for paths of XML text.
\<close>

theorem reinstall_replaces_plist:
  assumes "reinstall (launchdManager unmarshal env m) h = (err, h1)" "lm_cfgPath m \<noteq> lm_plistPath m"
  shows "err \<noteq> Some (ErrSentinel ErrAlreadyInstalled) \<and>
    (h_files h (lm_cfgPath m) \<noteq> None \<longrightarrow> h_files h1 (lm_cfgPath m) = h_files h (lm_cfgPath m)) \<and>
    (err = None \<longrightarrow> (\<exists>exe plist. executablePath env = Inr exe \<and> h_files h1 (lm_plistPath m) = Some plist \<and>
      parseLaunchdPlistArguments unmarshal plist =
        Inr (service_args (xml_clean exe) (xml_clean (lm_cfgPath m)) (lm_cacheSeconds m))))"
proof (intro conjI impI)
  show "err \<noteq> Some (ErrSentinel ErrAlreadyInstalled)"
    using launchd.reinstall_not_refused [of unmarshal env m h] assms(1) by auto
  show "h_files h1 (lm_cfgPath m) = h_files h (lm_cfgPath m)" if "h_files h (lm_cfgPath m) \<noteq> None"
    using launchd.reinstall_cfg [OF assms(1)] assms(2) that by (simp add: ld_cfg_file_def)
  assume "err = None"
  note u = launchd.reinstall_unit [OF assms(1) [unfolded this]]
  then obtain exe plist where "executablePath env = Inr exe" "ld_render m exe = Inr plist"
    "h_files h1 (lm_plistPath m) = Some plist"
    by (auto simp: wanted_plist_def split: sum.splits)
  moreover from this have "parseLaunchdPlistArguments unmarshal plist =
      Inr (service_args (xml_clean exe) (xml_clean (lm_cfgPath m)) (lm_cacheSeconds m))"
    using parse_rendered [of "service_args exe (lm_cfgPath m) (lm_cacheSeconds m)"]
    by (simp add: ld_render_def clean_args) (simp add: service_args_def)
  ultimately show "\<exists>exe plist. executablePath env = Inr exe \<and> h_files h1 (lm_plistPath m) = Some plist \<and>
      parseLaunchdPlistArguments unmarshal plist =
        Inr (service_args (xml_clean exe) (xml_clean (lm_cfgPath m)) (lm_cacheSeconds m))" by blast
qed

end
