(* ===== verification/Diag.thy ===== *)
theory Diag
  imports Service Config
begin

text \<open>
  \<open>internal/diag/diag.go\<close>: the read-only health check \<open>-diag\<close>. The calls it makes are the
  record \<open>dependencies\<close>, as in the code; what an agent socket answers during the run is a
  function of the socket. \<open>%q\<close> of a string is \<open>Quote\<close>.
\<close>

section \<open>The report\<close>

datatype level = Pass | Warn | Fail

record result =
  rs_level :: level
  rs_message :: string

fun level_text :: "level \<Rightarrow> string" where
  "level_text Pass = ''PASS''" | "level_text Warn = ''WARN''" | "level_text Fail = ''FAIL''"

definition add :: "level \<Rightarrow> string \<Rightarrow> result list \<Rightarrow> result list" where
  "add level message results = results @ [\<lparr>rs_level = level, rs_message = message\<rparr>]"

definition plural :: "nat \<Rightarrow> string \<Rightarrow> string" where
  "plural count singular = (if count = 1 then singular else singular @ ''s'')"

definition counted :: "nat \<Rightarrow> string \<Rightarrow> string" where
  "counted count singular = itoa count @ '' '' @ plural count singular"

definition level_count :: "level \<Rightarrow> result list \<Rightarrow> nat" where
  "level_count level results = length (filter (\<lambda>r. rs_level r = level) results)"

definition summary_level :: "result list \<Rightarrow> level" where
  "summary_level results =
     (if level_count Fail results > 0 then Fail
      else if level_count Warn results > 0 then Warn else Pass)"

definition result_line :: "result \<Rightarrow> string" where
  "result_line r = ''['' @ level_text (rs_level r) @ ''] '' @ rs_message r @ [newline]"

definition summary_line :: "result list \<Rightarrow> string" where
  "summary_line results =
     ''['' @ level_text (summary_level results) @ ''] summary: '' @ itoa (level_count Pass results) @
     '' passed, '' @ counted (level_count Warn results) ''warning'' @ '', '' @
     itoa (level_count Fail results) @ '' failed'' @ [newline]"

text \<open>\<open>writeTo\<close>: the writer takes a line or fails; what it took so far comes first.\<close>

fun write_lines :: "(nat \<Rightarrow> goerr option) \<Rightarrow> nat \<Rightarrow> string list \<Rightarrow> string list \<times> goerr option" where
  "write_lines fails n [] = ([], None)"
| "write_lines fails n (line # lines) =
     (case fails n of Some e \<Rightarrow> ([], Some e)
      | None \<Rightarrow> (let (out, err) = write_lines fails (Suc n) lines in (line # out, err)))"

definition writeTo :: "(nat \<Rightarrow> goerr option) \<Rightarrow> result list \<Rightarrow> string list \<times> goerr option" where
  "writeTo fails results = write_lines fails 0 (map result_line results @ [summary_line results])"

section \<open>The checks\<close>

record dependencies =
  dp_loadConfig :: "string \<Rightarrow> goerr + config"
  dp_serviceStatus :: "goerr + status"
  dp_listAgentKeys :: "string \<Rightarrow> goerr + agent_key list"
  dp_currentExecutable :: "goerr + string"
  dp_samePath :: "string \<Rightarrow> string \<Rightarrow> bool"
  dp_checkProgram :: "status \<Rightarrow> goerr option"

definition checkService ::
  "(nat \<Rightarrow> bool) \<Rightarrow> dependencies \<Rightarrow> string \<Rightarrow> status \<Rightarrow> result list \<Rightarrow> result list" where
  "checkService pr deps selectedConfig st r =
     (if \<not> st_Installed st then add Warn ''service: no managed service installation found'' r
      else
        let r = (if st_Running st then
                   (if st_PID st = [] then add Pass ''service: managed service is running'' r
                    else add Pass (''service: managed service is running (pid '' @ st_PID st @ '')'') r)
                 else add Fail ''service: managed service is installed but stopped'' r);
            r = (if st_Config st = [] then
                   add Warn ''service config: installed definition has no explicit config path'' r
                 else if dp_samePath deps (st_Config st) selectedConfig then
                   add Pass (''service config: installed service uses selected config '' @
                     Quote pr selectedConfig) r
                 else add Fail (''service config: installed service uses '' @ Quote pr (st_Config st) @
                     '' instead of selected config '' @ Quote pr selectedConfig) r)
        in if st_Program st = [] then
             add Warn ''service binary: installed definition does not identify an executable'' r
           else case dp_checkProgram deps st of
             Some err \<Rightarrow> add Fail (''service binary: '' @ err_text err) r
           | None \<Rightarrow>
               (case dp_currentExecutable deps of
                  Inl err \<Rightarrow> add Warn (''service binary: unable to locate current executable: '' @ err_text err) r
                | Inr current \<Rightarrow>
                    if dp_samePath deps (st_Program st) current
                    then add Pass ''service binary: installed service uses the current executable'' r
                    else add Warn (''service binary: installed service uses '' @ Quote pr (st_Program st) @
                      '' instead of current executable '' @ Quote pr current) r))"

text \<open>The loop of \<open>sameKeys\<close> over the indices.\<close>

fun same_keys_loop :: "agent_key list \<Rightarrow> agent_key list \<Rightarrow> bool" where
  "same_keys_loop (l # ls) (r # rs) =
     (if k_Format l \<noteq> k_Format r \<or> k_Blob l \<noteq> k_Blob r then False else same_keys_loop ls rs)"
| "same_keys_loop _ _ = True"

definition sameKeys :: "agent_key list \<Rightarrow> agent_key list \<Rightarrow> bool" where
  "sameKeys left right = (if length left \<noteq> length right then False else same_keys_loop left right)"

definition in_group_msg :: "(nat \<Rightarrow> bool) \<Rightarrow> group \<Rightarrow> string \<Rightarrow> string" where
  "in_group_msg pr g msg = ''group '' @ Quote pr (g_Name g) @ msg"

text \<open>The selectors of an enabled group, resolved when the upstream agent answered.\<close>

definition check_selectors ::
  "(nat \<Rightarrow> bool) \<Rightarrow> fingerprints \<Rightarrow> agent_key list \<Rightarrow> group \<Rightarrow> result list \<Rightarrow> agent_key list \<times> result list" where
  "check_selectors pr fp upstream g r =
     (let (expected, matchCounts) = Resolve fp upstream (Matchers g);
          unmatched = length (filter (\<lambda>count. count = 0) matchCounts);
          n = length (Matchers g);
          r = add Pass (in_group_msg pr g ('' selectors: '' @ counted n ''selector'' @ '' resolved to '' @
                counted (length expected) ''key'')) r;
          r = (if unmatched > 0 then add Warn (in_group_msg pr g ('' selectors: '' @ itoa unmatched @
                 '' of '' @ counted n ''selector'' @ '' matched no upstream key'')) r else r)
      in (expected, r))"

text \<open>One round of the loop over the groups, with the counts of enabled and healthy sockets.\<close>

definition check_group ::
  "(nat \<Rightarrow> bool) \<Rightarrow> fingerprints \<Rightarrow> dependencies \<Rightarrow> goerr + agent_key list \<Rightarrow> group \<Rightarrow>
   nat \<times> nat \<times> result list \<Rightarrow> nat \<times> nat \<times> result list" where
  "check_group pr fp deps upstream g = (\<lambda>(enabled, healthy, r).
     if \<not> IsEnabled g then
       (enabled, healthy, add Pass (in_group_msg pr g ('': disabled ('' @
          counted (length (Matchers g)) ''selector'' @ ''; socket not probed)'')) r)
     else
       let enabled = Suc enabled;
           (expected, r) = (case upstream of Inr ks \<Rightarrow> check_selectors pr fp ks g r | Inl _ \<Rightarrow> ([], r))
       in case dp_listAgentKeys deps (g_Socket g) of
            Inl err \<Rightarrow> (enabled, healthy, add Fail (in_group_msg pr g ('' socket: '' @ err_text err)) r)
          | Inr actual \<Rightarrow>
              (case upstream of
                 Inl _ \<Rightarrow> (enabled, healthy, add Warn (in_group_msg pr g ('' socket: agent responded with '' @
                   counted (length actual) ''key'' @ ''; expected set unavailable'')) r)
               | Inr _ \<Rightarrow>
                   if \<not> sameKeys actual expected then
                     (enabled, healthy, add Fail (in_group_msg pr g ('' socket: returned '' @
                        counted (length actual) ''key'' @ ''; expected '' @ itoa (length expected) @
                        '' in configured order'')) r)
                   else (enabled, Suc healthy, add Pass (in_group_msg pr g ('' socket: returned the expected '' @
                        counted (length expected) ''key'' @ '' in configured order'')) r)))"

definition checkGroups ::
  "(nat \<Rightarrow> bool) \<Rightarrow> fingerprints \<Rightarrow> dependencies \<Rightarrow> config \<Rightarrow> bool \<Rightarrow> result list \<Rightarrow> result list" where
  "checkGroups pr fp deps cfg unmanaged r =
     (let upstream = dp_listAgentKeys deps (c_Upstream cfg);
          r = (case upstream of
                 Inl err \<Rightarrow> add Fail (''upstream: '' @ err_text err) r
               | Inr ks \<Rightarrow> add Pass (''upstream: agent responded with '' @ counted (length ks) ''key'') r);
          (enabled, healthySockets, r) = fold (check_group pr fp deps upstream) (c_Groups cfg) (0, 0, r)
      in if \<not> unmanaged then r
         else if enabled = 0 then
           add Warn ''service mode: unmanaged configuration has no enabled group sockets to probe'' r
         else if healthySockets = enabled then
           add Pass ''service mode: foreground/unmanaged proxy is serving all enabled groups'' r
         else add Fail (''service mode: no healthy managed service; '' @ itoa healthySockets @ '' of '' @
           itoa enabled @ '' enabled group sockets passed'') r)"

definition diag_results ::
  "(nat \<Rightarrow> bool) \<Rightarrow> fingerprints \<Rightarrow> dependencies \<Rightarrow> string \<Rightarrow> result list" where
  "diag_results pr fp deps cfgPath =
     (let r = (case dp_loadConfig deps cfgPath of
                 Inl err \<Rightarrow> add Fail (''config: '' @ err_text err) []
               | Inr cfg \<Rightarrow> add Pass (''config: loaded '' @ Quote pr cfgPath @ '' ('' @
                   itoa (length (c_Groups cfg)) @ '' groups, '' @
                   itoa (length (filter IsEnabled (c_Groups cfg))) @ '' enabled)'') []);
          r = (case dp_serviceStatus deps of
                 Inl err \<Rightarrow> add Fail (''service: unable to inspect managed service: '' @ err_text err) r
               | Inr st \<Rightarrow> checkService pr deps cfgPath st r)
      in case dp_loadConfig deps cfgPath of
           Inl err \<Rightarrow> r
         | Inr cfg \<Rightarrow> checkGroups pr fp deps cfg
             (case dp_serviceStatus deps of Inr st \<Rightarrow> \<not> st_Installed st | Inl _ \<Rightarrow> False) r)"

definition diag_run ::
  "(nat \<Rightarrow> bool) \<Rightarrow> fingerprints \<Rightarrow> dependencies \<Rightarrow> string \<Rightarrow> (nat \<Rightarrow> goerr option) \<Rightarrow>
   string list \<times> goerr option" where
  "diag_run pr fp deps cfgPath fails =
     (let results = diag_results pr fp deps cfgPath
      in case writeTo fails results of
           (out, Some err) \<Rightarrow> (out, Some (ErrWrap (''writing diagnostic report: '' @ err_text err) [err]))
         | (out, None) \<Rightarrow>
             (out, if list_ex (\<lambda>r. rs_level r = Fail) results then Some (ErrSentinel ErrFailures) else None))"

text \<open>The calls of \<open>defaultDependencies\<close> on a Linux host.\<close>

definition defaultDependencies ::
  "(string \<Rightarrow> goerr + config) \<Rightarrow> host_env \<Rightarrow> (string \<Rightarrow> goerr + agent_key list) \<Rightarrow> string \<Rightarrow> int \<Rightarrow>
   host \<Rightarrow> dependencies" where
  "defaultDependencies load env agents cfgPath cacheSeconds h =
     \<lparr>dp_loadConfig = load,
      dp_serviceStatus = (case new_systemd env cfgPath cacheSeconds of Inl e \<Rightarrow> Inl e
        | Inr m \<Rightarrow> fst (sd_Status env m h)),
      dp_listAgentKeys = agents,
      dp_currentExecutable = CurrentExecutable env,
      dp_samePath = SamePath env,
      dp_checkProgram = (\<lambda>st. fst (CheckProgram env st h))\<rparr>"

section \<open>What the verdict means\<close>

definition key_id :: "agent_key \<Rightarrow> string \<times> blob" where
  "key_id k = (k_Format k, k_Blob k)"

definition service_healthy :: "dependencies \<Rightarrow> string \<Rightarrow> status \<Rightarrow> bool" where
  "service_healthy deps cfgPath st \<longleftrightarrow> \<not> st_Installed st \<or>
     (st_Running st \<and> (st_Config st = [] \<or> dp_samePath deps (st_Config st) cfgPath) \<and>
      (st_Program st = [] \<or> dp_checkProgram deps st = None))"

definition group_healthy :: "fingerprints \<Rightarrow> dependencies \<Rightarrow> agent_key list \<Rightarrow> group \<Rightarrow> bool" where
  "group_healthy fp deps upstream g \<longleftrightarrow>
     (\<exists>actual. dp_listAgentKeys deps (g_Socket g) = Inr actual \<and>
        map key_id actual = map key_id (Filter fp upstream (Matchers g)))"

definition healthy :: "fingerprints \<Rightarrow> dependencies \<Rightarrow> string \<Rightarrow> bool" where
  "healthy fp deps cfgPath \<longleftrightarrow>
     (\<exists>cfg st upstream. dp_loadConfig deps cfgPath = Inr cfg \<and> dp_serviceStatus deps = Inr st \<and>
        service_healthy deps cfgPath st \<and> dp_listAgentKeys deps (c_Upstream cfg) = Inr upstream \<and>
        (\<forall>g \<in> set (c_Groups cfg). IsEnabled g \<longrightarrow> group_healthy fp deps upstream g))"

definition no_fail :: "result list \<Rightarrow> bool" where
  "no_fail results \<longleftrightarrow> (\<forall>r \<in> set results. rs_level r \<noteq> Fail)"

lemma no_fail_simps [simp]:
  "no_fail []" "no_fail (add l msg r) \<longleftrightarrow> no_fail r \<and> l \<noteq> Fail"
  by (auto simp: no_fail_def add_def)

lemma list_ex_no_fail: "list_ex (\<lambda>r. rs_level r = Fail) results \<longleftrightarrow> \<not> no_fail results"
  by (auto simp: list_ex_iff no_fail_def)

lemma summary_level_Fail: "summary_level results = Fail \<longleftrightarrow> \<not> no_fail results"
  by (auto simp: summary_level_def level_count_def no_fail_def filter_empty_conv)

lemma sameKeys_iff: "sameKeys left right \<longleftrightarrow> map key_id left = map key_id right"
proof -
  have "same_keys_loop left right \<longleftrightarrow> map key_id left = map key_id right" if "length left = length right"
    using that by (induction left right rule: list_induct2) (auto simp: key_id_def)
  then show ?thesis by (auto simp: sameKeys_def dest: map_eq_imp_length_eq)
qed

lemma checkService_no_fail:
  "no_fail (checkService pr deps cfgPath st r) \<longleftrightarrow> no_fail r \<and> service_healthy deps cfgPath st"
  by (auto simp: checkService_def service_healthy_def Let_def split: option.split sum.split)

lemma check_selectors_spec:
  "fst (check_selectors pr fp ks g r) = Filter fp ks (Matchers g) \<and>
   (no_fail (snd (check_selectors pr fp ks g r)) \<longleftrightarrow> no_fail r)"
  by (simp add: check_selectors_def Filter_def Let_def split_beta)

lemma check_group_spec:
  "case check_group pr fp deps (Inr ks) g (e, h, r) of (e', h', r') \<Rightarrow>
     (no_fail r' \<longleftrightarrow> no_fail r \<and> (IsEnabled g \<longrightarrow> group_healthy fp deps ks g)) \<and>
     (no_fail r' \<longrightarrow> int h' - int e' = int h - int e)"
proof -
  obtain exp r1 where c: "check_selectors pr fp ks g r = (exp, r1)" by fastforce
  with check_selectors_spec [of pr fp ks g r] have "exp = Filter fp ks (Matchers g)" "no_fail r1 \<longleftrightarrow> no_fail r"
    by simp_all
  with c show ?thesis
    by (auto simp: check_group_def group_healthy_def Let_def sameKeys_iff split: sum.split)
qed

lemma check_groups_fold:
  "case fold (check_group pr fp deps (Inr ks)) gs (e, h, r) of (e', h', r') \<Rightarrow>
     (no_fail r' \<longleftrightarrow> no_fail r \<and> (\<forall>g \<in> set gs. IsEnabled g \<longrightarrow> group_healthy fp deps ks g)) \<and>
     (no_fail r' \<longrightarrow> int h' - int e' = int h - int e)"
proof (induction gs arbitrary: e h r)
  case (Cons g gs)
  obtain e1 h1 r1 where c: "check_group pr fp deps (Inr ks) g (e, h, r) = (e1, h1, r1)" by (metis prod.collapse)
  from check_group_spec [where pr = pr and fp = fp and deps = deps and ks = ks and g = g and e = e and h = h and r = r] Cons.IH [where e = e1 and h = h1 and r = r1] c show ?case
    by (auto simp: split_beta)
qed simp

lemma check_group_keeps_fail:
  "\<not> no_fail (snd (snd s)) \<Longrightarrow> \<not> no_fail (snd (snd (check_group pr fp deps upstream g s)))"
  using check_selectors_spec
  by (cases s) (auto simp: check_group_def Let_def split_beta split: sum.split)

lemma fold_keeps_fail:
  "\<not> no_fail (snd (snd s)) \<Longrightarrow> \<not> no_fail (snd (snd (fold (check_group pr fp deps upstream) gs s)))"
  by (induction gs arbitrary: s) (simp_all add: check_group_keeps_fail)

lemma checkGroups_no_fail:
  "no_fail (checkGroups pr fp deps cfg unmanaged r) \<longleftrightarrow> no_fail r \<and>
     (\<exists>ks. dp_listAgentKeys deps (c_Upstream cfg) = Inr ks \<and>
        (\<forall>g \<in> set (c_Groups cfg). IsEnabled g \<longrightarrow> group_healthy fp deps ks g))"
proof (cases "dp_listAgentKeys deps (c_Upstream cfg)")
  case (Inl err)
  let ?r = "add Fail (''upstream: '' @ err_text err) r"
  obtain e h r' where f: "fold (check_group pr fp deps (Inl err)) (c_Groups cfg) (0, 0, ?r) = (e, h, r')"
    by (metis prod.collapse)
  have "\<not> no_fail r'" using fold_keeps_fail [of "(0, 0, ?r)" pr fp deps "Inl err" "c_Groups cfg"] f by simp
  with Inl f show ?thesis by (simp add: checkGroups_def Let_def)
next
  case (Inr ks)
  let ?r = "add Pass (''upstream: agent responded with '' @ counted (length ks) ''key'') r"
  obtain e h r' where f: "fold (check_group pr fp deps (Inr ks)) (c_Groups cfg) (0, 0, ?r) = (e, h, r')"
    by (metis prod.collapse)
  with check_groups_fold [where pr = pr and fp = fp and deps = deps and ks = ks and gs = "c_Groups cfg"
      and e = 0 and h = 0 and r = ?r] Inr show ?thesis
    by (auto simp: checkGroups_def Let_def)
qed

lemma diag_results_healthy: "no_fail (diag_results pr fp deps cfgPath) \<longleftrightarrow> healthy fp deps cfgPath"
  by (auto simp: diag_results_def healthy_def Let_def checkGroups_no_fail checkService_no_fail
      split: sum.split)

lemma write_lines_ok:
  "snd (write_lines fails n lines) = None \<longleftrightarrow> (\<forall>i < length lines. fails (n + i) = None)"
proof (induction lines arbitrary: n)
  case (Cons line lines)
  have "(\<forall>i < Suc (length lines). fails (n + i) = None) \<longleftrightarrow>
    fails n = None \<and> (\<forall>i < length lines. fails (Suc n + i) = None)"
    by (auto simp: less_Suc_eq_0_disj)
  with Cons.IH [of "Suc n"] show ?case by (simp add: split_beta split: option.split)
qed simp

lemma write_lines_out: "snd (write_lines fails n lines) = None \<Longrightarrow> fst (write_lines fails n lines) = lines"
  by (induction lines arbitrary: n) (simp_all add: split_beta split: option.splits)

section \<open>Properties\<close>

text \<open>
  Property C40. The verdict of \<open>-diag\<close> is exact: it succeeds exactly when the configuration
  loads, the service status can be read and an installed service runs this configuration
  from a binary that exists, the upstream agent answers, every enabled group's socket
  returns exactly the keys its selectors resolve to, in configured order, and the whole
  report was written; the summary line then says so after one line per check, and says FAIL
  whenever the verdict is a failure.
\<close>

theorem diag_verdict:
  "(snd (diag_run pr fp deps cfgPath fails) = None \<longleftrightarrow>
      healthy fp deps cfgPath \<and> (\<forall>n \<le> length (diag_results pr fp deps cfgPath). fails n = None)) \<and>
    (summary_level (diag_results pr fp deps cfgPath) = Fail \<longleftrightarrow> \<not> healthy fp deps cfgPath) \<and>
    fst (diag_run pr fp deps cfgPath (\<lambda>_. None)) =
      map result_line (diag_results pr fp deps cfgPath) @ [summary_line (diag_results pr fp deps cfgPath)] \<and>
    snd (diag_run pr fp deps cfgPath (\<lambda>_. None)) \<in> {None, Some (ErrSentinel ErrFailures)}"
proof -
  let ?rs = "diag_results pr fp deps cfgPath"
  have w: "snd (writeTo f ?rs) = None \<longleftrightarrow> (\<forall>n \<le> length ?rs. f n = None)" for f
    using write_lines_ok [of f 0 "map result_line ?rs @ [summary_line ?rs]"]
    by (simp add: writeTo_def less_Suc_eq_le)
  then have n: "snd (writeTo (\<lambda>_. None) ?rs) = None" by simp
  then have "fst (writeTo (\<lambda>_. None) ?rs) = map result_line ?rs @ [summary_line ?rs]"
    unfolding writeTo_def by (rule write_lines_out)
  moreover obtain out err where o: "writeTo fails ?rs = (out, err)" by fastforce
  moreover obtain out' where o': "writeTo (\<lambda>_. None) ?rs = (out', None)" using n by (metis prod.collapse)
  ultimately show ?thesis using w [of fails]
    by (cases err) (simp_all add: diag_run_def Let_def list_ex_no_fail diag_results_healthy summary_level_Fail)
qed

definition diag_key :: agent_key where
  "diag_key = \<lparr>k_Format = ''ssh-ed25519'', k_Blob = ''b'', k_Comment = ''laptop''\<rparr>"

definition diag_config :: config where
  "diag_config = \<lparr>c_Upstream = ''/a'', c_Debug = False,
     c_Groups = [\<lparr>g_Name = ''work'', g_Enabled = None, g_Socket = ''/s'', g_Keys = [],
       g_matchers = [\<lparr>m_Type = MatchComment, m_value = ''laptop''\<rparr>]\<rparr>]\<rparr>"

definition diag_deps :: dependencies where
  "diag_deps = \<lparr>dp_loadConfig = (\<lambda>_. Inr diag_config), dp_serviceStatus = Inr no_status,
     dp_listAgentKeys = (\<lambda>_. Inr [diag_key]), dp_currentExecutable = Inr ''/opt/p'',
     dp_samePath = (=), dp_checkProgram = (\<lambda>_. None)\<rparr>"

theorem diag_verdict_witness:
  "\<forall>pr fp. snd (diag_run pr fp diag_deps ''/c'' (\<lambda>_. None)) = None"
proof -
  have "Filter fp [diag_key] [\<lparr>m_Type = MatchComment, m_value = ''laptop''\<rparr>] = [diag_key]" for fp
    by (simp add: Filter_def Resolve_def Matches_def diag_key_def go_simps)
  then have "healthy fp diag_deps ''/c''" for fp
    by (simp add: healthy_def diag_deps_def diag_config_def service_healthy_def no_status_def
        group_healthy_def IsEnabled_def Matchers_def)
  then show ?thesis using diag_verdict by simp
qed

end
