(* ===== verification/RuntimeTelemetry.thy ===== *)
theory RuntimeTelemetry
  imports Prelude "HOL-Library.Word"
begin

text \<open>
  \<open>internal/app/telemetry.go\<close>: samples of the Go runtime's metrics, the maxima of a reporting
  interval and the growth of the monotone counters over it. Metrics are 64-bit; a duration is
  a count of nanoseconds and \<open>Time.Sub\<close> saturates at 64 bits. What \<open>runtime/metrics.Read\<close>
  delivers is an input: the value of each metric.
\<close>

section \<open>Values and counters\<close>

record runtime_values =
  rv_uptime :: int
  rv_goroutines :: "64 word"
  rv_osThreads :: "64 word"
  rv_heapAlloc :: "64 word"
  rv_heapInuse :: "64 word"
  rv_heapLive :: "64 word"
  rv_heapGoal :: "64 word"
  rv_stackInuse :: "64 word"
  rv_reserved :: "64 word"
  rv_heapObjects :: "64 word"

definition maxima :: "runtime_values \<Rightarrow> runtime_values \<Rightarrow> runtime_values" where
  "maxima v w =
     \<lparr>rv_uptime = max (rv_uptime v) (rv_uptime w),
      rv_goroutines = max (rv_goroutines v) (rv_goroutines w),
      rv_osThreads = max (rv_osThreads v) (rv_osThreads w),
      rv_heapAlloc = max (rv_heapAlloc v) (rv_heapAlloc w),
      rv_heapInuse = max (rv_heapInuse v) (rv_heapInuse w),
      rv_heapLive = max (rv_heapLive v) (rv_heapLive w),
      rv_heapGoal = max (rv_heapGoal v) (rv_heapGoal w),
      rv_stackInuse = max (rv_stackInuse v) (rv_stackInuse w),
      rv_reserved = max (rv_reserved v) (rv_reserved w),
      rv_heapObjects = max (rv_heapObjects v) (rv_heapObjects w)\<rparr>"

text \<open>\<open>runtimeCounters\<close> and \<open>runtimeInterval\<close> have the same fields.\<close>

record runtime_counters =
  rk_allocatedBytes :: "64 word"
  rk_allocatedObjects :: "64 word"
  rk_gcCycles :: "64 word"

definition counterDelta :: "64 word \<Rightarrow> 64 word \<Rightarrow> 64 word" where
  "counterDelta current previous = (if current < previous then 0 else current - previous)"

definition since :: "runtime_counters \<Rightarrow> runtime_counters \<Rightarrow> runtime_counters" where
  "since c previous =
     \<lparr>rk_allocatedBytes = counterDelta (rk_allocatedBytes c) (rk_allocatedBytes previous),
      rk_allocatedObjects = counterDelta (rk_allocatedObjects c) (rk_allocatedObjects previous),
      rk_gcCycles = counterDelta (rk_gcCycles c) (rk_gcCycles previous)\<rparr>"

section \<open>Reading the metrics\<close>

datatype metric =
    Goroutines | OSThreads | HeapObjectsBytes | HeapUnusedBytes | HeapLiveBytes | HeapGoalBytes
  | StackInuseBytes | ReservedBytes | HeapObjects | HeapAllocatedBytes | HeapAllocatedObjects | GCCycles

record runtime_sample =
  rs_values :: runtime_values
  rs_counters :: runtime_counters

fun metric_name :: "metric \<Rightarrow> string" where
  "metric_name Goroutines = ''/sched/goroutines:goroutines''"
| "metric_name OSThreads = ''/sched/threads/total:threads''"
| "metric_name HeapObjectsBytes = ''/memory/classes/heap/objects:bytes''"
| "metric_name HeapUnusedBytes = ''/memory/classes/heap/unused:bytes''"
| "metric_name HeapLiveBytes = ''/gc/heap/live:bytes''"
| "metric_name HeapGoalBytes = ''/gc/heap/goal:bytes''"
| "metric_name StackInuseBytes = ''/memory/classes/heap/stacks:bytes''"
| "metric_name ReservedBytes = ''/memory/classes/total:bytes''"
| "metric_name HeapObjects = ''/gc/heap/objects:objects''"
| "metric_name HeapAllocatedBytes = ''/gc/heap/allocs:bytes''"
| "metric_name HeapAllocatedObjects = ''/gc/heap/allocs:objects''"
| "metric_name GCCycles = ''/gc/cycles/total:gc-cycles''"

text \<open>What \<open>runtime/metrics.Read\<close> stores for each name; the reader takes its twelve samples from it.\<close>

definition read_metrics :: "(string \<Rightarrow> 64 word) \<Rightarrow> runtime_sample" where
  "read_metrics value_of =
     (let value_of = value_of \<circ> metric_name;
          heapAlloc = value_of HeapObjectsBytes; gcCycles = value_of GCCycles
      in \<lparr>rs_values =
            \<lparr>rv_uptime = 0, rv_goroutines = value_of Goroutines, rv_osThreads = value_of OSThreads,
             rv_heapAlloc = heapAlloc, rv_heapInuse = heapAlloc + value_of HeapUnusedBytes,
             rv_heapLive = value_of HeapLiveBytes, rv_heapGoal = value_of HeapGoalBytes,
             rv_stackInuse = value_of StackInuseBytes, rv_reserved = value_of ReservedBytes,
             rv_heapObjects = value_of HeapObjects\<rparr>,
          rs_counters =
            \<lparr>rk_allocatedBytes = value_of HeapAllocatedBytes,
             rk_allocatedObjects = value_of HeapAllocatedObjects, rk_gcCycles = gcCycles\<rparr>\<rparr>)"

section \<open>The telemetry state\<close>

record runtime_telemetry =
  rt_startedAt :: int
  rt_current :: runtime_values
  rt_maximum :: runtime_values
  rt_counters :: runtime_counters
  rt_intervalAt :: runtime_counters
  rt_initialized :: bool

text \<open>One look at the process: the clock and the metrics.\<close>

record reading =
  rd_now :: int
  rd_metrics :: "string \<Rightarrow> 64 word"

definition time_Sub :: "int \<Rightarrow> int \<Rightarrow> int" where
  "time_Sub t u = max (- (2 ^ 63)) (min (2 ^ 63 - 1) (t - u))"

definition values_at :: "int \<Rightarrow> reading \<Rightarrow> runtime_values" where
  "values_at startedAt rd =
     (rs_values (read_metrics (rd_metrics rd)))\<lparr>rv_uptime := max (time_Sub (rd_now rd) startedAt) 0\<rparr>"

definition sample :: "reading \<Rightarrow> runtime_telemetry \<Rightarrow> runtime_telemetry" where
  "sample rd t =
     (let sam = read_metrics (rd_metrics rd);
          values' = values_at (rt_startedAt t) rd;
          t = t\<lparr>rt_current := values', rt_counters := rs_counters sam\<rparr>
      in if \<not> rt_initialized t
         then t\<lparr>rt_maximum := values', rt_intervalAt := rs_counters sam, rt_initialized := True\<rparr>
         else t\<lparr>rt_maximum := maxima (rt_maximum t) values'\<rparr>)"

definition takeReport ::
  "runtime_telemetry \<Rightarrow> (runtime_values \<times> runtime_values \<times> runtime_counters) \<times> runtime_telemetry" where
  "takeReport t =
     (let current = rt_current t; maximum = rt_maximum t;
          interval = since (rt_counters t) (rt_intervalAt t)
      in ((current, maximum, interval),
          t\<lparr>rt_maximum := current, rt_intervalAt := rt_counters t\<rparr>))"

definition rt_logReport ::
  "reading \<Rightarrow> runtime_telemetry \<Rightarrow> (runtime_values \<times> runtime_values \<times> runtime_counters) \<times> runtime_telemetry" where
  "rt_logReport rd t = takeReport (sample rd t)"

definition zero_values :: runtime_values where
  "zero_values = \<lparr>rv_uptime = 0, rv_goroutines = 0, rv_osThreads = 0, rv_heapAlloc = 0,
     rv_heapInuse = 0, rv_heapLive = 0, rv_heapGoal = 0, rv_stackInuse = 0, rv_reserved = 0,
     rv_heapObjects = 0\<rparr>"

definition zero_counters :: runtime_counters where
  "zero_counters = \<lparr>rk_allocatedBytes = 0, rk_allocatedObjects = 0, rk_gcCycles = 0\<rparr>"

definition newRuntimeTelemetry :: "int \<Rightarrow> reading \<Rightarrow> runtime_telemetry" where
  "newRuntimeTelemetry startedAt rd =
     sample rd \<lparr>rt_startedAt = startedAt, rt_current = zero_values, rt_maximum = zero_values,
       rt_counters = zero_counters, rt_intervalAt = zero_counters, rt_initialized = False\<rparr>"

text \<open>The loop of \<open>run\<close>: the ticks in the order \<open>select\<close> takes them, up to the cancellation.\<close>

datatype rt_event = SampleTick reading | ReportTick reading | RunDone

fun rt_run ::
  "rt_event list \<Rightarrow> runtime_telemetry \<Rightarrow>
   (runtime_values \<times> runtime_values \<times> runtime_counters) list \<times> runtime_telemetry" where
  "rt_run [] t = ([], t)"
| "rt_run (RunDone # evs) t = ([], t)"
| "rt_run (SampleTick rd # evs) t = rt_run evs (sample rd t)"
| "rt_run (ReportTick rd # evs) t =
     (let (report, t) = rt_logReport rd t; (reports, t) = rt_run evs t in (report # reports, t))"

text \<open>The three events of a report, with the attributes in the order they are logged.\<close>

datatype attr = Seconds int | U64 "64 word"

definition values_logAttrs :: "runtime_values \<Rightarrow> (string \<times> attr) list" where
  "values_logAttrs v =
     [(''uptime_seconds'', Seconds (rv_uptime v)), (''goroutines'', U64 (rv_goroutines v)),
      (''os_threads'', U64 (rv_osThreads v)), (''heap_alloc_bytes'', U64 (rv_heapAlloc v)),
      (''heap_inuse_bytes'', U64 (rv_heapInuse v)), (''heap_live_bytes'', U64 (rv_heapLive v)),
      (''heap_goal_bytes'', U64 (rv_heapGoal v)), (''stack_inuse_bytes'', U64 (rv_stackInuse v)),
      (''runtime_reserved_bytes'', U64 (rv_reserved v)), (''heap_objects'', U64 (rv_heapObjects v))]"

definition interval_logAttrs :: "runtime_counters \<Rightarrow> (string \<times> attr) list" where
  "interval_logAttrs v =
     [(''heap_allocated_bytes'', U64 (rk_allocatedBytes v)),
      (''heap_allocated_objects'', U64 (rk_allocatedObjects v)), (''gc_cycles'', U64 (rk_gcCycles v))]"

fun report_events ::
  "runtime_values \<times> runtime_values \<times> runtime_counters \<Rightarrow> (string \<times> (string \<times> attr) list) list" where
  "report_events (current, maximum, interval) =
     [(''telemetry current'', values_logAttrs current), (''telemetry max'', values_logAttrs maximum),
      (''telemetry interval'', interval_logAttrs interval)]"

definition rt_log :: "rt_event list \<Rightarrow> runtime_telemetry \<Rightarrow> (string \<times> (string \<times> attr) list) list" where
  "rt_log evs t = concat (map report_events (fst (rt_run evs t)))"

section \<open>The reports against their reference\<close>

text \<open>
  The reference keeps the readings since the last report, the report's own reading first, and
  computes each report from them.
\<close>

definition counters_of :: "reading \<Rightarrow> runtime_counters" where
  "counters_of rd = rs_counters (read_metrics (rd_metrics rd))"

definition report_of :: "int \<Rightarrow> reading list \<Rightarrow> runtime_values \<times> runtime_values \<times> runtime_counters" where
  "report_of startedAt window =
     (values_at startedAt (last window),
      foldl maxima (values_at startedAt (hd window)) (map (values_at startedAt) (tl window)),
      since (counters_of (last window)) (counters_of (hd window)))"

fun ref_reports ::
  "int \<Rightarrow> reading list \<Rightarrow> rt_event list \<Rightarrow> (runtime_values \<times> runtime_values \<times> runtime_counters) list" where
  "ref_reports startedAt window [] = []"
| "ref_reports startedAt window (RunDone # evs) = []"
| "ref_reports startedAt window (SampleTick rd # evs) = ref_reports startedAt (window @ [rd]) evs"
| "ref_reports startedAt window (ReportTick rd # evs) =
     report_of startedAt (window @ [rd]) # ref_reports startedAt [rd] evs"

definition window_inv :: "int \<Rightarrow> reading list \<Rightarrow> runtime_telemetry \<Rightarrow> bool" where
  "window_inv startedAt window t \<longleftrightarrow> window \<noteq> [] \<and> rt_initialized t \<and> rt_startedAt t = startedAt \<and>
     rt_counters t = counters_of (last window) \<and> rt_intervalAt t = counters_of (hd window) \<and>
     (rt_current t, rt_maximum t, since (rt_counters t) (rt_intervalAt t)) = report_of startedAt window"

lemma window_inv_new: "window_inv startedAt [rd] (newRuntimeTelemetry startedAt rd)"
  by (simp add: window_inv_def newRuntimeTelemetry_def sample_def Let_def report_of_def counters_of_def)

lemma window_inv_sample: "window_inv startedAt window t \<Longrightarrow> window_inv startedAt (window @ [rd]) (sample rd t)"
  by (auto simp: window_inv_def sample_def Let_def report_of_def counters_of_def)

lemma window_inv_report:
  assumes "window_inv startedAt window t"
  shows "fst (rt_logReport rd t) = report_of startedAt (window @ [rd]) \<and>
    window_inv startedAt [rd] (snd (rt_logReport rd t))"
proof -
  note w = window_inv_sample [OF assms, of rd]
  then have "rt_current (sample rd t) = values_at startedAt rd" "rt_counters (sample rd t) = counters_of rd"
    by (simp_all add: window_inv_def report_of_def)
  with w show ?thesis
    by (auto simp: window_inv_def rt_logReport_def takeReport_def Let_def report_of_def)
qed

lemma rt_run_report:
  "rt_run (ReportTick rd # evs) t =
     (fst (rt_logReport rd t) # fst (rt_run evs (snd (rt_logReport rd t))),
      snd (rt_run evs (snd (rt_logReport rd t))))"
  by (simp add: split_beta)

lemma rt_run_reference:
  "window_inv startedAt window t \<Longrightarrow> fst (rt_run evs t) = ref_reports startedAt window evs"
proof (induction evs arbitrary: window t)
  case (Cons e evs)
  show ?case
  proof (cases e)
    case (SampleTick rd)
    then show ?thesis using Cons.IH [OF window_inv_sample [OF Cons.prems]] by simp
  next
    case (ReportTick rd)
    then show ?thesis
      using window_inv_report [OF Cons.prems, of rd] Cons.IH
      by (auto simp: rt_run_report simp del: rt_run.simps)
  qed simp
qed simp

lemma ref_reports_windows:
  assumes "r \<in> set (ref_reports startedAt window evs)" "window \<noteq> []"
  obtains window' where "window' \<noteq> []" "r = report_of startedAt window'"
  using assms
proof (induction startedAt window evs arbitrary: thesis rule: ref_reports.induct)
  case (4 startedAt window rd evs)
  then show ?case by (metis list.distinct(1) append_is_Nil_conv ref_reports.simps(4) set_ConsD)
qed auto

section \<open>What a log of reports says\<close>

section \<open>Bounds\<close>

definition values_le :: "runtime_values \<Rightarrow> runtime_values \<Rightarrow> bool" where
  "values_le v w \<longleftrightarrow> rv_uptime v \<le> rv_uptime w \<and> rv_goroutines v \<le> rv_goroutines w \<and>
     rv_osThreads v \<le> rv_osThreads w \<and> rv_heapAlloc v \<le> rv_heapAlloc w \<and>
     rv_heapInuse v \<le> rv_heapInuse w \<and> rv_heapLive v \<le> rv_heapLive w \<and>
     rv_heapGoal v \<le> rv_heapGoal w \<and> rv_stackInuse v \<le> rv_stackInuse w \<and>
     rv_reserved v \<le> rv_reserved w \<and> rv_heapObjects v \<le> rv_heapObjects w"

lemma values_le_refl [simp]: "values_le v v"
  by (simp add: values_le_def)

lemma values_le_trans: "values_le u v \<Longrightarrow> values_le v w \<Longrightarrow> values_le u w"
  by (auto simp: values_le_def)

lemma maxima_upper: "values_le v (maxima v w)" "values_le w (maxima v w)"
  by (simp_all add: values_le_def maxima_def)

lemma foldl_maxima_upper:
  "values_le v (foldl maxima v vs) \<and> (\<forall>w \<in> set vs. values_le w (foldl maxima v vs))"
proof (induction vs arbitrary: v)
  case (Cons w vs)
  from Cons.IH [of "maxima v w"] show ?case
    by (auto intro: values_le_trans maxima_upper)
qed simp

lemma report_of_upper:
  assumes "rd \<in> set window"
  shows "values_le (values_at startedAt rd) (fst (snd (report_of startedAt window)))"
  using assms foldl_maxima_upper [of "values_at startedAt (hd window)" "map (values_at startedAt) (tl window)"]
  by (cases window) (auto simp: report_of_def)

lemma unat_counterDelta: "unat (counterDelta a b) = unat a - unat b"
  by (auto simp: counterDelta_def unat_sub word_less_nat_alt not_less word_le_nat_alt)

fun report_readings :: "rt_event list \<Rightarrow> reading list" where
  "report_readings [] = []"
| "report_readings (RunDone # evs) = []"
| "report_readings (SampleTick rd # evs) = report_readings evs"
| "report_readings (ReportTick rd # evs) = rd # report_readings evs"

lemma intervals_telescope:
  fixes f :: "runtime_counters \<Rightarrow> 64 word"
  assumes since_f: "\<And>a b. f (since a b) = counterDelta (f a) (f b)"
  shows "window \<noteq> [] \<Longrightarrow>
    sorted (map (\<lambda>rd. unat (f (counters_of rd))) (hd window # report_readings evs)) \<Longrightarrow>
    unat (f (counters_of (hd window))) +
      sum_list (map (\<lambda>(_, _, interval). unat (f interval)) (ref_reports startedAt window evs)) =
    unat (f (counters_of (last (hd window # report_readings evs))))"
proof (induction evs arbitrary: window)
  case (Cons e evs)
  show ?case
  proof (cases e)
    case (SampleTick rd)
    with Cons.prems Cons.IH [of "window @ [rd]"] show ?thesis by simp
  next
    case (ReportTick rd)
    with Cons.prems Cons.IH [of "[rd]"] show ?thesis
      by (simp add: report_of_def since_f unat_counterDelta)
  qed simp
qed simp

definition monotone_counters :: "reading list \<Rightarrow> bool" where
  "monotone_counters rds \<longleftrightarrow>
     sorted (map (\<lambda>rd. unat (rk_allocatedBytes (counters_of rd))) rds) \<and>
     sorted (map (\<lambda>rd. unat (rk_allocatedObjects (counters_of rd))) rds) \<and>
     sorted (map (\<lambda>rd. unat (rk_gcCycles (counters_of rd))) rds)"

definition report_total ::
  "(runtime_counters \<Rightarrow> 64 word) \<Rightarrow> (runtime_values \<times> runtime_values \<times> runtime_counters) list \<Rightarrow> nat" where
  "report_total f reports = sum_list (map (\<lambda>(_, _, interval). unat (f interval)) reports)"

text \<open>
  The reports of a process: started at \<open>startedAt\<close> with a first reading, whatever
  sample and report ticks follow and in whatever order, the reports logged are those computed
  from the readings alone: the current values are those of the report's own reading, the maxima
  are taken over that reading, every sample since the last report and the last report's reading,
  and the interval is the growth of each counter since the last report.
\<close>
theorem reports_match_readings:
  "fst (rt_run evs (newRuntimeTelemetry startedAt rd)) = ref_reports startedAt [rd] evs"
  by (rule rt_run_reference [OF window_inv_new])

text \<open>
  No growth is lost or counted twice: while the runtime's cumulative counters do
  not shrink between reports, the intervals of the reports of a run add up, without wrapping,
  to the growth of each counter from the first reading to the last report; and in every report
  no current value exceeds the maximum of its interval, whatever the readings.
\<close>
theorem reports_account_for_growth:
  assumes "monotone_counters (rd # report_readings evs)"
    and "reports = fst (rt_run evs (newRuntimeTelemetry startedAt rd))"
  shows "(\<forall>f \<in> {rk_allocatedBytes, rk_allocatedObjects, rk_gcCycles}.
      unat (f (counters_of rd)) + report_total f reports =
        unat (f (counters_of (last (rd # report_readings evs))))) \<and>
    (\<forall>(current, maximum, interval) \<in> set reports. values_le current maximum)"
proof (intro conjI ballI)
  fix f :: "runtime_counters \<Rightarrow> 64 word"
  assume "f \<in> {rk_allocatedBytes, rk_allocatedObjects, rk_gcCycles}"
  then show "unat (f (counters_of rd)) + report_total f reports =
      unat (f (counters_of (last (rd # report_readings evs))))"
    using assms intervals_telescope [of f "[rd]" evs startedAt]
    by (auto simp: rt_run_reference [OF window_inv_new] report_total_def monotone_counters_def since_def)
next
  fix r assume "r \<in> set reports"
  then have "r \<in> set (ref_reports startedAt [rd] evs)"
    by (simp add: assms rt_run_reference [OF window_inv_new])
  then obtain window where "window \<noteq> []" "r = report_of startedAt window"
    by (rule ref_reports_windows) simp
  then show "case r of (current, maximum, interval) \<Rightarrow> values_le current maximum"
    using report_of_upper [of "last window" window startedAt] by (simp add: report_of_def)
qed

definition sample_reading :: "int \<Rightarrow> nat \<Rightarrow> reading" where
  "sample_reading now n = \<lparr>rd_now = now, rd_metrics = (\<lambda>_. of_nat n)\<rparr>"

lemma reports_account_for_growth_witness:
  "5 + report_total rk_gcCycles (fst (rt_run
     [SampleTick (sample_reading 1 9), ReportTick (sample_reading 2 7), ReportTick (sample_reading 3 8)]
     (newRuntimeTelemetry 0 (sample_reading 0 5)))) = 8"
  using reports_account_for_growth [where rd = "sample_reading 0 5" and startedAt = 0 and evs =
    "[SampleTick (sample_reading 1 9), ReportTick (sample_reading 2 7), ReportTick (sample_reading 3 8)]",
    OF _ refl]
  by (simp add: monotone_counters_def counters_of_def sample_reading_def read_metrics_def Let_def)

end
