(* ===== verification/YamlScalar.thy ===== *)
theory YamlScalar
  imports GoQuote
begin

text \<open>
  What a configuration entry printed by \<open>-list\<close> means when it is read again. The configuration is
  decoded by \<open>go.yaml.in/yaml/v3\<close>, which is not part of the program: it is the parameter \<open>yaml\<close> of
  the theorems, of which they assume what the YAML specification documents for a double-quoted
  scalar on one line (sections 5.7 and 7.3.1). \<open>yaml_double_quoted\<close> is that documentation as a
  function: it gives the value, in UTF-8, of the scalars the specification gives one, and \<open>None\<close>
  otherwise. A hexadecimal escape stands for a code point there, not for a byte as in Go.
\<close>

section \<open>Double-quoted scalars\<close>

text \<open>The code points that may stand for themselves, line breaks and the byte order mark apart.\<close>

definition yaml_plain :: "nat \<Rightarrow> bool" where
  "yaml_plain r \<longleftrightarrow> (r = 9 \<or> in_range 32 126 r \<or> in_range 160 55295 r \<or> in_range 57344 65533 r \<or>
     in_range 65536 1114111 r) \<and> r \<noteq> 8232 \<and> r \<noteq> 8233 \<and> r \<noteq> 65279"

definition yaml_escapes :: "(char \<times> nat) list" where
  "yaml_escapes = [(CHR ''0'', 0), (CHR ''a'', 7), (CHR ''b'', 8), (CHR ''t'', 9), (CHR 0x09, 9), (CHR ''n'', 10),
     (CHR ''v'', 11), (CHR ''f'', 12), (CHR ''r'', 13), (CHR ''e'', 27), (CHR '' '', 32), (dquote, 34),
     (backslash, 92), (CHR ''N'', 133), (CHR ''_'', 160), (CHR ''L'', 8232), (CHR ''P'', 8233)]"

definition yaml_hex_escapes :: "(char \<times> nat) list" where
  "yaml_hex_escapes = [(CHR ''x'', 2), (CHR ''u'', 4), (CHR ''U'', 8)]"

definition prepend_rune :: "nat \<Rightarrow> (string \<times> string) option \<Rightarrow> (string \<times> string) option" where
  "prepend_rune r = map_option (\<lambda>(v, rest). (encode_valid r @ v, rest))"

text \<open>From behind the opening quote: the value and what follows the closing quote.\<close>

function yaml_scan :: "string \<Rightarrow> (string \<times> string) option" where
  "yaml_scan s = (case s of
      [] \<Rightarrow> None
    | c # t \<Rightarrow>
        if c = dquote then Some ([], t)
        else if c = backslash then
          (case t of
             [] \<Rightarrow> None
           | e # u \<Rightarrow>
               (case map_of yaml_escapes e of
                  Some r \<Rightarrow> prepend_rune r (yaml_scan u)
                | None \<Rightarrow>
                    (case map_of yaml_hex_escapes e of
                       None \<Rightarrow> None
                     | Some n \<Rightarrow>
                         (case read_hex n 0 u of
                            None \<Rightarrow> None
                          | Some (r, u') \<Rightarrow> if ValidRune r then prepend_rune r (yaml_scan u') else None))))
        else
          (case utf8_decode s of
             None \<Rightarrow> None
           | Some (r, w) \<Rightarrow> if yaml_plain r then prepend_rune r (yaml_scan (drop (max 1 w) s)) else None))"
  by pat_completeness auto
termination
  by (relation "measure length") (auto dest!: read_hex_shorter)

declare yaml_scan.simps [simp del]

definition yaml_double_quoted :: "string \<Rightarrow> string option" where
  "yaml_double_quoted s = (case s of
      [] \<Rightarrow> None
    | c # t \<Rightarrow> if c \<noteq> dquote then None
        else (case yaml_scan t of Some (v, []) \<Rightarrow> Some v | _ \<Rightarrow> None))"

text \<open>What the theorems assume of the decoder, and of the table of printable code points.\<close>

definition documented_yaml :: "(string \<Rightarrow> string option) \<Rightarrow> bool" where
  "documented_yaml yaml \<longleftrightarrow> (\<forall>s v. yaml_double_quoted s = Some v \<longrightarrow> yaml s = Some v)"

definition documented_print :: "(nat \<Rightarrow> bool) \<Rightarrow> bool" where
  "documented_print pr \<longleftrightarrow> (\<forall>r. 255 < r \<and> pr r \<longrightarrow> yaml_plain r)"

section \<open>Reading what Go quotes\<close>

definition yaml_written :: "string \<Rightarrow> nat \<Rightarrow> bool" where
  "yaml_written out r \<longleftrightarrow> (\<forall>t. yaml_scan (out @ t) = prepend_rune r (yaml_scan t))"

lemma yaml_written_escape: "map_of yaml_escapes e = Some r \<Longrightarrow> yaml_written [backslash, e] r"
  by (simp add: yaml_written_def yaml_scan.simps [of "backslash # x" for x])

lemma yaml_written_hex:
  assumes "map_of yaml_hex_escapes e = Some n" "r < 16 ^ n" "ValidRune r"
  shows "yaml_written ([backslash, e] @ hex n r) r"
proof -
  have "map_of yaml_escapes e = None"
    using assms(1) by (auto simp: yaml_hex_escapes_def yaml_escapes_def split: if_splits)
  then show ?thesis using assms read_hex_hex [of n 0 r]
    by (simp add: yaml_written_def yaml_scan.simps [of "backslash # x" for x])
qed

lemma yaml_written_raw:
  assumes "utf8_decode s = Some (r, w)" "yaml_plain r" "r \<noteq> code dquote" "r \<noteq> code backslash"
  shows "yaml_written (take w s) r"
proof -
  note d = decode_encode [OF assms(1)]
  have w: "0 < w" "w \<le> length s" "take w s = encode_valid r" "ValidRune r" using d by blast+
  then have "take w s \<noteq> []" by (cases s) auto
  then obtain c cs where cs: "take w s = c # cs" by (cases "take w s") blast+
  have c: "c \<noteq> dquote \<and> c \<noteq> backslash"
  proof (cases "r < 128")
    case True
    then have "code c = r" using w(3) cs by (simp add: encode_valid_def)
    with assms(3,4) show ?thesis by auto
  next
    case False
    moreover have "c \<in> set (encode_valid r)" using w(3) cs by (metis list.set_intros(1))
    ultimately have "128 \<le> code c" using w(4) encode_valid_not_ascii [of r c] by simp
    then show ?thesis by auto
  qed
  show ?thesis unfolding yaml_written_def
  proof
    fix t
    have "drop (max 1 w) (take w s @ t) = t" using w(1,2) by simp
    moreover have "utf8_decode (take w s @ t) = Some (r, w)" using d by metis
    ultimately
    show "yaml_scan (take w s @ t) = prepend_rune r (yaml_scan t)"
      using c assms(2) by (subst yaml_scan.simps) (simp add: cs)
  qed
qed

text \<open>One round of the quoting loop writes one code point, for a byte that is not UTF-8 its number.\<close>

lemma escapes_yaml: "map_of escapes r = Some e \<Longrightarrow> map_of yaml_escapes e = Some r"
  by (simp add: escapes_def split: if_split_asm) (auto simp: yaml_escapes_def)

lemma yaml_written_appendEscapedRune:
  assumes "utf8_decode s = Some (r, w)" "documented_print pr"
  shows "yaml_written (appendEscapedRune pr r) r"
proof -
  note d = decode_encode [OF assms(1)]
  have valid: "ValidRune r" using d by blast
  consider "r = code dquote \<or> r = code backslash" | "IsPrint pr r" "r \<noteq> code dquote" "r \<noteq> code backslash"
    | e where "map_of escapes r = Some e" "\<not> IsPrint pr r" "r \<noteq> code dquote" "r \<noteq> code backslash"
    | "map_of escapes r = None" "\<not> IsPrint pr r" "r \<noteq> code dquote" "r \<noteq> code backslash" by blast
  then show ?thesis
  proof cases
    case 1
    moreover have "map_of yaml_escapes dquote = Some (code dquote)" "map_of yaml_escapes backslash = Some (code backslash)"
      by (simp_all add: yaml_escapes_def)
    ultimately show ?thesis using yaml_written_escape by (auto simp: appendEscapedRune_def simp del: of_char_Char)
  next
    case 2
    then have "yaml_plain r" using assms(2) by (auto simp: IsPrint_def documented_print_def yaml_plain_def in_range_def split: if_splits)
    from yaml_written_raw [OF assms(1) this 2(2,3)] 2 d show ?thesis by (simp add: appendEscapedRune_def AppendRune_def)
  next
    case (3 e)
    with yaml_written_escape [OF escapes_yaml [OF 3(1)]] show ?thesis by (simp add: appendEscapedRune_def)
  next
    case 4
    have "r < 4294967296" using valid by (auto simp: ValidRune_def)
    then have "r < 256 \<Longrightarrow> yaml_written ([backslash, CHR ''x''] @ hex 2 r) r"
      "r < 65536 \<Longrightarrow> yaml_written ([backslash, CHR ''u''] @ hex 4 r) r"
      "yaml_written ([backslash, CHR ''U''] @ hex 8 r) r"
      using valid by (auto intro!: yaml_written_hex [simplified] simp: yaml_hex_escapes_def)
    with 4 valid show ?thesis
      by (cases "r < 32 \<or> r = 127"; cases "r < 65536") (auto simp: appendEscapedRune_def)
  qed
qed

text \<open>What becomes of a string that is quoted by Go and read by YAML.\<close>

function yaml_value :: "string \<Rightarrow> string" where
  "yaml_value s =
     (if s = [] then []
      else case utf8_decode s of
             Some (r, w) \<Rightarrow> encode_valid r @ yaml_value (drop (max 1 w) s)
           | None \<Rightarrow> encode_valid (code (hd s)) @ yaml_value (tl s))"
  by pat_completeness auto
termination by (relation "measure length") auto

declare yaml_value.simps [simp del]

lemma yaml_value_Nil [simp]: "yaml_value [] = []"
  by (simp add: yaml_value.simps)

lemma yaml_scan_Quote: 
  assumes "documented_print pr"
  shows "yaml_scan (quote_body pr s @ dquote # rest) = Some (yaml_value s, rest)"
proof (induction s rule: yaml_value.induct)
  case (1 s)
  show ?case
  proof (cases "s = []")
    case True
    then show ?thesis by (simp add: yaml_scan.simps [of "dquote # rest"])
  next
    case s: False
    show ?thesis
    proof (cases "utf8_decode s")
      case None
      have "yaml_written ([backslash, CHR ''x''] @ hex 2 (code (hd s))) (code (hd s))"
        using yaml_written_hex [of "CHR ''x''" 2 "code (hd s)"] code_less [of "hd s"]
        by (simp add: yaml_hex_escapes_def ValidRune_def)
      moreover have "quote_step pr s = ([backslash, CHR ''x''] @ hex 2 (code (hd s)), 1)"
        using None s by (simp add: quote_step_def DecodeRune_def)
      ultimately show ?thesis using 1(1) [OF s None] s None
        by (simp add: quote_body.simps [of pr s] yaml_value.simps [of s] yaml_written_def prepend_rune_def drop_Suc)
    next
      case (Some rw)
      obtain r w where rw: "rw = (r, w)" by fastforce
      have "max 1 w = w" using decode_encode [OF Some [unfolded rw]] by simp
      then have q: "quote_step pr s = (appendEscapedRune pr r, max 1 w)"
        using Some rw quote_step_decoded [of s r w pr] by simp
      from 1(2) [OF s Some rw [symmetric]] yaml_written_appendEscapedRune [OF Some [unfolded rw] assms] Some rw s q show ?thesis
        by (simp add: quote_body.simps [of pr s] yaml_value.simps [of s] yaml_written_def prepend_rune_def)
    qed
  qed
qed

lemma yaml_Quote: "documented_print pr \<Longrightarrow> yaml_double_quoted (Quote pr s) = Some (yaml_value s)"
  using yaml_scan_Quote [of pr s "[]"] by (simp add: yaml_double_quoted_def Quote_def)

section \<open>Which strings survive\<close>

lemma decode_encoded:
  assumes "utf8_decode s = Some (r, w)"
  shows "utf8_decode (encode_valid r @ t) = Some (r, length (encode_valid r))"
proof -
  note d = decode_encode [OF assms]
  then have "length (encode_valid r) = w" "take w s = encode_valid r" by (metis length_take min_absorb2, blast)
  with d show ?thesis by metis
qed

lemma decode_two:
  assumes "128 \<le> b" "b < 2048"
  shows "utf8_decode (encode_valid b @ t) = Some (b, length (encode_valid b))"
proof -
  have "b div 64 < 32" "2 \<le> b div 64" using assms by linarith+
  then show ?thesis using assms by (simp add: encode_valid_def decode2_def in_range_def)
qed

lemma decode_byte:
  assumes "utf8_decode s = None" "s \<noteq> []"
  shows "utf8_decode (encode_valid (code (hd s)) @ t) = Some (code (hd s), length (encode_valid (code (hd s))))"
proof (rule decode_two)
  show "128 \<le> code (hd s)" using assms by (cases s) (auto split: if_splits)
  show "code (hd s) < 2048" using code_less [of "hd s"] by linarith
qed

lemma ValidString_step:
  assumes "utf8_decode (x @ t) = Some (r, length x)" "x \<noteq> []"
  shows "ValidString (x @ t) = ValidString t"
proof -
  have "max 1 (length x) = length x" using assms(2) by (cases x) auto
  then show ?thesis using assms by (simp add: ValidString.simps [of "x @ t"])
qed

lemma encode_valid_not_Nil [simp]: "encode_valid r \<noteq> []"
  by (simp add: encode_valid_def)

lemma ValidString_yaml_value: "ValidString (yaml_value s)"
proof (induction s rule: yaml_value.induct)
  case (1 s)
  show ?case
  proof (cases "s = []")
    case True
    then show ?thesis by (simp add: ValidString.simps)
  next
    case False
    then show ?thesis
    proof (cases "utf8_decode s")
      case None
      with 1(1) [OF False None] ValidString_step [OF decode_byte [OF None False]] False show ?thesis
        by (simp add: yaml_value.simps [of s])
    next
      case (Some rw)
      obtain r w where rw: "rw = (r, w)" by fastforce
      with 1(2) [OF False Some rw [symmetric]] ValidString_step [OF decode_encoded [OF Some [unfolded rw]]] Some False show ?thesis
        by (simp add: yaml_value.simps [of s])
    qed
  qed
qed

lemma yaml_value_valid: "ValidString s \<Longrightarrow> yaml_value s = s"
proof (induction s rule: ValidString.induct)
  case (1 s)
  show ?case
  proof (cases "s = []")
    case False
    with 1(2) obtain r w where dec: "utf8_decode s = Some (r, w)" and v: "ValidString (drop (max 1 w) s)"
      by (auto simp: ValidString.simps [of s] split: option.splits)
    note d = decode_encode [OF dec]
    then have "max 1 w = w" by simp
    with 1(1) [OF False dec refl v] dec d False show ?thesis
      by (simp add: yaml_value.simps [of s]) (metis append_take_drop_id)
  qed simp
qed

lemma yaml_value_Nil_iff [simp]: "yaml_value s = [] \<longleftrightarrow> s = []"
  by (subst yaml_value.simps) (auto split: option.splits)

lemma ValidString_ascii: "list_all is_ascii s \<Longrightarrow> ValidString s"
proof (induction s)
  case (Cons c s)
  then show ?case by (simp add: ValidString.simps [of "c # s"] is_ascii_def)
qed (simp add: ValidString.simps)

lemma yaml_value_eq_iff: "yaml_value s = s \<longleftrightarrow> ValidString s"
  using ValidString_yaml_value yaml_value_valid by metis

end
