(* ===== verification/ListKeys.thy ===== *)
theory ListKeys
  imports Keys YamlScalar GoPath GoErr GoTime
begin

text \<open>
  \<open>internal/proxy/server.go\<close>, the listing of an agent's keys: \<open>ListAgentKeys\<close> over one
  connection, and \<open>ListUpstream\<close> with \<open>formatKeys\<close>, which prints the keys as configuration
  entries. What the system calls and the agent answer, and \<open>ssh.ParsePublicKey\<close>, are inputs.
\<close>

section \<open>Listing over one connection\<close>

datatype list_call = CallDial | CallSetDeadline | CallList | CallClose

record list_env =
  le_dial :: "goerr option"
  le_deadline :: "goerr option option"
  le_list :: "goerr + agent_key list"
  le_close :: "goerr option"

text \<open>
  \<open>le_deadline\<close> is \<open>None\<close> for a context without a deadline. The deferred function closes the
  connection and joins what goes wrong there, unless the connection was closed already.
\<close>

definition close_deferred :: "list_env \<Rightarrow> goerr + agent_key list \<Rightarrow> goerr + agent_key list" where
  "close_deferred env ret =
     (case le_close env of
        Some err \<Rightarrow>
          if \<not> errors_Is err NetErrClosed then
            (let retErr = (case ret of Inl e \<Rightarrow> Some e | Inr _ \<Rightarrow> None)
             in case errors_Join [retErr, Some (ErrWrap (''closing agent connection: '' @ err_text err) [err])] of
                  Some e \<Rightarrow> Inl e | None \<Rightarrow> ret)
          else ret
      | None \<Rightarrow> ret)"

definition listAgentKeys_body :: "list_env \<Rightarrow> (goerr + agent_key list) \<times> list_call list" where
  "listAgentKeys_body env =
     (case le_deadline env of
        Some (Some err) \<Rightarrow>
          (Inl (ErrWrap (''setting agent connection deadline: '' @ err_text err) [err]), [CallSetDeadline])
      | deadline \<Rightarrow>
          (case le_list env of
             Inl err \<Rightarrow> Inl (ErrWrap (''listing agent keys: '' @ err_text err) [err])
           | Inr ks \<Rightarrow> Inr ks,
           (if deadline = None then [] else [CallSetDeadline]) @ [CallList]))"

definition ListAgentKeys :: "list_env \<Rightarrow> (goerr + agent_key list) \<times> list_call list" where
  "ListAgentKeys env =
     (case le_dial env of
        Some err \<Rightarrow> (Inl (ErrWrap (''connecting to agent: '' @ err_text err) [err]), [CallDial])
      | None \<Rightarrow> (let (ret, calls) = listAgentKeys_body env
                in (close_deferred env ret, CallDial # calls @ [CallClose])))"

section \<open>The size of a key\<close>

text \<open>What \<open>ssh.ParsePublicKey\<close> makes of a blob, as far as \<open>keyBits\<close> looks.\<close>

datatype crypto_key = DSA nat | RSA nat | ECDSA nat | Ed25519 nat | OtherCrypto

datatype ssh_key = PlainKey "crypto_key option" | Certificate "crypto_key option"

fun bit_len :: "nat \<Rightarrow> nat" where
  "bit_len n = (if n = 0 then 0 else Suc (bit_len (n div 2)))"

declare bit_len.simps [simp del]

definition keyBits :: "(blob \<Rightarrow> ssh_key option) \<Rightarrow> blob \<Rightarrow> nat" where
  "keyBits parse_key blob =
     (case parse_key blob of None \<Rightarrow> 0
      | Some pk \<Rightarrow>
          (case (case pk of Certificate key \<Rightarrow> key | PlainKey key \<Rightarrow> key) of
             None \<Rightarrow> 0
           | Some (DSA p) \<Rightarrow> bit_len p
           | Some (RSA n) \<Rightarrow> bit_len n
           | Some (ECDSA bits) \<Rightarrow> bits
           | Some (Ed25519 len) \<Rightarrow> len * 8
           | Some OtherCrypto \<Rightarrow> 0))"

section \<open>Printing\<close>

abbreviation nl :: char where "nl \<equiv> CHR 0x0A"

record list_params =
  lp_pr :: "nat \<Rightarrow> bool"
  lp_fp :: fingerprints
  lp_key :: "blob \<Rightarrow> ssh_key option"

text \<open>The lines the loop appends for the key at index \<open>i\<close>.\<close>

definition format_key :: "list_params \<Rightarrow> nat \<Rightarrow> agent_key \<Rightarrow> string list" where
  "format_key p i k =
     (let bits = keyBits (lp_key p) (k_Blob k);
          lines = (if bits > 0
            then [''['' @ itoa (i + 1) @ ''] '' @ k_Format k @ '' '' @ itoa bits @ [nl]]
            else [''['' @ itoa (i + 1) @ ''] '' @ k_Format k @ [nl]]);
          lines = (if k_Comment k \<noteq> '''' then lines @ [''  - comment: '' @ Quote (lp_pr p) (k_Comment k) @ [nl]] else lines);
          lines = lines @ [''  - sha256: '' @ Quote (lp_pr p) (FingerprintSHA256 (lp_fp p) (k_Blob k)) @ [nl]]
      in lines @ [''  - md5: '' @ Quote (lp_pr p) (''MD5:'' @ FingerprintLegacyMD5 (lp_fp p) (k_Blob k)) @ [nl]])"

fun format_loop :: "list_params \<Rightarrow> nat \<Rightarrow> agent_key list \<Rightarrow> string list \<Rightarrow> string list" where
  "format_loop p i [] lines = lines"
| "format_loop p i (k # ks) lines = format_loop p (Suc i) ks (lines @ format_key p i k)"

definition formatKeys :: "list_params \<Rightarrow> agent_key list \<Rightarrow> string" where
  "formatKeys p ks =
     (if length ks = 0 then ''upstream agent has no keys'' @ [nl]
      else concat (format_loop p 0 ks []))"

text \<open>\<open>ListUpstream\<close>: the text written, and the error. \<open>write\<close> is what \<open>io.WriteString\<close> returns.\<close>

definition ListUpstream ::
  "list_params \<Rightarrow> list_env \<Rightarrow> goerr option \<Rightarrow> (goerr option \<times> string option) \<times> list_call list" where
  "ListUpstream p env write =
     (case ListAgentKeys env of
        (Inl err, calls) \<Rightarrow> ((Some err, None), calls)
      | (Inr ks, calls) \<Rightarrow> ((write, Some (formatKeys p ks)), calls))"

section \<open>The connection\<close>

lemma ListAgentKeys_closes:
  "(CallDial \<in> set (snd (ListAgentKeys env)) \<and> le_dial env = None) = (CallClose \<in> set (snd (ListAgentKeys env)))"
  by (auto simp: ListAgentKeys_def listAgentKeys_body_def split_beta split: option.splits)

lemma ListAgentKeys_keys:
  "fst (ListAgentKeys env) = Inr ks \<Longrightarrow> le_list env = Inr ks"
  by (auto simp: ListAgentKeys_def listAgentKeys_body_def close_deferred_def split_beta errors_Join_None_iff
      split: option.splits sum.splits if_splits)

section \<open>The printed lines\<close>

text \<open>The entries of a key, each a type and a quoted value, and the lines of its block.\<close>

definition key_entries :: "list_params \<Rightarrow> agent_key \<Rightarrow> (string \<times> string) list" where
  "key_entries p k =
     (if k_Comment k = '''' then [] else [(''comment'', Quote (lp_pr p) (k_Comment k))]) @
     [(''sha256'', Quote (lp_pr p) (FingerprintSHA256 (lp_fp p) (k_Blob k))),
      (''md5'', Quote (lp_pr p) (''MD5:'' @ FingerprintLegacyMD5 (lp_fp p) (k_Blob k)))]"

definition key_title :: "list_params \<Rightarrow> nat \<Rightarrow> agent_key \<Rightarrow> string" where
  "key_title p n k = ''['' @ itoa n @ ''] '' @ k_Format k @
     (let bits = keyBits (lp_key p) (k_Blob k) in if bits > 0 then '' '' @ itoa bits else [])"

definition key_block :: "list_params \<Rightarrow> nat \<Rightarrow> agent_key \<Rightarrow> string list" where
  "key_block p n k = key_title p n k # map (\<lambda>(typ, q). ''  - '' @ typ @ '': '' @ q) (key_entries p k)"

definition listing_lines :: "list_params \<Rightarrow> agent_key list \<Rightarrow> string list" where
  "listing_lines p ks = concat (map (\<lambda>(i, k). key_block p (Suc i) k) (enumerate 0 ks))"

lemma format_key_block: "format_key p i k = map (\<lambda>l. l @ [nl]) (key_block p (Suc i) k)"
  by (simp add: format_key_def key_block_def key_title_def key_entries_def Let_def)

lemma format_loop_block:
  "format_loop p i ks lines =
     lines @ map (\<lambda>l. l @ [nl]) (concat (map (\<lambda>(i, k). key_block p (Suc i) k) (enumerate i ks)))"
  by (induction ks arbitrary: i lines) (simp_all add: format_key_block)

lemma split_terminated:
  "\<forall>l \<in> set ls. nl \<notin> set l \<Longrightarrow> split_on nl (concat (map (\<lambda>l. l @ [nl]) ls)) = ls @ [[]]"
  by (induction ls) (simp_all add: split_on_append_sep)

lemma itoa_no_newline: "nl \<notin> set (itoa n)"
proof -
  have "code (digit_char d) \<noteq> 10" if "d < 10" for d using that by (simp add: digit_char_def)
  then have "nl \<notin> digit_char ` {..<10}" by (force dest: arg_cong [of _ _ code])
  then show ?thesis using itoa_digits [of n] by blast
qed

lemma key_block_no_newline: "nl \<notin> set (k_Format k) \<Longrightarrow> l \<in> set (key_block p n k) \<Longrightarrow> nl \<notin> set l"
  by (auto simp: key_block_def key_title_def key_entries_def Let_def itoa_no_newline Quote_no_newline
      split: if_splits)

lemma enumerate_keys: "(i, k) \<in> set (enumerate n ks) \<Longrightarrow> k \<in> set ks"
  by (auto simp: in_set_enumerate_eq)

section \<open>Properties\<close>

text \<open>
  The formats that \<open>x/crypto/ssh\<close> documents for its fingerprints: the prefix and a text in base64,
  and pairs of hexadecimal digits with colons between them.
\<close>

definition documented_fingerprints :: "fingerprints \<Rightarrow> blob \<Rightarrow> bool" where
  "documented_fingerprints fp b \<longleftrightarrow>
     has_prefix ''SHA256:'' (FingerprintSHA256 fp b) \<and> list_all is_ascii (FingerprintSHA256 fp b) \<and>
     FingerprintLegacyMD5 fp b \<noteq> '''' \<and>
     (\<forall>c \<in> set (FingerprintLegacyMD5 fp b). in_range 48 58 (code c) \<or> in_range 97 102 (code c))"

lemma sha256_entry:
  assumes "has_prefix ''SHA256:'' (FingerprintSHA256 fp (k_Blob k))"
  shows "\<exists>m. NewMatcher ulower ''sha256'' (FingerprintSHA256 fp (k_Blob k)) = Inr m \<and> Matches fp m k"
proof -
  obtain b64 where b: "FingerprintSHA256 fp (k_Blob k) = ''SHA256:'' @ b64"
    using assms by (auto simp: has_prefix_iff)
  then show ?thesis using NewMatcher_sha256_prefixed [of ulower b64] by (simp add: Matches_sha256)
qed

lemma md5_entry:
  assumes "documented_fingerprints fp (k_Blob k)"
  shows "\<exists>m. NewMatcher ulower ''md5'' (''MD5:'' @ FingerprintLegacyMD5 fp (k_Blob k)) = Inr m \<and> Matches fp m k"
proof -
  let ?hex = "FingerprintLegacyMD5 fp (k_Blob k)"
  have hex: "in_range 48 58 (code c) \<or> in_range 97 102 (code c)" if "c \<in> set ?hex" for c
    using assms that by (auto simp: documented_fingerprints_def)
  have "list_all is_ascii ?hex" using hex by (fastforce simp: list_all_iff is_ascii_def in_range_def)
  moreover have "map ascii_lower ?hex = ?hex"
    using hex by (fastforce simp: ascii_lower_def Let_def in_range_def intro: map_idI)
  moreover have "\<not> has_prefix ''md5:'' ?hex"
  proof
    assume "has_prefix ''md5:'' ?hex"
    then have "CHR ''m'' \<in> set ?hex" by (auto simp: has_prefix_iff)
    from hex [OF this] show False by (simp add: in_range_def)
  qed
  ultimately show ?thesis using NewMatcher_md5_prefixed [of ?hex ulower] by (simp add: Matches_md5)
qed

lemma comment_entry:
  assumes "k_Comment k \<noteq> []"
  shows "\<exists>m. NewMatcher ulower ''comment'' (yaml_value (k_Comment k)) = Inr m \<and>
    (Matches fp m k \<longleftrightarrow> ValidString (k_Comment k))"
proof -
  have "yaml_value (k_Comment k) \<noteq> []" using assms by simp
  then show ?thesis
    using yaml_value_eq_iff [of "k_Comment k"]
    by (auto simp: NewMatcher_def Matches_def match_type_defs)
qed

lemma md5_ascii: "documented_fingerprints fp b \<Longrightarrow> list_all is_ascii (''MD5:'' @ FingerprintLegacyMD5 fp b)"
  by (fastforce simp: documented_fingerprints_def list_all_iff is_ascii_def in_range_def)

text \<open>
  Property C38. What \<open>-list\<close> prints can be pasted into a configuration: its lines are, key by
  key, a title and the key's entries and nothing else, so no comment of a key can add a line;
  and the YAML decoder reads every entry's value as one from which \<open>NewMatcher\<close> builds a
  selector, which selects the key it was printed for, with the one exception the code makes: a
  comment entry does so exactly when the comment is UTF-8, for \<open>strconv.Quote\<close> writes a byte that
  is not UTF-8 as \<open>\x\<close> and its digits, which in YAML stand for the code point of that number. (The
  key types are free of newlines; the fingerprints have the formats their library documents; the
  decoder reads double-quoted scalars as YAML specifies them.)
\<close>

theorem listing_can_be_pasted:
  assumes "ks \<noteq> []"
    and "\<forall>k \<in> set ks. nl \<notin> set (k_Format k) \<and> documented_fingerprints (lp_fp p) (k_Blob k)"
    and "documented_print (lp_pr p)" "documented_yaml yaml"
  shows "split_on nl (formatKeys p ks) = listing_lines p ks @ [[]] \<and>
    (\<forall>k \<in> set ks. \<forall>(typ, q) \<in> set (key_entries p k).
       \<exists>v m. yaml q = Some v \<and> NewMatcher ulower typ v = Inr m \<and>
         (Matches (lp_fp p) m k \<longleftrightarrow> typ \<noteq> ''comment'' \<or> ValidString (k_Comment k)))"
proof (intro conjI)
  have "formatKeys p ks = concat (map (\<lambda>l. l @ [nl]) (listing_lines p ks))"
    using assms(1) by (simp add: formatKeys_def format_loop_block listing_lines_def)
  moreover have "\<forall>l \<in> set (listing_lines p ks). nl \<notin> set l"
    using assms(2) by (auto simp: listing_lines_def dest!: enumerate_keys key_block_no_newline [rotated])
  ultimately show "split_on nl (formatKeys p ks) = listing_lines p ks @ [[]]"
    by (simp add: split_terminated)
  have read: "yaml (Quote (lp_pr p) s) = Some (yaml_value s)" for s
    using assms(3,4) yaml_Quote [of "lp_pr p" s] by (simp add: documented_yaml_def)
  show "\<forall>k \<in> set ks. \<forall>(typ, q) \<in> set (key_entries p k).
       \<exists>v m. yaml q = Some v \<and> NewMatcher ulower typ v = Inr m \<and>
         (Matches (lp_fp p) m k \<longleftrightarrow> typ \<noteq> ''comment'' \<or> ValidString (k_Comment k))"
  proof
    fix k assume k: "k \<in> set ks"
    then have doc: "documented_fingerprints (lp_fp p) (k_Blob k)" using assms(2) by blast
    have "yaml_value (''MD5:'' @ FingerprintLegacyMD5 (lp_fp p) (k_Blob k)) = ''MD5:'' @ FingerprintLegacyMD5 (lp_fp p) (k_Blob k)"
      by (rule yaml_value_valid [OF ValidString_ascii [OF md5_ascii [OF doc]]])
    moreover have "yaml_value (FingerprintSHA256 (lp_fp p) (k_Blob k)) = FingerprintSHA256 (lp_fp p) (k_Blob k)"
      using doc by (intro yaml_value_valid ValidString_ascii) (simp add: documented_fingerprints_def)
    ultimately show "\<forall>(typ, q) \<in> set (key_entries p k).
       \<exists>v m. yaml q = Some v \<and> NewMatcher ulower typ v = Inr m \<and>
         (Matches (lp_fp p) m k \<longleftrightarrow> typ \<noteq> ''comment'' \<or> ValidString (k_Comment k))"
      using md5_entry [OF doc, of ulower] sha256_entry [of "lp_fp p" k ulower] doc
        comment_entry [of k ulower "lp_fp p"]
      by (auto simp: key_entries_def read documented_fingerprints_def)
  qed
qed

definition sample_params :: list_params where
  "sample_params = \<lparr>lp_pr = yaml_plain, lp_fp = sample_fps, lp_key = (\<lambda>_. Some (PlainKey (Some (Ed25519 32))))\<rparr>"

text \<open>A key whose comment is one byte that is not UTF-8: the entry is read as U+00FF, two bytes.\<close>

definition odd_key :: agent_key where
  "odd_key = sample_key\<lparr>k_Comment := [CHR 0xFF]\<rparr>"

theorem listing_can_be_pasted_witness:
  "split_on nl (formatKeys sample_params [sample_key, odd_key]) = listing_lines sample_params [sample_key, odd_key] @ [[]] \<and>
    (\<exists>v m. yaml_double_quoted (Quote yaml_plain (k_Comment odd_key)) = Some v \<and>
       NewMatcher id ''comment'' v = Inr m \<and> \<not> Matches sample_fps m odd_key)"
proof -
  have "\<not> ValidString (k_Comment odd_key)"
    by (simp add: odd_key_def ValidString.simps)
  then show ?thesis
    using listing_can_be_pasted [of "[sample_key, odd_key]" sample_params yaml_double_quoted id]
    by (simp add: sample_params_def sample_fps_def sample_key_def odd_key_def documented_fingerprints_def
        documented_yaml_def documented_print_def has_prefix_def in_range_def is_ascii_def key_entries_def)
qed

end
