(* ===== verification/MainCLI.thy ===== *)
theory MainCLI
  imports Launchd ListKeys Config
begin

text \<open>
  \<open>main.go\<close>: which command a command line asks for, and the service commands over any manager
  of \<open>Service\<close>. Parsing the flags is Go's \<open>flag\<close>; the order in which the map of actions is
  visited is the parameter \<open>order\<close>, since Go leaves it open. The commands \<open>-list\<close>, \<open>-diag\<close> and
  the runtime are values here; \<open>ListKeys\<close>, \<open>Diag\<close> and \<open>Reload\<close> model what they do.
\<close>

section \<open>Choosing the command\<close>

record flags =
  fl_actions :: "string \<Rightarrow> bool"
  fl_foreground :: bool
  fl_config :: string
  fl_cache :: int
  fl_version :: bool

definition action_names :: "string list" where
  "action_names = [''-install'', ''-reinstall'', ''-uninstall'', ''-start'', ''-stop'', ''-restart'', ''-reload'',
     ''-status'', ''-diag'', ''-list'']"

definition minCacheSeconds :: int where "minCacheSeconds = 0"
definition maxCacheSeconds :: int where "maxCacheSeconds = 60"

definition validateCacheSeconds :: "int \<Rightarrow> goerr option" where
  "validateCacheSeconds seconds =
     (if seconds < minCacheSeconds \<or> seconds > maxCacheSeconds
      then Some (ErrText (''--cache must be between '' @ format_int minCacheSeconds @ '' and '' @
        format_int maxCacheSeconds @ '' seconds'')) else None)"

fun choose_action :: "(string \<Rightarrow> bool) \<Rightarrow> string list \<Rightarrow> string \<Rightarrow> goerr + string" where
  "choose_action actions [] chosen = Inr chosen"
| "choose_action actions (name # names) chosen =
     (if \<not> actions name then choose_action actions names chosen
      else if chosen \<noteq> '''' then Inl (ErrText (chosen @ '' and '' @ name @ '' cannot be combined''))
      else choose_action actions names name)"

datatype command =
    PrintVersion
  | ListUpstreamKeys string
  | Diagnose string int
  | RunApp string bool int
  | ManageService string string int

text \<open>The cache lifetime is passed on in nanoseconds; 60 s are far from the bound of a duration.\<close>

definition cli_run ::
  "host_env \<Rightarrow> string list \<Rightarrow> flags \<Rightarrow> host \<Rightarrow> ((goerr + command) \<times> string list) \<times> host" where
  "cli_run env order f h =
     (case validateCacheSeconds (fl_cache f) of
        Some err \<Rightarrow> ((Inl err, []), h)
      | None \<Rightarrow>
          if fl_version f then ((Inr PrintVersion, []), h)
          else case (if fl_config f = '''' then DefaultPath env else Inr (fl_config f)) of
            Inl err \<Rightarrow> ((Inl err, []), h)
          | Inr cfgPath \<Rightarrow>
         (case choose_action (fl_actions f) order '''' of
            Inl err \<Rightarrow> ((Inl err, []), h)
          | Inr chosen \<Rightarrow>
              if chosen = ''-list'' then ((Inr (ListUpstreamKeys cfgPath), []), h)
              else if chosen = ''-diag'' then ((Inr (Diagnose cfgPath (fl_cache f)), []), h)
              else if chosen = '''' then
                (let app = RunApp cfgPath (fl_foreground f) (fl_cache f * 1000000000)
                 in if fl_foreground f then
                      (case EnsureScaffold env cfgPath h of
                         (Inl err, h) \<Rightarrow> ((Inl err, []), h)
                       | (Inr created, h) \<Rightarrow>
                           ((Inr app, if created then [''created default config: '' @ cfgPath,
                               ''edit it, then send SIGHUP to reload''] else []), h))
                    else ((Inr app, []), h))
              else ((Inr (ManageService cfgPath chosen (fl_cache f)), []), h)))"

text \<open>\<open>listKeys\<close>: the error and the text written; \<open>list_of\<close> is what listing over a socket meets.\<close>

definition listKeys ::
  "(string \<Rightarrow> goerr + config) \<Rightarrow> list_params \<Rightarrow> (string \<Rightarrow> list_env) \<Rightarrow> goerr option \<Rightarrow> string \<Rightarrow>
   goerr option \<times> string option" where
  "listKeys load p list_of write cfgPath =
     (case load cfgPath of
        Inl err \<Rightarrow> (Some err, None)
      | Inr cfg \<Rightarrow> fst (ListUpstream p (list_of (c_Upstream cfg)) write))"

text \<open>\<open>main\<close>: the lines on standard error and the exit status.\<close>

definition exit_with :: "goerr option \<Rightarrow> string list \<times> nat" where
  "exit_with err = (case err of Some e \<Rightarrow> ([''error: '' @ err_text e], 1) | None \<Rightarrow> ([], 0))"

section \<open>The service commands\<close>

text \<open>
  \<open>checkInstalledBinary\<close>: its error, and whether it warns that the service runs another binary.
\<close>

definition checkInstalledBinary :: "host_env \<Rightarrow> host manager \<Rightarrow> host \<Rightarrow> (goerr option \<times> bool) \<times> host" where
  "checkInstalledBinary env mgr h =
     (case mg_Status mgr h of
        (Inl err, h) \<Rightarrow> ((Some err, False), h)
      | (Inr st, h) \<Rightarrow>
     (case CheckProgram env st h of
        (Some err, h) \<Rightarrow> ((Some err, False), h)
      | (None, h) \<Rightarrow>
          if \<not> st_Installed st \<or> st_Program st = '''' then ((None, False), h)
          else ((None, case CurrentExecutable env of
              Inr current \<Rightarrow> \<not> SamePath env (st_Program st) current | Inl _ \<Rightarrow> False), h)))"

definition printInstalled :: "string \<Rightarrow> 'h manager \<Rightarrow> string list" where
  "printInstalled cfgPath mgr =
     [''ssh-agent-proxy installed and started.'', ''  config: '' @ cfgPath, ''  logs:   '' @ mg_LogHint mgr, [],
      ''Edit the config, then run: ssh-agent-proxy -reload'']"

definition print_status :: "string \<Rightarrow> 'h manager \<Rightarrow> status \<Rightarrow> string list" where
  "print_status cfgPath mgr st =
     [''installed: '' @ (if st_Installed st then ''true'' else ''false''),
      ''running:   '' @ (if st_Running st then ''true'' else ''false'')] @
     (if st_PID st \<noteq> '''' then [''pid:       '' @ st_PID st] else []) @
     (if st_Program st \<noteq> '''' then [''binary:    '' @ st_Program st] else []) @
     [''config:    '' @ cfgPath, ''logs:      '' @ mg_LogHint mgr]"

text \<open>An operation, and the lines printed when it succeeded.\<close>

definition announce ::
  "(host \<Rightarrow> goerr option \<times> host) \<Rightarrow> string list \<Rightarrow> host \<Rightarrow> (goerr option \<times> string list) \<times> host" where
  "announce f msg h = (case f h of (Some err, h) \<Rightarrow> ((Some err, []), h) | (None, h) \<Rightarrow> ((None, msg), h))"

definition checked :: "host_env \<Rightarrow> host manager \<Rightarrow> (host \<Rightarrow> goerr option \<times> host) \<Rightarrow> host \<Rightarrow> goerr option \<times> host" where
  "checked env mgr f h =
     (case checkInstalledBinary env mgr h of
        ((Some err, _), h) \<Rightarrow> (Some err, h)
      | ((None, _), h) \<Rightarrow> f h)"

definition manageService ::
  "host_env \<Rightarrow> goerr + host manager \<Rightarrow> string \<Rightarrow> string \<Rightarrow> host \<Rightarrow> (goerr option \<times> string list) \<times> host" where
  "manageService env new cfgPath action h =
     (case new of
        Inl err \<Rightarrow> ((Some err, []), h)
      | Inr mgr \<Rightarrow>
          if action = ''-install'' then announce (mg_Install mgr) (printInstalled cfgPath mgr) h
          else if action = ''-reinstall'' then announce (reinstall mgr) (printInstalled cfgPath mgr) h
          else if action = ''-uninstall'' then announce (mg_Uninstall mgr) [''ssh-agent-proxy uninstalled.''] h
          else if action = ''-start''
          then announce (checked env mgr (mg_Start mgr)) [''ssh-agent-proxy started.''] h
          else if action = ''-stop'' then announce (mg_Stop mgr) [''ssh-agent-proxy stopped.''] h
          else if action = ''-restart''
          then announce (checked env mgr (mg_Restart mgr)) [''ssh-agent-proxy restarted.''] h
          else if action = ''-reload''
          then announce (mg_Reload mgr) [''ssh-agent-proxy reload requested.''] h
          else if action = ''-status'' then
            (case mg_Status mgr h of
               (Inl err, h) \<Rightarrow> ((Some err, []), h)
             | (Inr st, h) \<Rightarrow> ((None, print_status cfgPath mgr st), h))
          else ((None, []), h))"

section \<open>The choice\<close>

lemma choose_action_spec:
  assumes "distinct order" "'''' \<notin> set order"
  shows "(case choose_action actions order chosen of
      Inl _ \<Rightarrow> 1 < length (filter actions order) \<or> (chosen \<noteq> '''' \<and> filter actions order \<noteq> [])
    | Inr c \<Rightarrow> filter actions order = [] \<and> c = chosen \<or> chosen = '''' \<and> filter actions order = [c])"
  using assms
proof (induction actions order chosen rule: choose_action.induct)
  case (2 actions name names chosen)
  show ?case
  proof (cases "actions name \<and> chosen = ''''")
    case True
    with 2 show ?thesis by (auto split: sum.splits)
  next
    case False
    with 2 show ?thesis by (auto split: sum.splits)
  qed
qed simp

lemma length_filter_order:
  assumes "distinct order" "set order = set action_names"
  shows "length (filter actions order) = card {a \<in> set action_names. actions a}"
  using assms distinct_length_filter [of order actions] by (simp add: Int_def conj_commute)

lemma CheckProgram_missing:
  assumes "st_Installed st" "st_Program st \<noteq> ''''" "h_files h (st_Program st) = None"
  obtains e h' where "CheckProgram env st h = (Some e, h')" "h_files h' = h_files h"
    "h_commands h' = h_commands h" "h_signals h' = h_signals h"
proof -
  obtain s h' where s: "host_Stat env (st_Program st) h = (s, h')" by fastforce
  with host_StatD [OF s] assms have "s \<noteq> None" by (cases s) auto
  then obtain y where "s = Some y" by blast
  with s assms(1,2) have "\<exists>e. CheckProgram env st h = (Some e, h')" by (simp add: CheckProgram_def)
  with host_StatD [OF s] that show thesis by blast
qed

section \<open>Properties\<close>

lemma choose_action_chosen:
  assumes "distinct order" "set order = set action_names"
  shows "case choose_action P order '''' of
      Inl e \<Rightarrow> 1 < card {a \<in> set action_names. P a}
    | Inr c \<Rightarrow> {a \<in> set action_names. P a} = (if c = '''' then {} else {c})"
proof -
  have names: "'''' \<notin> set order" by (simp add: assms(2) action_names_def)
  have set: "set (filter P order) = {a \<in> set action_names. P a}" using assms(2) by auto
  note spec = choose_action_spec [OF assms(1) names, of P "''''"]
  show ?thesis
  proof (cases "choose_action P order ''''")
    case (Inl e)
    with spec length_filter_order [OF assms, of P] show ?thesis by simp
  next
    case (Inr c)
    with spec consider "filter P order = []" "c = ''''" | "filter P order = [c]" by auto
    then show ?thesis
    proof cases
      case 1
      with set Inr show ?thesis by (simp only: sum.case list.set simp_thms if_True)
    next
      case 2
      then have "c \<in> set order" by (metis filter_is_subset list.set_intros(1) subsetD)
      with names have "c \<noteq> ''''" by blast
      with 2 set Inr show ?thesis by (simp only: sum.case list.set simp_thms if_False)
    qed
  qed
qed

text \<open>
  One command at a time, whatever order the map of actions is visited in: with a
  cache lifetime in bounds and a configuration path, a command line with two or more actions
  fails and changes nothing on the machine; with one action that action is the command; with
  none the runtime starts, for the same configuration and a cache lifetime of at most one minute.
\<close>

theorem one_action_at_a_time:
  assumes "distinct order" "set order = set action_names"
    and "0 \<le> fl_cache f" "fl_cache f \<le> 60" "\<not> fl_version f" "fl_config f \<noteq> ''''"
    and "cli_run env order f h = ((r, out), h')"
  shows "let chosen = {a \<in> set action_names. fl_actions f a} in
    (1 < card chosen \<longrightarrow> (\<exists>e. r = Inl e) \<and> h' = h) \<and>
    (\<forall>a. chosen = {a} \<longrightarrow> h' = h \<and>
       r = Inr (if a = ''-list'' then ListUpstreamKeys (fl_config f)
                else if a = ''-diag'' then Diagnose (fl_config f) (fl_cache f)
                else ManageService (fl_config f) a (fl_cache f))) \<and>
    (chosen = {} \<longrightarrow> (\<exists>e. r = Inl e \<and> fl_foreground f) \<or>
       r = Inr (RunApp (fl_config f) (fl_foreground f) (fl_cache f * 1000000000)))"
proof -
  note chosen = choose_action_chosen [OF assms(1,2), of "fl_actions f"]
  define S where S: "S = {a \<in> set action_names. fl_actions f a}"
  note unfold = cli_run_def validateCacheSeconds_def minCacheSeconds_def maxCacheSeconds_def Let_def
  show ?thesis
  proof (cases "choose_action (fl_actions f) order ''''")
    case (Inl e)
    with chosen have "1 < card S" by (simp add: S)
    moreover from Inl assms(3-) have "r = Inl e" "h' = h" by (auto simp: unfold)
    ultimately show ?thesis unfolding Let_def S [symmetric] by auto
  next
    case (Inr c)
    with chosen have s: "S = (if c = '''' then {} else {c})" by (simp only: S sum.case)
    from Inr assms(3-) have "c = '''' \<longrightarrow> (\<exists>e. r = Inl e \<and> fl_foreground f) \<or>
        r = Inr (RunApp (fl_config f) (fl_foreground f) (fl_cache f * 1000000000))"
      by (auto simp: unfold split: if_splits prod.splits sum.splits)
    moreover from Inr assms(3-) have "c \<noteq> '''' \<longrightarrow> h' = h \<and>
        r = Inr (if c = ''-list'' then ListUpstreamKeys (fl_config f)
          else if c = ''-diag'' then Diagnose (fl_config f) (fl_cache f)
          else ManageService (fl_config f) c (fl_cache f))"
      by (auto simp: unfold split: if_splits)
    ultimately show ?thesis using s unfolding Let_def S [symmetric] by (auto split: if_splits)
  qed
qed

theorem one_action_at_a_time_witness:
  "cli_run quiet_host action_names \<lparr>fl_actions = (\<lambda>a. a = ''-stop''), fl_foreground = False,
     fl_config = ''/c'', fl_cache = 3, fl_version = False\<rparr> new_host =
   ((Inr (ManageService ''/c'' ''-stop'' 3), []), new_host)"
proof -
  let ?f = "\<lparr>fl_actions = (\<lambda>a. a = ''-stop''), fl_foreground = False, fl_config = ''/c'', fl_cache = 3,
    fl_version = False\<rparr>"
  obtain r out h' where run: "cli_run quiet_host action_names ?f new_host = ((r, out), h')"
    by (metis prod.collapse)
  then have "out = []" by (auto simp: cli_run_def split: option.splits sum.splits if_splits)
  moreover have "{a \<in> set action_names. fl_actions ?f a} = {''-stop''}"
    by (auto simp: action_names_def)
  moreover have "distinct action_names" by (simp add: action_names_def)
  ultimately show ?thesis using one_action_at_a_time [OF _ refl _ _ _ _ run] run by (simp add: Let_def)
qed

text \<open>
  Property C39. A start or restart that cannot work is stopped: when the installed service names
  a binary that no longer exists, \<open>-start\<close> and \<open>-restart\<close> of any manager fail after the status
  query, without running a command, touching a file, sending a signal or printing a success.
\<close>

theorem missing_binary_not_started:
  assumes "mg_Status mgr h = (Inr st, h1)" "st_Installed st" "st_Program st \<noteq> ''''"
    and "h_files h1 (st_Program st) = None" "action \<in> {''-start'', ''-restart''}"
    and "manageService env (Inr mgr) cfgPath action h = ((err, out), h')"
  shows "err \<noteq> None \<and> out = [] \<and> h_files h' = h_files h1 \<and> h_commands h' = h_commands h1 \<and>
    h_signals h' = h_signals h1"
proof -
  obtain e h2 where e: "CheckProgram env st h1 = (Some e, h2)" "h_files h2 = h_files h1"
    "h_commands h2 = h_commands h1" "h_signals h2 = h_signals h1"
    by (rule CheckProgram_missing [OF assms(2-4)])
  then have "checkInstalledBinary env mgr h = ((Some e, False), h2)"
    by (simp add: checkInstalledBinary_def assms(1))
  then have "checked env mgr op h = (Some e, h2)" for op by (simp add: checked_def)
  with assms(5,6) e show ?thesis by (auto simp: manageService_def announce_def)
qed

lemma failed_command_silent:
  "manageService env new cfgPath action h = ((Some err, out), h') \<Longrightarrow> out = []"
  by (auto simp: manageService_def announce_def split: sum.splits if_splits prod.splits option.splits)

lemma sample_status:
  "fst (sd_Status quiet_host sample_manager running_host) =
     Inr \<lparr>st_Installed = True, st_Running = True, st_PID = ''active'', st_Program = ''/p'', st_Config = []\<rparr>"
  by code_simp

theorem missing_binary_not_started_witness:
  "\<exists>err h'. manageService quiet_host (Inr (systemdManager quiet_host (\<lambda>_. True) sample_manager)) ''/c'' ''-start''
     running_host = ((Some err, []), h') \<and> h_signals h' = []"
proof -
  let ?mgr = "systemdManager quiet_host (\<lambda>_. True) sample_manager"
  obtain st h1 where s: "sd_Status quiet_host sample_manager running_host = (Inr st, h1)"
    "st_Installed st" "st_Program st = ''/p''"
    using sample_status by (cases "sd_Status quiet_host sample_manager running_host") auto
  have h1: "h_files h1 ''/p'' = None" "h_signals h1 = []"
    using sd_StatusD [OF s(1)] by (simp_all add: running_host_def new_host_def)
  obtain err out h' where run: "manageService quiet_host (Inr ?mgr) ''/c'' ''-start'' running_host = ((err, out), h')"
    by (metis prod.collapse)
  have "mg_Status ?mgr running_host = (Inr st, h1)" by (simp add: systemdManager_def s(1))
  from missing_binary_not_started [OF this s(2) _ _ _ run] s(3) h1 show ?thesis using run by auto
qed

end
