(* ===== verification/UpstreamConc.thy ===== *)
theory UpstreamConc
  imports StepSystems
begin

text \<open>
  The connection pointer of \<open>reconnectClient\<close> (\<open>internal/proxy/upstream.go\<close>) under any
  interleaving of requests, request watchdogs and \<open>Close\<close>. \<open>Upstream\<close> models what one request
  does on the wire; here a request is only the connections it uses. A step is an atomic
  operation on the pointer, a section under \<open>mu\<close> between two calls that leave the program, or the
  return of such a call (a dial, a request, the close of a connection). Connections are numbered
  in the order they are dialed.
\<close>

section \<open>State\<close>

text \<open>How a request uses the pointer: \<open>KList\<close> tries twice, \<open>KSign\<close> replaces but does not retry.\<close>

datatype request_kind = KList | KSign | KForward

text \<open>
  The critical section in progress: dialing for \<open>connection\<close> or for \<open>reconnect\<close> of a failed
  connection, a fresh connection not yet installed, and a connection about to be closed.
\<close>

datatype mu_pc =
    MConnDial request_kind nat
  | MConnDialed request_kind nat nat
  | MRecDial request_kind nat
  | MRecDialed request_kind nat nat
  | MRecClose request_kind nat nat
  | MShutClose nat

datatype up_pc =
    UIdle | UConnLoad request_kind nat | UConnLock request_kind nat | UInMu
  | UCall request_kind nat nat | URecLock request_kind nat
  | UDropCAS nat | UDropClose nat | UShutLock

record upstream_conc =
  up_current :: "nat option"
  up_closed :: bool
  up_canceled :: bool
  up_connected :: bool
  up_reconnects :: nat
  up_mu :: "(nat \<times> mu_pc) option"
  up_pc :: "nat \<Rightarrow> up_pc"
  up_open :: "nat set"
  up_next :: nat
  up_unanswered :: "nat set"

definition up_go :: "nat \<Rightarrow> up_pc \<Rightarrow> upstream_conc \<Rightarrow> upstream_conc" where
  "up_go g pc s = s\<lparr>up_pc := (up_pc s)(g := pc)\<rparr>"

definition up_hold :: "nat \<Rightarrow> mu_pc \<Rightarrow> upstream_conc \<Rightarrow> upstream_conc" where
  "up_hold g m s = up_go g UInMu (s\<lparr>up_mu := Some (g, m)\<rparr>)"

definition up_release :: "nat \<Rightarrow> up_pc \<Rightarrow> upstream_conc \<Rightarrow> upstream_conc" where
  "up_release g pc s = up_go g pc (s\<lparr>up_mu := None\<rparr>)"

definition up_close_conn :: "nat \<Rightarrow> upstream_conc \<Rightarrow> upstream_conc" where
  "up_close_conn c s = s\<lparr>up_open := up_open s - {c}\<rparr>"

section \<open>\<open>connection\<close>\<close>

text \<open>The load without the lock, and the section that starts with the lock.\<close>

definition conn_load :: "request_kind \<Rightarrow> nat \<Rightarrow> nat \<Rightarrow> upstream_conc \<Rightarrow> upstream_conc" where
  "conn_load k attempt g s =
     (case up_current s of Some c \<Rightarrow> up_go g (UCall k attempt c) s | None \<Rightarrow> up_go g (UConnLock k attempt) s)"

definition conn_locked :: "request_kind \<Rightarrow> nat \<Rightarrow> nat \<Rightarrow> upstream_conc \<Rightarrow> upstream_conc" where
  "conn_locked k attempt g s =
     (if up_closed s \<or> up_canceled s then up_go g UIdle s
      else case up_current s of
             Some c \<Rightarrow> up_go g (UCall k attempt c) s
           | None \<Rightarrow> up_hold g (MConnDial k attempt) s)"

text \<open>A dial that succeeds opens a fresh connection.\<close>

definition up_dialed :: "nat \<Rightarrow> (nat \<Rightarrow> mu_pc) \<Rightarrow> upstream_conc \<Rightarrow> upstream_conc" where
  "up_dialed g m s = s\<lparr>up_mu := Some (g, m (up_next s)), up_open := insert (up_next s) (up_open s),
     up_next := Suc (up_next s)\<rparr>"

definition conn_install :: "request_kind \<Rightarrow> nat \<Rightarrow> nat \<Rightarrow> nat \<Rightarrow> upstream_conc \<Rightarrow> upstream_conc" where
  "conn_install k attempt n g s =
     (if up_canceled s then up_release g UIdle (up_close_conn n s)
      else up_release g (UCall k attempt n)
        (s\<lparr>up_current := Some n, up_connected := True,
           up_reconnects := up_reconnects s + (if up_connected s then 1 else 0)\<rparr>))"

section \<open>\<open>reconnect\<close>\<close>

text \<open>Where a request goes on after \<open>reconnect\<close>: a list request asks for a connection again.\<close>

definition after_reconnect :: "request_kind \<Rightarrow> up_pc" where
  "after_reconnect k = (if k = KList then UConnLoad KList 2 else UIdle)"

text \<open>The return of a request on connection \<open>c\<close>; \<open>failed\<close>: with a failure of the transport.\<close>

definition call_returned :: "bool \<Rightarrow> request_kind \<Rightarrow> nat \<Rightarrow> nat \<Rightarrow> nat \<Rightarrow> upstream_conc \<Rightarrow> upstream_conc" where
  "call_returned failed k attempt c g s =
     (if failed \<and> c \<notin> up_unanswered s \<and> attempt = 1 \<and> k \<noteq> KForward
      then up_go g (URecLock k c) s else up_go g UIdle s)"

definition rec_locked :: "request_kind \<Rightarrow> nat \<Rightarrow> nat \<Rightarrow> upstream_conc \<Rightarrow> upstream_conc" where
  "rec_locked k failed g s =
     (if up_closed s \<or> up_canceled s then up_go g UIdle s
      else if up_current s \<noteq> Some failed \<and> up_current s \<noteq> None then up_go g (after_reconnect k) s
      else up_hold g (MRecDial k failed) s)"

definition rec_install :: "request_kind \<Rightarrow> nat \<Rightarrow> nat \<Rightarrow> nat \<Rightarrow> upstream_conc \<Rightarrow> upstream_conc" where
  "rec_install k failed n g s =
     (if up_canceled s then up_release g UIdle (up_close_conn n s)
      else (let old = up_current s;
                s = s\<lparr>up_current := Some n, up_connected := True, up_reconnects := Suc (up_reconnects s)\<rparr>
            in case old of None \<Rightarrow> up_release g (after_reconnect k) s
               | Some c \<Rightarrow> s\<lparr>up_mu := Some (g, MRecClose k failed c)\<rparr>))"

section \<open>\<open>drop\<close> and \<open>Close\<close>\<close>

definition drop_start :: "nat \<Rightarrow> nat \<Rightarrow> upstream_conc \<Rightarrow> upstream_conc" where
  "drop_start c g s =
     (if c \<in> up_unanswered s then s
      else up_go g (UDropCAS c) (s\<lparr>up_unanswered := insert c (up_unanswered s)\<rparr>))"

definition drop_swap :: "nat \<Rightarrow> nat \<Rightarrow> upstream_conc \<Rightarrow> upstream_conc" where
  "drop_swap c g s =
     (if up_current s = Some c then up_go g (UDropClose c) (s\<lparr>up_current := None\<rparr>) else up_go g UIdle s)"

definition close_locked :: "nat \<Rightarrow> upstream_conc \<Rightarrow> upstream_conc" where
  "close_locked g s =
     (if up_closed s then up_go g UIdle s
      else (let s = s\<lparr>up_closed := True\<rparr>
            in case up_current s of None \<Rightarrow> up_go g UIdle s | Some c \<Rightarrow> up_hold g (MShutClose c) s))"

section \<open>Interleavings\<close>

text \<open>
  \<open>up_begin\<close>: a goroutine asks for a connection. A watchdog may fire for any connection ever
  dialed, at any time; the context may end at any time.
\<close>

inductive upstream_step :: "upstream_conc \<Rightarrow> upstream_conc \<Rightarrow> bool" where
  up_begin: "up_pc s g = UIdle \<Longrightarrow> upstream_step s (up_go g (UConnLoad k 1) s)"
| up_load: "up_pc s g = UConnLoad k a \<Longrightarrow> upstream_step s (conn_load k a g s)"
| up_lock: "up_pc s g = UConnLock k a \<Longrightarrow> up_mu s = None \<Longrightarrow> upstream_step s (conn_locked k a g s)"
| up_dial: "up_mu s = Some (g, MConnDial k a) \<Longrightarrow> upstream_step s (up_dialed g (MConnDialed k a) s)"
| up_dial_fails: "up_mu s = Some (g, MConnDial k a) \<Longrightarrow> upstream_step s (up_release g UIdle s)"
| up_install: "up_mu s = Some (g, MConnDialed k a n) \<Longrightarrow> upstream_step s (conn_install k a n g s)"
| up_return: "up_pc s g = UCall k a c \<Longrightarrow> upstream_step s (call_returned failed k a c g s)"
| up_rec_lock: "up_pc s g = URecLock k f \<Longrightarrow> up_mu s = None \<Longrightarrow> upstream_step s (rec_locked k f g s)"
| up_rec_dial: "up_mu s = Some (g, MRecDial k f) \<Longrightarrow> upstream_step s (up_dialed g (MRecDialed k f) s)"
| up_rec_dial_fails: "up_mu s = Some (g, MRecDial k f) \<Longrightarrow> upstream_step s (up_release g UIdle s)"
| up_rec_install: "up_mu s = Some (g, MRecDialed k f n) \<Longrightarrow> upstream_step s (rec_install k f n g s)"
| up_rec_close: "up_mu s = Some (g, MRecClose k f c) \<Longrightarrow>
     upstream_step s (up_release g (after_reconnect k) (up_close_conn c s))"
| up_drop: "up_pc s g = UIdle \<Longrightarrow> c < up_next s \<Longrightarrow> upstream_step s (drop_start c g s)"
| up_drop_swap: "up_pc s g = UDropCAS c \<Longrightarrow> upstream_step s (drop_swap c g s)"
| up_drop_close: "up_pc s g = UDropClose c \<Longrightarrow> upstream_step s (up_go g UIdle (up_close_conn c s))"
| up_cancel: "upstream_step s (s\<lparr>up_canceled := True\<rparr>)"
| up_shut: "up_pc s g = UIdle \<Longrightarrow> upstream_step s (up_go g UShutLock (s\<lparr>up_canceled := True\<rparr>))"
| up_shut_lock: "up_pc s g = UShutLock \<Longrightarrow> up_mu s = None \<Longrightarrow> upstream_step s (close_locked g s)"
| up_shut_close: "up_mu s = Some (g, MShutClose c) \<Longrightarrow>
     upstream_step s (up_release g UIdle (up_close_conn c s))"

definition upstream_init :: "upstream_conc \<Rightarrow> bool" where
  "upstream_init s \<longleftrightarrow> up_current s = None \<and> \<not> up_closed s \<and> up_mu s = None \<and> up_pc s = (\<lambda>_. UIdle) \<and>
     up_open s = {} \<and> up_unanswered s = {}"

abbreviation upstream_reach :: "upstream_conc \<Rightarrow> bool" where
  "upstream_reach \<equiv> reach upstream_init upstream_step"

section \<open>The invariant\<close>

text \<open>The connection a critical section has still to install or to close.\<close>

fun mu_conn :: "mu_pc \<Rightarrow> nat option" where
  "mu_conn (MConnDialed k a n) = Some n"
| "mu_conn (MRecDialed k f n) = Some n"
| "mu_conn (MRecClose k f c) = Some c"
| "mu_conn (MShutClose c) = Some c"
| "mu_conn _ = None"

definition in_hand :: "upstream_conc \<Rightarrow> nat set" where
  "in_hand s = {c. \<exists>g m. up_mu s = Some (g, m) \<and> mu_conn m = Some c}"

definition dropping :: "upstream_conc \<Rightarrow> nat set" where
  "dropping s = {c. \<exists>g. up_pc s g = UDropClose c}"

text \<open>What the pointer can be while a section is in progress.\<close>

fun mu_ok :: "mu_pc \<Rightarrow> upstream_conc \<Rightarrow> bool" where
  "mu_ok (MConnDial k a) s \<longleftrightarrow> \<not> up_closed s \<and> up_current s = None"
| "mu_ok (MConnDialed k a n) s \<longleftrightarrow> \<not> up_closed s \<and> up_current s = None \<and> n \<notin> dropping s"
| "mu_ok (MRecDial k f) s \<longleftrightarrow> \<not> up_closed s \<and> up_current s \<in> {None, Some f}"
| "mu_ok (MRecDialed k f n) s \<longleftrightarrow>
     \<not> up_closed s \<and> up_current s \<in> {None, Some f} \<and> up_current s \<noteq> Some n \<and> n \<notin> dropping s"
| "mu_ok (MRecClose k f c) s \<longleftrightarrow> \<not> up_closed s \<and> c = f \<and> up_current s \<noteq> Some c"
| "mu_ok (MShutClose c) s \<longleftrightarrow> up_closed s \<and> up_current s \<in> {None, Some c}"

definition upstream_inv :: "upstream_conc \<Rightarrow> bool" where
  "upstream_inv s \<longleftrightarrow>
     up_open s \<subseteq> set_option (up_current s) \<union> in_hand s \<union> dropping s \<and>
     (\<forall>c \<in> set_option (up_current s) \<union> in_hand s \<union> dropping s \<union> up_open s. c < up_next s) \<and>
     (\<forall>g. up_pc s g = UInMu \<longleftrightarrow> (\<exists>m. up_mu s = Some (g, m))) \<and>
     (\<forall>g m. up_mu s = Some (g, m) \<longrightarrow> mu_ok m s) \<and>
     set_option (up_current s) \<inter> dropping s = {} \<and>
     (up_closed s \<longrightarrow> up_canceled s \<and> up_open s \<subseteq> in_hand s \<union> dropping s) \<and>
     (\<forall>g. up_pc s g = UShutLock \<longrightarrow> up_canceled s)"

lemma upstream_invI:
  assumes "up_open s \<subseteq> set_option (up_current s) \<union> in_hand s \<union> dropping s"
    and "\<And>c. c \<in> set_option (up_current s) \<union> in_hand s \<union> dropping s \<union> up_open s \<Longrightarrow> c < up_next s"
    and "\<And>g. up_pc s g = UInMu \<longleftrightarrow> (\<exists>m. up_mu s = Some (g, m))"
    and "\<And>g m. up_mu s = Some (g, m) \<Longrightarrow> mu_ok m s"
    and "set_option (up_current s) \<inter> dropping s = {}"
    and "up_closed s \<Longrightarrow> up_canceled s \<and> up_open s \<subseteq> in_hand s \<union> dropping s"
    and "\<And>g. up_pc s g = UShutLock \<Longrightarrow> up_canceled s"
  shows "upstream_inv s"
  unfolding upstream_inv_def using assms by blast

lemma up_go_sel [simp]:
  "up_pc (up_go g pc s) = (up_pc s)(g := pc)" "up_current (up_go g pc s) = up_current s"
  "up_closed (up_go g pc s) = up_closed s" "up_canceled (up_go g pc s) = up_canceled s"
  "up_mu (up_go g pc s) = up_mu s" "up_open (up_go g pc s) = up_open s" "up_next (up_go g pc s) = up_next s"
  "up_unanswered (up_go g pc s) = up_unanswered s"
  by (simp_all add: up_go_def)

lemmas up_ops = up_hold_def up_release_def up_close_conn_def up_dialed_def

lemma dropping_go:
  assumes "\<forall>c. up_pc s g \<noteq> UDropClose c"
  shows "dropping (up_go g pc s) = dropping s \<union> {c. pc = UDropClose c}"
proof (rule set_eqI)
  fix c
  have "(\<exists>h. up_pc (up_go g pc s) h = UDropClose c) \<longleftrightarrow> (\<exists>h. up_pc s h = UDropClose c) \<or> pc = UDropClose c"
    using assms by (auto simp: up_go_def)
  then show "c \<in> dropping (up_go g pc s) \<longleftrightarrow> c \<in> dropping s \<union> {c. pc = UDropClose c}"
    by (simp add: dropping_def)
qed

lemma up_close_conn_sel [simp]:
  "up_pc (up_close_conn c s) = up_pc s" "up_current (up_close_conn c s) = up_current s"
  "up_closed (up_close_conn c s) = up_closed s" "up_canceled (up_close_conn c s) = up_canceled s"
  "up_mu (up_close_conn c s) = up_mu s" "up_open (up_close_conn c s) = up_open s - {c}"
  "up_next (up_close_conn c s) = up_next s" "dropping (up_close_conn c s) = dropping s"
  by (simp_all add: up_close_conn_def dropping_def)

lemma in_hand_simps [simp]:
  "in_hand (up_go g pc s) = in_hand s" "in_hand (up_close_conn c s) = in_hand s"
  "in_hand (s\<lparr>up_mu := Some (g, m)\<rparr>) = {c. mu_conn m = Some c}" "in_hand (s\<lparr>up_mu := None\<rparr>) = {}"
  "in_hand (s\<lparr>up_current := cur\<rparr>) = in_hand s" "in_hand (s\<lparr>up_open := op\<rparr>) = in_hand s"
  by (simp_all add: in_hand_def up_close_conn_def)

lemma dropping_simps [simp]:
  "dropping (s\<lparr>up_mu := m\<rparr>) = dropping s" "dropping (s\<lparr>up_current := cur\<rparr>) = dropping s"
  "dropping (s\<lparr>up_open := op\<rparr>) = dropping s"
  by (simp_all add: dropping_def)

lemma mu_ok_cong:
  "up_closed t = up_closed s \<Longrightarrow> up_current t = up_current s \<Longrightarrow> dropping t = dropping s \<Longrightarrow> mu_ok m t = mu_ok m s"
  by (cases m) simp_all

lemma invD:
  assumes "upstream_inv s"
  shows "up_open s \<subseteq> set_option (up_current s) \<union> in_hand s \<union> dropping s"
    and "\<And>c. c \<in> set_option (up_current s) \<union> in_hand s \<union> dropping s \<union> up_open s \<Longrightarrow> c < up_next s"
    and "\<And>g. up_pc s g = UInMu \<longleftrightarrow> (\<exists>m. up_mu s = Some (g, m))"
    and "\<And>g m. up_mu s = Some (g, m) \<Longrightarrow> mu_ok m s"
    and "set_option (up_current s) \<inter> dropping s = {}"
    and "up_closed s \<Longrightarrow> up_canceled s \<and> up_open s \<subseteq> in_hand s \<union> dropping s"
    and "\<And>g. up_pc s g = UShutLock \<Longrightarrow> up_canceled s"
  using assms unfolding upstream_inv_def by blast+

text \<open>A goroutine outside the critical section moves, and nothing else changes.\<close>

lemma go_inv:
  assumes "upstream_inv s" "up_pc s g \<noteq> UInMu" "\<forall>c. up_pc s g \<noteq> UDropClose c" "pc \<noteq> UInMu" "\<forall>c. pc \<noteq> UDropClose c"
    and "pc = UShutLock \<longrightarrow> up_canceled s"
  shows "upstream_inv (up_go g pc s)"
proof -
  note i = invD [OF assms(1)]
  have d: "dropping (up_go g pc s) = dropping s" using dropping_go [OF assms(3)] assms(5) by simp
  have m: "mu_ok m (up_go g pc s) = mu_ok m s" for m by (rule mu_ok_cong) (simp_all add: d)
  show ?thesis
  proof (rule upstream_invI)
    show "up_pc (up_go g pc s) h = UInMu \<longleftrightarrow> (\<exists>m. up_mu (up_go g pc s) = Some (h, m))" for h
      using i(3) assms(2,4) by auto
    show "up_canceled (up_go g pc s)" if "up_pc (up_go g pc s) h = UShutLock" for h
      using that i(7) assms(6) by (auto split: if_splits)
  qed (use i in \<open>simp_all add: d m\<close>)
qed

text \<open>A goroutine enters the critical section; what it has in hand is the current connection.\<close>

lemma hold_inv:
  assumes "upstream_inv s" "up_mu s = None" "up_pc s g \<noteq> UInMu" "\<forall>c. up_pc s g \<noteq> UDropClose c"
    and "set_option (mu_conn m) \<subseteq> set_option (up_current s)" "mu_ok m s"
  shows "upstream_inv (up_hold g m s)"
proof -
  let ?t = "up_hold g m s"
  have d: "dropping ?t = dropping s" unfolding up_hold_def using assms(4) by (subst dropping_go) simp_all
  have h: "in_hand ?t = set_option (mu_conn m)" "in_hand s = {}" using assms(2) by (auto simp: in_hand_def up_ops)
  have m: "mu_ok m ?t = mu_ok m s" by (rule mu_ok_cong) (simp_all add: d, simp_all add: up_ops)
  have "up_open ?t = up_open s" "up_current ?t = up_current s" "up_next ?t = up_next s" "up_closed ?t = up_closed s"
    "up_canceled ?t = up_canceled s" "up_mu ?t = Some (g, m)" "up_pc ?t = (up_pc s)(g := UInMu)"
    by (simp_all add: up_ops)
  with assms show ?thesis unfolding upstream_inv_def by (simp only: d h) (auto simp: m)
qed

text \<open>A section ends: the connection in hand was installed, closed or handed on before.\<close>

lemma release_inv:
  assumes "up_mu s = Some (g, m)" "pc \<noteq> UInMu" "\<forall>c. pc \<noteq> UDropClose c"
    and "\<And>h. up_pc s h = UInMu \<longleftrightarrow> h = g"
    and "up_open s \<subseteq> set_option (up_current s) \<union> dropping s"
    and "\<forall>c \<in> set_option (up_current s) \<union> dropping s \<union> up_open s. c < up_next s"
    and "set_option (up_current s) \<inter> dropping s = {}"
    and "up_closed s \<longrightarrow> up_canceled s \<and> up_open s \<subseteq> dropping s"
    and "pc \<noteq> UShutLock" "\<forall>h. up_pc s h = UShutLock \<longrightarrow> up_canceled s"
  shows "upstream_inv (up_release g pc s)"
proof -
  let ?t = "up_release g pc s"
  have "up_pc s g = UInMu" using assms(4) by simp
  then have d: "dropping ?t = dropping s" unfolding up_release_def using assms(3) by (subst dropping_go) simp_all
  have h: "in_hand ?t = {}" by (simp add: up_ops)
  have "up_open ?t = up_open s" "up_current ?t = up_current s" "up_next ?t = up_next s" "up_closed ?t = up_closed s"
    "up_canceled ?t = up_canceled s" "up_mu ?t = None" "up_pc ?t = (up_pc s)(g := pc)"
    by (simp_all add: up_ops)
  with assms show ?thesis unfolding upstream_inv_def by (simp only: d h) auto
qed

text \<open>A section ends, seen from the state it started in.\<close>

lemma holder:
  assumes "upstream_inv s" "up_mu s = Some (g, m)"
  shows "up_pc s h = UInMu \<longleftrightarrow> h = g"
  using invD(3) [OF assms(1), of h] assms(2) by auto

lemma dialed_inv:
  assumes "upstream_inv s" "up_mu s = Some (g, m)" "mu_conn m = None"
    and "\<And>n. mu_conn (m' n) = Some n"
    and "\<And>n t. n \<notin> set_option (up_current t) \<Longrightarrow> n \<notin> dropping t \<Longrightarrow> mu_ok m t \<Longrightarrow> mu_ok (m' n) t"
  shows "upstream_inv (up_dialed g m' s)"
proof -
  let ?n = "up_next s" and ?t = "up_dialed g m' s"
  note i = invD [OF assms(1)]
  have h: "in_hand s = {}" "in_hand ?t = {?n}" using assms(2-4) by (auto simp: in_hand_def up_ops)
  have d: "dropping ?t = dropping s" by (simp add: dropping_def up_ops)
  have fresh: "?n \<notin> set_option (up_current s)" "?n \<notin> dropping s" using i(2) [of ?n] by auto
  have "mu_ok m s" by (rule i(4) [OF assms(2)])
  from assms(5) [OF fresh this] have "mu_ok (m' ?n) ?t" by (subst mu_ok_cong [of _ s]) (simp_all add: d, simp_all add: up_ops)
  moreover have "\<forall>c \<in> set_option (up_current s) \<union> dropping s \<union> up_open s. c < Suc ?n"
    using i(2) h by (auto intro: less_SucI)
  moreover have "up_pc ?t = up_pc s" "up_mu ?t = Some (g, m' ?n)" "up_open ?t = insert ?n (up_open s)"
    "up_next ?t = Suc ?n" "up_current ?t = up_current s" "up_closed ?t = up_closed s" "up_canceled ?t = up_canceled s"
    by (simp_all add: up_ops)
  moreover have "up_pc s h = UInMu \<longleftrightarrow> h = g" for h by (rule holder [OF assms(1,2)])
  ultimately show ?thesis using i(1,5,6,7) unfolding upstream_inv_def by (simp only: d h) auto
qed

lemma fail_inv:
  assumes "upstream_inv s" "up_mu s = Some (g, m)" "mu_conn m = None"
  shows "upstream_inv (up_release g UIdle s)"
proof -
  note i = invD [OF assms(1)]
  have "in_hand s = {}" using assms(2,3) by (simp add: in_hand_def)
  with i show ?thesis by (intro release_inv [OF assms(2)] holder [OF assms(1,2)]) auto
qed

text \<open>The connection in hand is closed and the section ends.\<close>

lemma close_in_hand_inv:
  assumes "upstream_inv s" "up_mu s = Some (g, m)" "mu_conn m = Some c" "pc \<noteq> UInMu" "\<forall>c. pc \<noteq> UDropClose c"
    "pc \<noteq> UShutLock"
  shows "upstream_inv (up_release g pc (up_close_conn c s))"
proof -
  note i = invD [OF assms(1)]
  have h: "in_hand s = {c}" using assms(2,3) by (auto simp: in_hand_def)
  show ?thesis
  proof (rule release_inv)
    show "up_open (up_close_conn c s) \<subseteq> set_option (up_current (up_close_conn c s)) \<union> dropping (up_close_conn c s)"
      using i(1) h by auto
    show "\<forall>d \<in> set_option (up_current (up_close_conn c s)) \<union> dropping (up_close_conn c s) \<union>
        up_open (up_close_conn c s). d < up_next (up_close_conn c s)" using i(2) by auto
    show "up_closed (up_close_conn c s) \<longrightarrow>
        up_canceled (up_close_conn c s) \<and> up_open (up_close_conn c s) \<subseteq> dropping (up_close_conn c s)"
      using i(6) h by auto
  qed (use assms(2,4-6) i(5,7) holder [OF assms(1,2)] in simp_all)
qed

lemma after_reconnect_simps [simp]:
  "after_reconnect k \<noteq> UInMu" "after_reconnect k \<noteq> UDropClose c" "after_reconnect k \<noteq> UShutLock"
  by (simp_all add: after_reconnect_def)

text \<open>A fresh connection replaces what the pointer may hold.\<close>

lemma install_inv:
  assumes "upstream_inv s" "up_mu s = Some (g, m)" "mu_conn m = Some n" "n \<notin> dropping s" "\<not> up_closed s"
    and "up_current s = None" "pc \<noteq> UInMu" "\<forall>c. pc \<noteq> UDropClose c" "pc \<noteq> UShutLock"
  shows "upstream_inv (up_release g pc (s\<lparr>up_current := Some n, up_connected := True, up_reconnects := r\<rparr>))"
proof -
  note i = invD [OF assms(1)]
  have h: "in_hand s = {n}" using assms(2,3) by (auto simp: in_hand_def)
  let ?t = "s\<lparr>up_current := Some n, up_connected := True, up_reconnects := r\<rparr>"
  have d: "dropping ?t = dropping s" by (simp add: dropping_def)
  show ?thesis
  proof (rule release_inv)
    show "up_open ?t \<subseteq> set_option (up_current ?t) \<union> dropping ?t" using i(1) h assms(6) by (simp add: d) 
    show "\<forall>c \<in> set_option (up_current ?t) \<union> dropping ?t \<union> up_open ?t. c < up_next ?t"
      using i(2) h by (simp add: d) 
  qed (use assms i(7) holder [OF assms(1,2)] in \<open>simp_all add: d\<close>)
qed

lemma conn_install_inv:
  assumes "upstream_inv s" "up_mu s = Some (g, MConnDialed k a n)"
  shows "upstream_inv (conn_install k a n g s)"
  using invD(4) [OF assms] close_in_hand_inv [OF assms, of n UIdle] install_inv [OF assms, of n]
  by (simp add: conn_install_def)

lemma rec_install_inv:
  assumes "upstream_inv s" "up_mu s = Some (g, MRecDialed k f n)"
  shows "upstream_inv (rec_install k f n g s)"
proof (cases "up_canceled s \<or> up_current s = None")
  case True
  with invD(4) [OF assms] close_in_hand_inv [OF assms, of n UIdle] install_inv [OF assms, of n "after_reconnect k"]
  show ?thesis by (auto simp: rec_install_def)
next
  case False
  note i = invD [OF assms(1)]
  have f: "up_current s = Some f" "f \<noteq> n" "n \<notin> dropping s" "\<not> up_closed s"
    using False i(4) [OF assms(2)] by auto
  let ?t = "s\<lparr>up_current := Some n, up_connected := True, up_reconnects := Suc (up_reconnects s),
    up_mu := Some (g, MRecClose k f f)\<rparr>"
  have t: "rec_install k f n g s = ?t" using False f by (simp add: rec_install_def)
  have h: "in_hand s = {n}" "in_hand ?t = {f}" using assms(2) by (auto simp: in_hand_def)
  have d: "dropping ?t = dropping s" by (simp add: dropping_def)
  have cur: "up_current ?t = Some n" "up_open ?t = up_open s" "up_next ?t = up_next s" "up_closed ?t = up_closed s"
    "up_canceled ?t = up_canceled s" "up_mu ?t = Some (g, MRecClose k f f)" "up_pc ?t = up_pc s" by simp_all
  show ?thesis unfolding t
  proof (rule upstream_invI)
    show "up_open ?t \<subseteq> set_option (up_current ?t) \<union> in_hand ?t \<union> dropping ?t"
      unfolding cur h d using i(1) f(1) h by auto
    show "c < up_next ?t" if "c \<in> set_option (up_current ?t) \<union> in_hand ?t \<union> dropping ?t \<union> up_open ?t" for c
      using that i(2) f(1) h unfolding cur h d by auto
    show "up_pc ?t h = UInMu \<longleftrightarrow> (\<exists>m. up_mu ?t = Some (h, m))" for h
      using holder [OF assms] unfolding cur by auto
    show "mu_ok m ?t" if "up_mu ?t = Some (h, m)" for h m
      using that f by auto
    show "set_option (up_current ?t) \<inter> dropping ?t = {}" unfolding cur d using f by simp
    show "up_closed ?t \<Longrightarrow> up_canceled ?t \<and> up_open ?t \<subseteq> in_hand ?t \<union> dropping ?t" using f by simp
    show "up_canceled ?t" if "up_pc ?t h = UShutLock" for h using that i(7) unfolding cur by simp
  qed
qed

lemma close_locked_inv:
  assumes "upstream_inv s" "up_pc s g = UShutLock" "up_mu s = None"
  shows "upstream_inv (close_locked g s)"
proof (cases "up_closed s")
  case True
  with assms show ?thesis by (simp add: close_locked_def go_inv)
next
  case False
  note i = invD [OF assms(1)]
  let ?s = "s\<lparr>up_closed := True\<rparr>"
  have h: "in_hand s = {}" "in_hand ?s = {}" using assms(3) by (simp_all add: in_hand_def)
  have d: "dropping ?s = dropping s" by (simp add: dropping_def)
  show ?thesis
  proof (cases "up_current s")
    case None
    have m: "up_mu ?s = None" "up_pc ?s = up_pc s" "up_canceled ?s" using assms(2,3) i(7) by simp_all
    have "upstream_inv ?s"
      by (rule upstream_invI; use i(1,2,3,5) None h(1) assms(3) m in \<open>simp add: h d\<close>)
    with False None assms(2) show ?thesis by (simp add: close_locked_def go_inv)
  next
    case (Some c)
    let ?t = "up_hold g (MShutClose c) ?s"
    have d': "dropping ?t = dropping s"
      unfolding up_hold_def using assms(2) by (subst dropping_go) (simp_all add: d dropping_def)
    have h': "in_hand ?t = {c}" by (auto simp: up_ops)
    have t: "up_current ?t = Some c" "up_open ?t = up_open s" "up_next ?t = up_next s" "up_closed ?t"
      "up_canceled ?t" "up_mu ?t = Some (g, MShutClose c)" "up_pc ?t = (up_pc s)(g := UInMu)"
      using Some assms(2) i(7) by (simp_all add: up_ops)
    have o: "up_open s \<subseteq> insert c (dropping s)" using i(1) Some h(1) by simp
    have "upstream_inv ?t"
    proof (rule upstream_invI)
      show "up_open ?t \<subseteq> set_option (up_current ?t) \<union> in_hand ?t \<union> dropping ?t" unfolding t h' d' using o by auto
      show "x < up_next ?t" if "x \<in> set_option (up_current ?t) \<union> in_hand ?t \<union> dropping ?t \<union> up_open ?t" for x
        using that i(2) Some unfolding t h' d' by auto
      show "up_pc ?t h = UInMu \<longleftrightarrow> (\<exists>m. up_mu ?t = Some (h, m))" for h
        using i(3) assms(3) unfolding t by auto
      show "mu_ok m ?t" if "up_mu ?t = Some (h, m)" for h m using that t by auto
      show "set_option (up_current ?t) \<inter> dropping ?t = {}" unfolding t d' using i(5) Some by simp
      show "up_canceled ?t \<and> up_open ?t \<subseteq> in_hand ?t \<union> dropping ?t" unfolding h' d' using o t by auto
      show "up_canceled ?t" by (rule t)
    qed
    with False Some show ?thesis by (simp add: close_locked_def)
  qed
qed

lemma drop_swap_inv:
  assumes "upstream_inv s" "up_pc s g = UDropCAS c"
  shows "upstream_inv (drop_swap c g s)"
proof (cases "up_current s = Some c")
  case True
  note i = invD [OF assms(1)]
  let ?t = "up_go g (UDropClose c) (s\<lparr>up_current := None\<rparr>)"
  have d: "dropping ?t = insert c (dropping s)" using assms(2) by (subst dropping_go) auto
  have m: "mu_ok m ?t" if "up_mu s = Some (h, m)" for h m
    using i(4) [OF that] True by (cases m) (auto simp: d)
  have "upstream_inv ?t"
  proof (rule upstream_invI)
    show "up_pc ?t h = UInMu \<longleftrightarrow> (\<exists>m. up_mu ?t = Some (h, m))" for h using i(3) [of g] i(3) [of h] assms(2) by auto
    show "up_canceled ?t" if "up_pc ?t h = UShutLock" for h using that i(7) by (auto split: if_splits)
    show "mu_ok mm ?t" if "up_mu ?t = Some (h, mm)" for h mm using m that by simp
  qed (use i(1,2,6) True in \<open>auto simp: d\<close>)
  with True show ?thesis by (simp add: drop_swap_def)
qed (use assms in \<open>simp add: drop_swap_def go_inv\<close>)

lemma drop_close_inv:
  assumes "upstream_inv s" "up_pc s g = UDropClose c"
  shows "upstream_inv (up_go g UIdle (up_close_conn c s))"
proof -
  note i = invD [OF assms(1)]
  let ?t = "up_go g UIdle (up_close_conn c s)"
  have keep: "x \<in> dropping ?t" if x: "x \<in> dropping s" "x \<noteq> c" for x
  proof -
    obtain h where "up_pc s h = UDropClose x" using x(1) by (auto simp: dropping_def)
    moreover from this have "h \<noteq> g" using assms(2) x(2) by auto
    ultimately have "up_pc ?t h = UDropClose x" by simp
    then show ?thesis by (auto simp only: dropping_def)
  qed
  have d: "dropping ?t \<subseteq> dropping s" "dropping s - {c} \<subseteq> dropping ?t"
    subgoal by (auto simp: dropping_def split: if_splits)
    subgoal using keep by blast
    done
  have m: "mu_ok m ?t" if "up_mu s = Some (h, m)" for h m
    using i(4) [OF that] d(1) by (cases m) auto
  show ?thesis
  proof (rule upstream_invI)
    show "up_open ?t \<subseteq> set_option (up_current ?t) \<union> in_hand ?t \<union> dropping ?t" using i(1) d(2) by auto
    show "x < up_next ?t" if "x \<in> set_option (up_current ?t) \<union> in_hand ?t \<union> dropping ?t \<union> up_open ?t" for x
      using that i(2) d(1) by auto
    show "up_pc ?t h = UInMu \<longleftrightarrow> (\<exists>m. up_mu ?t = Some (h, m))" for h using i(3) [of g] i(3) [of h] assms(2) by auto
    show "mu_ok mm ?t" if "up_mu ?t = Some (h, mm)" for h mm using m that by simp
    show "set_option (up_current ?t) \<inter> dropping ?t = {}" using i(5) d(1) by auto
    show "up_closed ?t \<Longrightarrow> up_canceled ?t \<and> up_open ?t \<subseteq> in_hand ?t \<union> dropping ?t" using i(6) d(2) by auto
    show "up_canceled ?t" if "up_pc ?t h = UShutLock" for h using that i(7) by (auto split: if_splits)
  qed
qed

lemma up_other_inv:
  assumes "upstream_inv s"
  shows "upstream_inv (s\<lparr>up_unanswered := u\<rparr>)" "upstream_inv (s\<lparr>up_canceled := True\<rparr>)"
proof -
  have d: "dropping (s\<lparr>up_unanswered := u\<rparr>) = dropping s" "dropping (s\<lparr>up_canceled := True\<rparr>) = dropping s"
    by (simp_all add: dropping_def)
  have h: "in_hand (s\<lparr>up_unanswered := u\<rparr>) = in_hand s" "in_hand (s\<lparr>up_canceled := True\<rparr>) = in_hand s"
    by (simp_all add: in_hand_def)
  have m: "mu_ok m (s\<lparr>up_unanswered := u\<rparr>) = mu_ok m s" "mu_ok m (s\<lparr>up_canceled := True\<rparr>) = mu_ok m s" for m
    by (rule mu_ok_cong; simp add: d)+
  note i = invD [OF assms]
  show "upstream_inv (s\<lparr>up_unanswered := u\<rparr>)" "upstream_inv (s\<lparr>up_canceled := True\<rparr>)"
    by (rule upstream_invI; use i in \<open>simp add: d h m\<close>)+
qed

lemma upstream_step_inv: "upstream_step s t \<Longrightarrow> upstream_inv s \<Longrightarrow> upstream_inv t"
proof (induction rule: upstream_step.induct)
  case (up_load s g k a)
  then show ?case by (simp add: conn_load_def go_inv split: option.split)
next
  case (up_lock s g k a)
  then show ?case by (simp add: conn_locked_def go_inv hold_inv split: option.split)
next
  case (up_return s g k a c failed)
  then show ?case by (simp add: call_returned_def go_inv)
next
  case (up_rec_lock s g k f)
  then show ?case by (auto simp: rec_locked_def intro!: go_inv hold_inv)
next
  case (up_dial s g k a)
  then show ?case by (intro dialed_inv [of s g "MConnDial k a"]) auto
next
  case (up_rec_dial s g k f)
  then show ?case by (intro dialed_inv [of s g "MRecDial k f"]) auto
next
  case (up_drop s g c)
  then show ?case using up_other_inv(1) [of s "insert c (up_unanswered s)"]
    by (simp add: drop_start_def go_inv)
next
  case (up_shut s g)
  then show ?case using up_other_inv(2) [of s] by (simp add: go_inv)
qed (auto intro: go_inv fail_inv conn_install_inv rec_install_inv close_in_hand_inv drop_swap_inv
    drop_close_inv close_locked_inv up_other_inv)

lemma upstream_reach_inv: "upstream_reach s \<Longrightarrow> upstream_inv s"
proof (erule reach_invariant)
  fix s assume "upstream_init s"
  then show "upstream_inv s"
    by (intro upstream_invI) (auto simp: upstream_init_def in_hand_def dropping_def)
qed (rule upstream_step_inv)

section \<open>What the pointer promises\<close>

text \<open>The connection a step closes, told from the state it starts in.\<close>

lemma step_closes:
  assumes "upstream_step s t" "c \<in> up_open s" "c \<notin> up_open t"
  shows "c \<in> in_hand s \<or> c \<in> dropping s"
  using assms
proof (induction rule: upstream_step.induct)
  case (up_drop_close s g c')
  then show ?case by (auto simp: dropping_def)
next
  case (up_shut_lock s g)
  then show ?case by (auto simp: close_locked_def up_ops Let_def split: option.splits if_splits)
qed (auto simp: in_hand_def conn_load_def conn_locked_def conn_install_def call_returned_def rec_locked_def
    rec_install_def drop_start_def drop_swap_def up_ops Let_def split: option.splits if_splits)

lemma current_closed_at_shutdown:
  assumes "upstream_inv s" "upstream_step s t" "up_current s = Some c" "c \<in> up_open s" "c \<notin> up_open t"
  shows "up_closed s"
proof -
  note i = invD [OF assms(1)]
  from step_closes [OF assms(2,4,5)] i(5) assms(3) obtain g m where m: "up_mu s = Some (g, m)" "mu_conn m = Some c"
    by (auto simp: in_hand_def)
  from i(4) [OF m(1)] m(2) assms(3) show ?thesis by (cases m) auto
qed

text \<open>
  Property C12. The upstream pointer under any interleaving of requests, watchdogs and shutdown.
  No connection is leaked: every open one is the current one, or in the hands of the one
  critical section, or being closed by the watchdog that dropped it; when neither is in
  progress at most the current one is open, and none after \<open>Close\<close>. \<open>reconnect\<close> closes the
  connection that failed, never a replacement another caller has installed: no step closes the
  current connection before \<open>Close\<close> has been called. A connection is only dialed when it is
  needed: while a dial is in progress the client is not closed, and the pointer is empty or
  still the connection that failed.
\<close>

theorem upstream_pointer_safe:
  assumes "upstream_reach s"
  shows "up_open s \<subseteq> set_option (up_current s) \<union> in_hand s \<union> dropping s \<and>
    (up_mu s = None \<and> dropping s = {} \<longrightarrow>
       up_open s \<subseteq> set_option (up_current s) \<and> (up_closed s \<longrightarrow> up_open s = {})) \<and>
    (\<forall>t c. upstream_step s t \<and> up_current s = Some c \<and> c \<in> up_open s \<and> c \<notin> up_open t \<longrightarrow> up_closed s) \<and>
    (\<forall>g k f c. up_mu s = Some (g, MRecClose k f c) \<longrightarrow> c = f \<and> up_current s \<noteq> Some c) \<and>
    (\<forall>g k a. up_mu s = Some (g, MConnDial k a) \<longrightarrow> \<not> up_closed s \<and> up_current s = None) \<and>
    (\<forall>g k f. up_mu s = Some (g, MRecDial k f) \<longrightarrow> \<not> up_closed s \<and> up_current s \<in> {None, Some f})"
proof -
  from assms have inv: "upstream_inv s" by (rule upstream_reach_inv)
  note i = invD [OF inv]
  have idle: "in_hand s = {}" if "up_mu s = None" using that by (simp add: in_hand_def)
  show ?thesis
    using i(1,6) idle i(4) [of _ "MRecClose _ _ _"] i(4) [of _ "MConnDial _ _"] i(4) [of _ "MRecDial _ _"]
      current_closed_at_shutdown [OF inv]
    by (intro conjI) (blast | fastforce)+
qed

text \<open>
  A run: goroutine 1 dials connection 0 and its request fails, and it holds the lock to replace
  it; the replacement is installed and connection 0 is about to be closed.
\<close>

definition upstream_start :: upstream_conc where
  "upstream_start = \<lparr>up_current = None, up_closed = False, up_canceled = False, up_connected = False,
     up_reconnects = 0, up_mu = None, up_pc = (\<lambda>_. UIdle), up_open = {}, up_next = 0, up_unanswered = {}\<rparr>"

definition replacing :: upstream_conc where
  "replacing = (let s1 = up_go 1 (UConnLoad KList 1) upstream_start; s2 = conn_load KList 1 1 s1;
     s3 = conn_locked KList 1 1 s2; s4 = up_dialed 1 (MConnDialed KList 1) s3; s5 = conn_install KList 1 0 1 s4;
     s6 = call_returned True KList 1 0 1 s5; s7 = rec_locked KList 0 1 s6;
     s8 = up_dialed 1 (MRecDialed KList 0) s7 in rec_install KList 0 1 1 s8)"

lemmas replacing_defs = upstream_start_def conn_load_def conn_locked_def up_ops conn_install_def call_returned_def
  rec_locked_def rec_install_def up_go_def Let_def

lemma replacing_value:
  "up_mu replacing = Some (1, MRecClose KList 0 0)" "up_current replacing = Some 1" "up_open replacing = {0, 1}"
  "up_reconnects replacing = 1"
  by (simp_all add: replacing_def replacing_defs insert_commute)

lemma replacing_reach: "upstream_reach replacing"
proof -
  define s0 where "s0 = upstream_start"
  define s1 where "s1 = up_go 1 (UConnLoad KList 1) s0"
  define s2 where "s2 = conn_load KList 1 1 s1"
  define s3 where "s3 = conn_locked KList 1 1 s2"
  define s4 where "s4 = up_dialed 1 (MConnDialed KList 1) s3"
  define s5 where "s5 = conn_install KList 1 0 1 s4"
  define s6 where "s6 = call_returned True KList 1 0 1 s5"
  define s7 where "s7 = rec_locked KList 0 1 s6"
  define s8 where "s8 = up_dialed 1 (MRecDialed KList 0) s7"
  have r: "replacing = rec_install KList 0 1 1 s8"
    by (simp only: replacing_def Let_def s0_def s1_def s2_def s3_def s4_def s5_def s6_def s7_def s8_def)
  note d = s0_def s1_def s2_def s3_def s4_def s5_def s6_def s7_def s8_def replacing_defs
  have "upstream_reach s0" by (rule reach_init) (simp add: upstream_init_def d)
  then have "upstream_reach s1" unfolding s1_def by (rule reach_step) (rule up_begin, simp add: d)
  then have "upstream_reach s2" unfolding s2_def by (rule reach_step) (rule up_load, simp add: d)
  then have "upstream_reach s3" unfolding s3_def by (rule reach_step) (rule up_lock; simp add: d)
  then have "upstream_reach s4" unfolding s4_def by (rule reach_step) (rule up_dial, simp add: d)
  then have "upstream_reach s5" unfolding s5_def by (rule reach_step) (rule up_install, simp add: d)
  then have "upstream_reach s6" unfolding s6_def by (rule reach_step) (rule up_return, simp add: d)
  then have "upstream_reach s7" unfolding s7_def by (rule reach_step) (rule up_rec_lock; simp add: d)
  then have "upstream_reach s8" unfolding s8_def by (rule reach_step) (rule up_rec_dial, simp add: d)
  then show ?thesis unfolding r by (rule reach_step) (rule up_rec_install, simp add: d)
qed

theorem upstream_pointer_safe_witness:
  "upstream_reach replacing \<and> up_current replacing = Some 1 \<and> up_open replacing = {0, 1} \<and>
   in_hand replacing = {0} \<and> up_open replacing \<subseteq> set_option (up_current replacing) \<union> in_hand replacing \<union> dropping replacing"
proof -
  have "in_hand replacing = {0}" by (auto simp: in_hand_def replacing_value)
  then show ?thesis using upstream_pointer_safe [OF replacing_reach] replacing_reach replacing_value by simp
qed

end
