(* ===== verification/Logging.thy ===== *)
theory Logging
  imports GoErr GoStrings
begin

text \<open>
  \<open>internal/logging/logging.go\<close> and what the program uses of \<open>log/slog\<close>: a logger has a minimum
  level and the attributes \<open>With\<close> added to it, and what it writes is a list of records (the JSON
  lines of the handler, before they are rendered). The package \<open>log\<close>, through which \<open>x/crypto\<close>
  reports its errors, is a process-wide writer that \<open>Setup\<close> redirects to a logger.
\<close>

section \<open>\<open>log/slog\<close>\<close>

datatype log_level = LevelDebug | LevelInfo | LevelWarn | LevelError

fun level_value :: "log_level \<Rightarrow> int" where
  "level_value LevelDebug = -4"
| "level_value LevelInfo = 0"
| "level_value LevelWarn = 4"
| "level_value LevelError = 8"

datatype log_value = LogStr string | LogInt int | LogErr goerr

type_synonym log_attrs = "(string \<times> log_value) list"

record log_record =
  lr_level :: log_level
  lr_msg :: string
  lr_attrs :: log_attrs

record logger =
  lg_level :: log_level
  lg_attrs :: log_attrs

definition log_Enabled :: "log_level \<Rightarrow> logger \<Rightarrow> bool" where
  "log_Enabled l lg \<longleftrightarrow> level_value (lg_level lg) \<le> level_value l"

definition log_With :: "log_attrs \<Rightarrow> logger \<Rightarrow> logger" where
  "log_With attrs lg = lg\<lparr>lg_attrs := lg_attrs lg @ attrs\<rparr>"

definition log_at :: "log_level \<Rightarrow> string \<Rightarrow> log_attrs \<Rightarrow> logger \<Rightarrow> log_record list \<Rightarrow> log_record list" where
  "log_at l msg attrs lg out =
     (if log_Enabled l lg then out @ [\<lparr>lr_level = l, lr_msg = msg, lr_attrs = lg_attrs lg @ attrs\<rparr>] else out)"

abbreviation "log_Debug \<equiv> log_at LevelDebug"
abbreviation "log_Info \<equiv> log_at LevelInfo"
abbreviation "log_Warn \<equiv> log_at LevelWarn"

section \<open>\<open>logging.go\<close>\<close>

definition newLogger :: "bool \<Rightarrow> logger" where
  "newLogger debug =
     (let level = LevelInfo; level = (if debug then LevelDebug else level)
      in \<lparr>lg_level = level, lg_attrs = []\<rparr>)"

text \<open>\<open>redirectOutput.Write\<close>: the number of bytes taken, no error, and the record written.\<close>

definition redirectOutput_Write ::
  "logger \<Rightarrow> string \<Rightarrow> log_record list \<Rightarrow> (nat \<times> goerr option) \<times> log_record list" where
  "redirectOutput_Write lg p out =
     (let line = trim_space p; out = log_Warn line [] lg out in ((length p, None), out))"

text \<open>
  The process: standard output, and the writer of the package \<open>log\<close> with its flags; before
  \<open>Setup\<close> that package writes to standard error with a time stamp (flags 3).
\<close>

record process_log =
  pl_stdout :: "log_record list"
  pl_writer :: "logger option"
  pl_flags :: nat
  pl_stderr :: "string list"

definition process_start :: process_log where
  "process_start = \<lparr>pl_stdout = [], pl_writer = None, pl_flags = 3, pl_stderr = []\<rparr>"

definition Setup :: "bool \<Rightarrow> process_log \<Rightarrow> logger \<times> process_log" where
  "Setup debug p =
     (let lg = newLogger debug; p = p\<lparr>pl_writer := Some lg\<rparr>; p = p\<lparr>pl_flags := 0\<rparr> in (lg, p))"

text \<open>
  \<open>log.Printf\<close> with an already formatted message: the header the flags ask for (\<open>stamp\<close>), the
  message, and a newline if it has none.
\<close>

definition legacy_line :: "nat \<Rightarrow> string \<Rightarrow> string \<Rightarrow> string" where
  "legacy_line flags stamp m =
     (if flags = 0 then [] else stamp) @ m @ (if m = [] \<or> last m \<noteq> CHR 0x0A then [CHR 0x0A] else [])"

definition legacy_Print :: "string \<Rightarrow> string \<Rightarrow> process_log \<Rightarrow> process_log" where
  "legacy_Print stamp m p =
     (let line = legacy_line (pl_flags p) stamp m
      in case pl_writer p of
           None \<Rightarrow> p\<lparr>pl_stderr := pl_stderr p @ [line]\<rparr>
         | Some lg \<Rightarrow> p\<lparr>pl_stdout := snd (redirectOutput_Write lg line (pl_stdout p))\<rparr>)"

section \<open>What is written\<close>

lemmas logger_defs = log_Enabled_def log_With_def log_at_def newLogger_def Let_def

lemma log_With_sel [simp]:
  "lg_attrs (log_With attrs lg) = lg_attrs lg @ attrs" "lg_level (log_With attrs lg) = lg_level lg"
  by (simp_all add: log_With_def)

lemma newLogger_attrs [simp]: "lg_attrs (newLogger debug) = []"
  by (simp add: newLogger_def Let_def)

lemma newLogger_enabled [simp]: "log_Enabled l (newLogger debug) \<longleftrightarrow> l \<noteq> LevelDebug \<or> debug"
  by (cases l) (auto simp: logger_defs)

lemma log_Enabled_With [simp]: "log_Enabled l (log_With attrs lg) = log_Enabled l lg"
  by (simp add: log_Enabled_def)

lemma set_log_at: "r \<in> set (log_at l msg attrs lg out) \<Longrightarrow>
   r \<in> set out \<or> (lr_level r = l \<and> lr_msg r = msg \<and> lr_attrs r = lg_attrs lg @ attrs)"
  by (auto simp: log_at_def split: if_splits)

text \<open>
  After \<open>Setup\<close> a message of the package \<open>log\<close> is one warning with the message's text, at every
  log level; nothing of it reaches standard error.
\<close>

lemma legacy_redirected:
  assumes "snd (Setup debug p) = q"
  shows "legacy_Print stamp m q =
    q\<lparr>pl_stdout := pl_stdout p @
        [\<lparr>lr_level = LevelWarn, lr_msg = trim_space (legacy_line 0 stamp m), lr_attrs = []\<rparr>]\<rparr>"
proof -
  have "log_Enabled LevelWarn (newLogger debug)" "lg_attrs (newLogger debug) = []"
    by simp_all
  with assms show ?thesis
    by (auto simp: Setup_def legacy_Print_def redirectOutput_Write_def log_at_def Let_def)
qed

end
