(* ===== verification/UpstreamLog.thy ===== *)
theory UpstreamLog
  imports Upstream ListKeys Logging
begin

text \<open>
  The debug records of the calls in \<open>internal/proxy/upstream.go\<close>: \<open>beginTrackedUpstreamCall\<close>,
  \<open>finish\<close> and what each operation passes to them. \<open>Upstream\<close> models the calls themselves. A
  clock reading is a count of nanoseconds.
\<close>

section \<open>A tracked call\<close>

record tracked_call =
  tc_started :: int
  tc_attrs :: log_attrs
  tc_enabled :: bool

definition beginTrackedUpstreamCall :: "logger \<Rightarrow> int \<Rightarrow> string \<Rightarrow> log_attrs \<Rightarrow> tracked_call" where
  "beginTrackedUpstreamCall lg now operation attrs =
     (if \<not> log_Enabled LevelDebug lg then \<lparr>tc_started = 0, tc_attrs = [], tc_enabled = False\<rparr>
      else \<lparr>tc_started = now, tc_attrs = [(''operation'', LogStr operation)] @ attrs, tc_enabled = True\<rparr>)"

definition finish_call ::
  "logger \<Rightarrow> int \<Rightarrow> tracked_call \<Rightarrow> goerr option \<Rightarrow> log_attrs \<Rightarrow> proxy_telemetry option \<times> log_record list \<Rightarrow>
   proxy_telemetry option \<times> log_record list" where
  "finish_call lg now c err attrs = (\<lambda>(tel, out).
     let tel = map_option (upstreamCall (err \<noteq> None)) tel
     in if \<not> tc_enabled c then (tel, out)
        else let resultAttrs = tc_attrs c;
                 resultAttrs = resultAttrs @ attrs;
                 resultAttrs = resultAttrs @ [(''duration'', LogStr (Duration_String (now - tc_started c)))];
                 resultAttrs = (case err of None \<Rightarrow> resultAttrs | Some e \<Rightarrow> resultAttrs @ [(''err'', LogErr e)])
             in (tel, log_Debug ''upstream call'' resultAttrs lg out))"

section \<open>What each operation passes\<close>

text \<open>The value a call returned with its error; an operation without a value returns \<open>NoValue\<close>.\<close>

datatype call_value = NoValue | KeysValue "agent_key list" | SigValue string | SignersValue "blob list" | BytesValue string

fun operation_of :: "request \<Rightarrow> string" where
  "operation_of ReqList = ''list''"
| "operation_of (ReqSign k d) = ''sign''"
| "operation_of (ReqSignWithFlags k d f) = ''sign-with-flags''"
| "operation_of (ReqAdd key) = ''add''"
| "operation_of (ReqRemove k) = ''remove''"
| "operation_of ReqRemoveAll = ''remove-all''"
| "operation_of (ReqLock p) = ''lock''"
| "operation_of (ReqUnlock p) = ''unlock''"
| "operation_of ReqSigners = ''signers''"
| "operation_of (ReqExtension s b) = ''extension''"

fun begin_attrs :: "fingerprints \<Rightarrow> nat \<Rightarrow> request \<Rightarrow> log_attrs" where
  "begin_attrs fp n ReqList = [(''attempt'', LogInt (int n))]"
| "begin_attrs fp n (ReqSign k d) =
     [(''attempt'', LogInt 1), (''fingerprint'', LogStr (FingerprintSHA256 fp k)), (''payload_bytes'', LogInt (int (length d)))]"
| "begin_attrs fp n (ReqSignWithFlags k d f) =
     [(''attempt'', LogInt 1), (''fingerprint'', LogStr (FingerprintSHA256 fp k)), (''flags'', LogInt (uint f)),
      (''payload_bytes'', LogInt (int (length d)))]"
| "begin_attrs fp n (ReqRemove k) = [(''fingerprint'', LogStr (FingerprintSHA256 fp k))]"
| "begin_attrs fp n (ReqExtension s b) = [(''extension'', LogStr s), (''payload_bytes'', LogInt (int (length b)))]"
| "begin_attrs fp n _ = []"

fun value_attrs :: "request \<Rightarrow> call_value \<Rightarrow> log_attrs" where
  "value_attrs ReqList (KeysValue ks) = [(''keys'', LogInt (int (length ks)))]"
| "value_attrs ReqSigners (SignersValue bs) = [(''signers'', LogInt (int (length bs)))]"
| "value_attrs (ReqExtension s b) (BytesValue r) = [(''result_bytes'', LogInt (int (length r)))]"
| "value_attrs _ _ = []"

text \<open>The loop of \<open>listAttempt\<close> over the keys, from index \<open>i\<close> of \<open>n\<close>.\<close>

fun identity_records :: "list_params \<Rightarrow> logger \<Rightarrow> nat \<Rightarrow> nat \<Rightarrow> agent_key list \<Rightarrow> log_record list \<Rightarrow> log_record list" where
  "identity_records p lg i n [] out = out"
| "identity_records p lg i n (k # ks) out =
     identity_records p lg (Suc i) n ks
       (log_Debug (''identity '' @ itoa (i + 1) @ ''/'' @ itoa n)
          [(''fingerprint'', LogStr (FingerprintSHA256 (lp_fp p) (k_Blob k))), (''comment'', LogStr (k_Comment k)),
           (''algorithm'', LogStr (k_Format k)), (''key_size'', LogInt (int (keyBits (lp_key p) (k_Blob k))))] lg out)"

text \<open>A call from its begin at \<open>t0\<close> to its finish at \<open>t1\<close>; \<open>n\<close> is the attempt of a list request.\<close>

definition logged_call ::
  "list_params \<Rightarrow> logger \<Rightarrow> int \<Rightarrow> int \<Rightarrow> nat \<Rightarrow> request \<Rightarrow> goerr option \<Rightarrow> call_value \<Rightarrow>
   proxy_telemetry option \<times> log_record list \<Rightarrow> proxy_telemetry option \<times> log_record list" where
  "logged_call p lg t0 t1 n q err v s =
     (let call = beginTrackedUpstreamCall lg t0 (operation_of q) (begin_attrs (lp_fp p) n q);
          (tel, out) = finish_call lg t1 call err (value_attrs q v) s
      in case (q, v) of
           (ReqList, KeysValue ks) \<Rightarrow>
             if err = None \<and> log_Enabled LevelDebug lg
             then (tel, identity_records p lg 0 (length ks) ks out) else (tel, out)
         | _ \<Rightarrow> (tel, out))"

text \<open>Dialing and closing are tracked calls as well.\<close>

definition logged_dial ::
  "logger \<Rightarrow> int \<Rightarrow> int \<Rightarrow> nat \<Rightarrow> string \<Rightarrow> goerr option \<Rightarrow>
   proxy_telemetry option \<times> log_record list \<Rightarrow> proxy_telemetry option \<times> log_record list" where
  "logged_dial lg t0 t1 attempt_number upstream err s =
     (let call = beginTrackedUpstreamCall lg t0 ''connect''
            [(''attempt'', LogInt (int attempt_number)), (''upstream'', LogStr upstream)]
      in finish_call lg t1 call err [] s)"

definition logged_close ::
  "logger \<Rightarrow> int \<Rightarrow> int \<Rightarrow> string \<Rightarrow> goerr option \<Rightarrow>
   proxy_telemetry option \<times> log_record list \<Rightarrow> proxy_telemetry option \<times> log_record list" where
  "logged_close lg t0 t1 which err s =
     finish_call lg t1 (beginTrackedUpstreamCall lg t0 ''close'' [(''connection'', LogStr which)]) err [] s"

section \<open>The counters, and what the records reveal\<close>

text \<open>The counters a call moves are those \<open>Upstream\<close> counts, whatever is logged.\<close>

lemma finish_call_tel: "fst (finish_call lg t c err attrs s) = map_option (upstreamCall (err \<noteq> None)) (fst s)"
  by (cases s) (simp add: finish_call_def Let_def)

lemma logged_call_tel:
  "fst (logged_call p lg t0 t1 n q err v (w_tel (rc_world r), out)) = w_tel (rc_world (call_finish err r))"
  using finish_call_tel [of lg t1 "beginTrackedUpstreamCall lg t0 (operation_of q) (begin_attrs (lp_fp p) n q)" err
      "value_attrs q v" "(w_tel (rc_world r), out)"]
  by (auto simp: logged_call_def Let_def call_finish_def rc_tel_def split: prod.splits request.split call_value.split)

text \<open>
  Two requests that differ only in what must not be revealed: the data to sign, a private key to
  add, a passphrase, the contents of an extension, of which at most the length may show. Two
  values that differ only in a signature or in the bytes of a result.
\<close>

fun same_request :: "request \<Rightarrow> request \<Rightarrow> bool" where
  "same_request (ReqSign k d) (ReqSign k' d') \<longleftrightarrow> k = k' \<and> length d = length d'"
| "same_request (ReqSignWithFlags k d f) (ReqSignWithFlags k' d' f') \<longleftrightarrow> k = k' \<and> f = f' \<and> length d = length d'"
| "same_request (ReqAdd key) (ReqAdd key') \<longleftrightarrow> True"
| "same_request (ReqLock pw) (ReqLock pw') \<longleftrightarrow> True"
| "same_request (ReqUnlock pw) (ReqUnlock pw') \<longleftrightarrow> True"
| "same_request (ReqExtension s b) (ReqExtension s' b') \<longleftrightarrow> s = s' \<and> length b = length b'"
| "same_request q q' \<longleftrightarrow> q = q'"

fun same_value :: "call_value \<Rightarrow> call_value \<Rightarrow> bool" where
  "same_value (SigValue s) (SigValue s') \<longleftrightarrow> True"
| "same_value (BytesValue r) (BytesValue r') \<longleftrightarrow> length r = length r'"
| "same_value (SignersValue bs) (SignersValue bs') \<longleftrightarrow> length bs = length bs'"
| "same_value v v' \<longleftrightarrow> v = v'"

lemma same_request_attrs:
  "same_request q q' \<Longrightarrow> operation_of q = operation_of q' \<and> begin_attrs fp n q = begin_attrs fp n q' \<and>
     (q = ReqList \<longleftrightarrow> q' = ReqList)"
  by (induction q q' rule: same_request.induct) auto

lemma same_request_value_attrs: "same_request q q' \<Longrightarrow> value_attrs q v = value_attrs q' v"
  by (induction q q' rule: same_request.induct) (cases v; simp)+

lemma same_value_value_attrs: "same_value v v' \<Longrightarrow> value_attrs q v = value_attrs q v'"
  by (induction v v' rule: same_value.induct) (cases q; simp)+

lemma same_value_attrs: "same_request q q' \<Longrightarrow> same_value v v' \<Longrightarrow> value_attrs q v = value_attrs q' v'"
  using same_request_value_attrs same_value_value_attrs by metis

lemma logged_call_plain:
  "q \<noteq> ReqList \<or> (\<forall>ks. v \<noteq> KeysValue ks) \<Longrightarrow> logged_call p lg t0 t1 n q err v s =
     finish_call lg t1 (beginTrackedUpstreamCall lg t0 (operation_of q) (begin_attrs (lp_fp p) n q)) err (value_attrs q v) s"
  by (cases q; cases v) (simp_all add: logged_call_def Let_def split: prod.split)

text \<open>
  Property C19. The log does not reveal secrets. At any log level the records of a call to the
  upstream agent, and the counters it moves, are a function of the operation, the key it names,
  the lengths of its payload and of its result, and its error: two calls that agree on these are
  logged alike, whatever the data to sign, the private key, the passphrase, the extension's
  contents or the signature are. And without debug a call writes no record at all.
\<close>

theorem upstream_log_hides_secrets:
  assumes "same_request q q'" "same_value v v'"
  shows "logged_call p lg t0 t1 n q err v s = logged_call p lg t0 t1 n q' err v' s \<and>
    snd (logged_call p (newLogger False) t0 t1 n q err v s) = snd s"
proof
  have list: "q = ReqList \<Longrightarrow> q' = ReqList \<and> v = v' \<or> (\<forall>ks. v \<noteq> KeysValue ks) \<and> (\<forall>ks. v' \<noteq> KeysValue ks)"
    using same_request_attrs [OF assms(1)] assms(2) by (cases v; cases v') auto
  note attrs = same_request_attrs [OF assms(1), of "lp_fp p" n] same_value_attrs [OF assms]
  show "logged_call p lg t0 t1 n q err v s = logged_call p lg t0 t1 n q' err v' s"
  proof (cases "q = ReqList \<and> v = v'")
    case True
    with list attrs show ?thesis by simp
  next
    case False
    with list attrs have plain: "q \<noteq> ReqList \<or> (\<forall>ks. v \<noteq> KeysValue ks)"
      "q' \<noteq> ReqList \<or> (\<forall>ks. v' \<noteq> KeysValue ks)" by auto
    show ?thesis by (simp add: logged_call_plain [OF plain(1)] logged_call_plain [OF plain(2)] attrs)
  qed
  show "snd (logged_call p (newLogger False) t0 t1 n q err v s) = snd s"
    by (cases s) (auto simp: logged_call_def beginTrackedUpstreamCall_def finish_call_def Let_def
        split: request.split call_value.split)
qed

definition log_params :: list_params where
  "log_params = \<lparr>lp_pr = (\<lambda>_. True), lp_fp = \<lparr>FingerprintLegacyMD5 = (\<lambda>b. b), FingerprintSHA256 = (\<lambda>b. b)\<rparr>, lp_key = (\<lambda>_. None)\<rparr>"

theorem upstream_log_hides_secrets_witness:
  "logged_call log_params (newLogger True) 0 5 1 (ReqLock ''hunter2'') None NoValue (None, []) =
     logged_call log_params (newLogger True) 0 5 1 (ReqLock ''secret'') None NoValue (None, []) \<and>
   map lr_msg (snd (logged_call log_params (newLogger True) 0 5 1 (ReqLock ''hunter2'') None NoValue (None, []))) =
     [''upstream call'']"
  using upstream_log_hides_secrets [of "ReqLock ''hunter2''" "ReqLock ''secret''" NoValue NoValue
      log_params "newLogger True" 0 5 1 None "(None, [])"]
  by (simp add: logged_call_def beginTrackedUpstreamCall_def finish_call_def Let_def log_at_def)

end
