(* ===== verification/AuditLog.thy ===== *)
theory AuditLog
  imports FilterAgent ListKeys Logging "HOL-Library.Sublist"
begin

text \<open>
  The records \<open>internal/proxy/agent.go\<close> logs while it serves a client. \<open>FilterAgent\<close> models what
  the operations do; here they also write the log, and leaving the log out of them gives exactly
  the operations of \<open>FilterAgent\<close>. The log is what an operator has to find out who signed with
  which key.
\<close>

section \<open>The operations with their records\<close>

text \<open>
  The fields of \<open>filterAgent\<close> that only the log uses: the group's name, the logger of the
  connection, and the logger of the identities, which may be nil.
\<close>

record filter_log =
  fl_group :: string
  fl_log :: logger
  fl_identityLog :: "logger option"

text \<open>The loop of \<open>List\<close> over the keys, from index \<open>i\<close> of \<open>n\<close>.\<close>

fun group_identity_records ::
  "list_params \<Rightarrow> logger \<Rightarrow> nat \<Rightarrow> nat \<Rightarrow> agent_key list \<Rightarrow> log_record list \<Rightarrow> log_record list" where
  "group_identity_records p lg i n [] out = out"
| "group_identity_records p lg i n (k # ks) out =
     group_identity_records p lg (Suc i) n ks
       (log_Debug (''group identity '' @ itoa (i + 1) @ ''/'' @ itoa n)
          [(''fingerprint'', LogStr (FingerprintSHA256 (lp_fp p) (k_Blob k))), (''comment'', LogStr (k_Comment k)),
           (''algorithm'', LogStr (k_Format k)), (''key_size'', LogInt (int (keyBits (lp_key p) (k_Blob k))))] lg out)"

definition logged_List ::
  "((proxy_telemetry \<Rightarrow> proxy_telemetry) \<Rightarrow> 'u \<Rightarrow> 'u) \<Rightarrow> list_params \<Rightarrow> filter_log \<Rightarrow> 'u extended_agent \<Rightarrow>
   (group_auth \<times> 'u) \<times> log_record list \<Rightarrow>
   ((goerr + agent_key list) \<times> (group_auth \<times> 'u) \<times> log_record list) option" where
  "logged_List tel p fl up = (\<lambda>((a, u), out).
     let u = tel addListRequest u
     in do {
       (res, (a, u)) \<leftarrow> authorization_list (lp_fp p) up (a, u);
       (case res of
          Inl err \<Rightarrow>
            Some (Inl err, (a, tel addListError u),
              log_Warn ''upstream list failed'' [(''group'', LogStr (fl_group fl)), (''err'', LogErr err)] (fl_log fl) out)
        | Inr ks \<Rightarrow>
            (let out = log_Info ''list identities'' [(''count'', LogInt (int (length ks)))] (fl_log fl) out;
                 identityLog = (case fl_identityLog fl of None \<Rightarrow> fl_log fl | Some l \<Rightarrow> l);
                 out = (if log_Enabled LevelDebug identityLog
                        then group_identity_records p identityLog 0 (length ks) ks out else out)
             in Some (Inr ks, (a, u), out)))
     })"

definition logged_SignWithFlags ::
  "((proxy_telemetry \<Rightarrow> proxy_telemetry) \<Rightarrow> 'u \<Rightarrow> 'u) \<Rightarrow> list_params \<Rightarrow> filter_log \<Rightarrow> 'u extended_agent \<Rightarrow>
   blob \<Rightarrow> string \<Rightarrow> sig_flags \<Rightarrow> (group_auth \<times> 'u) \<times> log_record list \<Rightarrow>
   ((goerr + string) \<times> (group_auth \<times> 'u) \<times> log_record list) option" where
  "logged_SignWithFlags tel p fl up key data flags = (\<lambda>((a, u), out).
     let u = tel addSignRequest u
     in do {
       (res, (a, u)) \<leftarrow> authorize (lp_fp p) up key (a, u);
       (case res of
          Inl err \<Rightarrow>
            Some (Inl err, (a, tel addSignError u),
              log_Warn ''upstream list failed during sign authorization''
                [(''group'', LogStr (fl_group fl)), (''err'', LogErr err)] (fl_log fl) out)
        | Inr allowed \<Rightarrow>
            if \<not> allowed then
              Some (Inl errKeyNotInGroup, (a, tel addSignError u),
                log_Warn ''sign refused: key not in group''
                  [(''group'', LogStr (fl_group fl)), (''fingerprint'', LogStr (FingerprintSHA256 (lp_fp p) key))] (fl_log fl) out)
            else do {
              let out = log_Info ''sign'' [(''fingerprint'', LogStr (FingerprintSHA256 (lp_fp p) key))] (fl_log fl) out;
              (sig, u) \<leftarrow> ag_SignWithFlags up key data flags u;
              Some (sig, (a, case sig of Inl err \<Rightarrow> tel addSignError u | Inr _ \<Rightarrow> u), out)
            })
     })"

definition logged_refuse ::
  "filter_log \<Rightarrow> string \<Rightarrow> 's \<times> log_record list \<Rightarrow> (goerr option \<times> 's \<times> log_record list) option" where
  "logged_refuse fl op = (\<lambda>(s, out).
     Some (Some errReadOnly, s,
       log_Warn ''refused mutating request'' [(''group'', LogStr (fl_group fl)), (''op'', LogStr op)] (fl_log fl) out))"

definition loggedAgent ::
  "((proxy_telemetry \<Rightarrow> proxy_telemetry) \<Rightarrow> 'u \<Rightarrow> 'u) \<Rightarrow> list_params \<Rightarrow> filter_log \<Rightarrow> 'u extended_agent \<Rightarrow>
   ((group_auth \<times> 'u) \<times> log_record list) extended_agent" where
  "loggedAgent tel p fl up =
     \<lparr>ag_List = logged_List tel p fl up,
      ag_Sign = (\<lambda>key data. logged_SignWithFlags tel p fl up key data 0),
      ag_SignWithFlags = logged_SignWithFlags tel p fl up,
      ag_Add = (\<lambda>key. logged_refuse fl ''add''), ag_Remove = (\<lambda>key. logged_refuse fl ''remove''),
      ag_RemoveAll = logged_refuse fl ''remove-all'',
      ag_Lock = (\<lambda>p. logged_refuse fl ''lock''), ag_Unlock = (\<lambda>p. logged_refuse fl ''unlock''),
      ag_Signers = (\<lambda>s. Some (Inl errReadOnly, s)),
      ag_Extension = (\<lambda>name contents s. Some (Inl (ErrSentinel ErrExtensionUnsupported), s))\<rparr>"

section \<open>Leaving the log out\<close>

lemma logged_List_erase:
  "map_option (\<lambda>(res, s, out). (res, s)) (logged_List tel p fl up (s, out)) = filter_List tel (lp_fp p) up s"
  by (cases s) (auto simp: logged_List_def filter_List_def Let_def bind_eq_None_conv split: sum.splits option.splits
      intro!: bind_option_cong simp: map_option_bind)

lemma logged_Sign_erase:
  "map_option (\<lambda>(res, s, out). (res, s)) (logged_SignWithFlags tel p fl up k d f (s, out)) =
     filter_SignWithFlags tel (lp_fp p) up k d f s"
  by (cases s) (auto simp: logged_SignWithFlags_def filter_SignWithFlags_def Let_def bind_eq_None_conv map_option_bind
      split: sum.splits option.splits intro!: bind_option_cong)

lemma option_map_fst_snd:
  "map_option (\<lambda>(res, s, out). (res, s)) x = y \<Longrightarrow> map_option (fst \<circ> snd) x = map_option snd y"
  by (cases x; cases y) auto

lemma serve_erase: "map_option fst (serve (loggedAgent tel p fl up) q (s, out)) = serve (filterAgent tel (lp_fp p) up) q s"
proof (cases q)
  case ReqList
  with option_map_fst_snd [OF logged_List_erase] show ?thesis
    by (simp add: loggedAgent_def filterAgent_def option.map_comp)
next
  case (ReqSign k d)
  with option_map_fst_snd [OF logged_Sign_erase] show ?thesis
    by (simp add: loggedAgent_def filterAgent_def filter_Sign_def option.map_comp)
next
  case (ReqSignWithFlags k d f)
  with option_map_fst_snd [OF logged_Sign_erase] show ?thesis
    by (simp add: loggedAgent_def filterAgent_def option.map_comp)
qed (simp_all add: loggedAgent_def filterAgent_def logged_refuse_def refuse_def)

lemma session_erase:
  "map_option fst (session (loggedAgent tel p fl up) qs (s, out)) = session (filterAgent tel (lp_fp p) up) qs s"
proof (induction qs arbitrary: s out)
  case (Cons q qs)
  show ?case
  proof (cases "serve (loggedAgent tel p fl up) q (s, out)")
    case None
    with serve_erase [of tel p fl up q s out] show ?thesis by simp
  next
    case (Some t)
    obtain s' out' where t: "t = (s', out')" by fastforce
    with Some serve_erase [of tel p fl up q s out] have "serve (filterAgent tel (lp_fp p) up) q s = Some s'" by simp
    with Some t Cons.IH [of s' out'] show ?thesis by simp
  qed
qed simp

section \<open>The audit trail\<close>

text \<open>The keys of the signing requests on a wire, and the keys the log says were signed with.\<close>

fun signing_key :: "request \<Rightarrow> blob option" where
  "signing_key (ReqSign k d) = Some k"
| "signing_key (ReqSignWithFlags k d f) = Some k"
| "signing_key _ = None"

definition signed_fingerprints :: "fingerprints \<Rightarrow> wire_event list \<Rightarrow> string list" where
  "signed_fingerprints fp evs = map (FingerprintSHA256 fp) (List.map_filter signing_key (requests evs))"

fun sign_record :: "log_record \<Rightarrow> string option" where
  "sign_record r = (if lr_msg r = ''sign'' then
     (case map_of (rev (lr_attrs r)) ''fingerprint'' of Some (LogStr f) \<Rightarrow> Some f | _ \<Rightarrow> None) else None)"

definition logged_fingerprints :: "log_record list \<Rightarrow> string list" where
  "logged_fingerprints recs = List.map_filter sign_record recs"

lemma audit_simps [simp]:
  "signed_fingerprints fp (evs @ evs') = signed_fingerprints fp evs @ signed_fingerprints fp evs'"
  "logged_fingerprints (recs @ recs') = logged_fingerprints recs @ logged_fingerprints recs'"
  "signed_fingerprints fp [] = []" "logged_fingerprints [] = []"
  by (simp_all add: signed_fingerprints_def logged_fingerprints_def List.map_filter_def)

lemma signed_none: "set (requests evs) \<subseteq> {ReqList} \<Longrightarrow> signed_fingerprints fp evs = []"
  by (auto simp: signed_fingerprints_def List.map_filter_def filter_empty_conv)

text \<open>
  \<open>audited fp w out w' out'\<close>: wire and log only grew, and the signing requests that were added to
  the wire are, in their order, among the signatures added to the log.
\<close>

definition audited ::
  "fingerprints \<Rightarrow> wire_event list \<Rightarrow> log_record list \<Rightarrow> wire_event list \<Rightarrow> log_record list \<Rightarrow> bool" where
  "audited fp w out w' out' \<longleftrightarrow>
     (\<exists>evs recs. w' = w @ evs \<and> out' = out @ recs \<and> subseq (signed_fingerprints fp evs) (logged_fingerprints recs))"

lemma audited_refl [simp]: "audited fp w out w out"
  by (simp add: audited_def)

lemma audited_trans:
  assumes "audited fp w out w' out'" "audited fp w' out' w'' out''"
  shows "audited fp w out w'' out''"
proof -
  from assms obtain evs recs evs' recs' where "w' = w @ evs" "out' = out @ recs"
    "subseq (signed_fingerprints fp evs) (logged_fingerprints recs)" "w'' = w' @ evs'" "out'' = out' @ recs'"
    "subseq (signed_fingerprints fp evs') (logged_fingerprints recs')" by (auto simp: audited_def)
  then show ?thesis unfolding audited_def
    by (intro exI [of _ "evs @ evs'"] exI [of _ "recs @ recs'"]) (auto intro: list_emb_append_mono)
qed

lemma audited_quiet: "list_only w w' \<Longrightarrow> audited fp w out w' (out @ recs)"
  unfolding list_only_def audited_def by (auto simp: signed_none)

lemma log_at_append: "\<exists>recs. log_at l m attrs lg out = out @ recs"
  by (simp add: log_at_def)

lemma group_identity_append: "\<exists>recs. group_identity_records p lg i n ks out = out @ recs"
proof (induction ks arbitrary: i out)
  case (Cons k ks)
  have "\<exists>recs. group_identity_records p lg i n (k # ks) out =
    group_identity_records p lg (Suc i) n ks (out @ recs)"
    unfolding group_identity_records.simps log_at_def
    by (cases "log_Enabled LevelDebug lg"; simp only: if_True if_False) (blast, rule exI [of _ "[]"], simp)
  then obtain recs where recs: "group_identity_records p lg i n (k # ks) out =
    group_identity_records p lg (Suc i) n ks (out @ recs)" by blast
  from Cons.IH [of "Suc i" "out @ recs"] obtain more where
    "group_identity_records p lg (Suc i) n ks (out @ recs) = (out @ recs) @ more" by blast
  with recs show ?case by (intro exI [of _ "recs @ more"]) simp
qed simp

context filtered_source
begin

lemma refresh_list_only: "uinv u \<Longrightarrow> runRefresh fp up r (a, u) = Some (a', u') \<Longrightarrow> list_only (wire u) (wire u')"
  by (auto simp: runRefresh_def bind_eq_Some_conv intro: list_wire)

lemma authorization_list_only:
  "uinv u \<Longrightarrow> authorization_list fp up (a, u) = Some (res, (a', u')) \<Longrightarrow> list_only (wire u) (wire u')"
  by (auto simp: authorization_list_def Let_def bind_eq_Some_conv split: prod.splits if_splits
      dest: refresh_list_only)

lemma authorize_list_only:
  "uinv u \<Longrightarrow> authorize fp up k (a, u) = Some (res, (a', u')) \<Longrightarrow> list_only (wire u) (wire u')"
  by (auto simp: authorize_def bind_eq_Some_conv split: prod.splits if_splits option.splits
      dest: refresh_list_only)

lemma sign_recorded:
  assumes "sign_only k d f w w'" "lr_msg r = ''sign''" "lr_attrs r = attrs @ [(''fingerprint'', LogStr (FingerprintSHA256 fp k))]"
  shows "audited fp w out w' (out @ [r])"
proof -
  from assms(1) obtain evs where evs: "w' = w @ evs" "requests evs = [] \<or> requests evs = [ReqSignWithFlags k d f]"
    by (auto simp: sign_only_def)
  have "logged_fingerprints [r] = [FingerprintSHA256 fp k]"
    using assms(2,3) by (simp add: logged_fingerprints_def List.map_filter_def)
  moreover have "subseq (signed_fingerprints fp evs) [FingerprintSHA256 fp k]"
    using evs(2) by (auto simp: signed_fingerprints_def List.map_filter_def)
  ultimately show ?thesis using evs(1) by (auto simp: audited_def)
qed

lemma logged_sign_audited:
  assumes "ok (a, u)" "lp_fp p = fp" "log_Enabled LevelInfo (fl_log fl)"
    and "logged_SignWithFlags tel p fl up k d f ((a, u), out) = Some (res, (a', u'), out')"
  shows "audited fp (wire u) out (wire u') out'"
proof -
  let ?u = "tel addSignRequest u"
  from assms(1) have inv: "uinv ?u" by (simp add: ok_def tel_inv)
  from assms(2,4) obtain res1 a1 u1 where au: "authorize fp up k (a, ?u) = Some (res1, (a1, u1))"
    by (auto simp: logged_SignWithFlags_def Let_def bind_eq_Some_conv)
  have w: "list_only (wire u) (wire u1)" using authorize_list_only [OF inv au] by simp
  have "ok (a, ?u)" using ok_tel [OF assms(1)] .
  from authorize_spec [OF this au] have inv1: "uinv u1" by (simp add: grows_def ok_def)
  show ?thesis
  proof (cases "res1 = Inr True")
    case False
    with assms(2,4) au have "wire u' = wire u1" "\<exists>recs. out' = out @ recs"
      by (auto simp: logged_SignWithFlags_def Let_def log_at_append split: sum.splits if_splits)
    with audited_quiet [OF w] show ?thesis by auto
  next
    case True
    let ?r = "\<lparr>lr_level = LevelInfo, lr_msg = ''sign'',
      lr_attrs = lg_attrs (fl_log fl) @ [(''fingerprint'', LogStr (FingerprintSHA256 fp k))]\<rparr>"
    from True assms(2-4) au obtain sig u2 where sig: "ag_SignWithFlags up k d f u1 = Some (sig, u2)"
      by (auto simp: logged_SignWithFlags_def Let_def bind_eq_Some_conv)
    with True assms(2-4) au have s: "ag_SignWithFlags up k d f u1 = Some (sig, u2)" "wire u' = wire u2" "out' = out @ [?r]"
      by (cases sig; simp add: logged_SignWithFlags_def Let_def log_at_def; auto)+
    have "audited fp (wire u1) out (wire u') out'"
      unfolding s(2,3) by (rule sign_recorded [OF sign_wire [OF inv1 s(1)]]) simp_all
    with audited_quiet [OF w, of fp out "[]"] show ?thesis by (auto intro: audited_trans)
  qed
qed

lemma logged_list_audited:
  assumes "ok (a, u)" "lp_fp p = fp" "logged_List tel p fl up ((a, u), out) = Some (res, (a', u'), out')"
  shows "audited fp (wire u) out (wire u') out'"
proof -
  let ?u = "tel addListRequest u"
  from assms(1) have inv: "uinv ?u" by (simp add: ok_def tel_inv)
  from assms(2,3) obtain res1 a1 u1 where au: "authorization_list fp up (a, ?u) = Some (res1, (a1, u1))"
    by (auto simp: logged_List_def Let_def bind_eq_Some_conv)
  have w: "list_only (wire u) (wire u1)" using authorization_list_only [OF inv au] by simp
  from assms(2,3) au have "wire u' = wire u1" by (auto simp: logged_List_def Let_def split: sum.splits)
  moreover have "\<exists>recs. out' = out @ recs"
  proof (cases res1)
    case (Inl err)
    with assms(2,3) au show ?thesis by (auto simp: logged_List_def Let_def log_at_append)
  next
    case (Inr ks)
    let ?idlog = "case fl_identityLog fl of None \<Rightarrow> fl_log fl | Some l \<Rightarrow> l"
    let ?out = "log_Info ''list identities'' [(''count'', LogInt (int (length ks)))] (fl_log fl) out"
    from Inr assms(2,3) au have "out' = (if log_Enabled LevelDebug ?idlog
        then group_identity_records p ?idlog 0 (length ks) ks ?out else ?out)"
      by (auto simp: logged_List_def Let_def)
    then show ?thesis
      using log_at_append [of LevelInfo "''list identities''" "[(''count'', LogInt (int (length ks)))]" "fl_log fl" out]
        group_identity_append [of p ?idlog 0 "length ks" ks ?out] by (auto split: if_splits)
  qed
  ultimately show ?thesis using audited_quiet [OF w] by auto
qed

lemma serve_audited:
  assumes "ok s" "lp_fp p = fp" "log_Enabled LevelInfo (fl_log fl)"
    and "serve (loggedAgent tel p fl up) q (s, out) = Some (s', out')"
  shows "ok s' \<and> audited fp (wire (snd s)) out (wire (snd s')) out'"
proof
  have "serve (filterAgent tel fp up) q s = Some s'"
    using serve_erase [of tel p fl up q s out] assms(2,4) by simp
  from serve_grows [OF assms(1) this] show "ok s'" by (simp add: grows_def)
  obtain a u a' u' where s: "s = (a, u)" "s' = (a', u')" by fastforce
  have refused: "audited fp (wire u) out (wire u) (log_at l m attrs lg out)" for l m attrs lg
    using audited_quiet [OF list_only_refl, of fp "wire u" out] log_at_append [of l m attrs lg out] by auto
  have sign: "audited fp (wire u) out (wire u') out'"
    if "\<exists>res. logged_SignWithFlags tel p fl up k d f ((a, u), out) = Some (res, (a', u'), out')" for k d f
    using that logged_sign_audited assms(1-3) s by blast
  have "audited fp (wire u) out (wire u') out'"
  proof (cases q)
    case ReqList
    with assms(4) s obtain res where "logged_List tel p fl up ((a, u), out) = Some (res, (a', u'), out')"
      by (auto simp: loggedAgent_def)
    with logged_list_audited assms(1,2) s show ?thesis by blast
  next
    case (ReqSign k d)
    with assms(4) s show ?thesis by (intro sign [of k d 0]) (auto simp: loggedAgent_def)
  next
    case (ReqSignWithFlags k d f)
    with assms(4) s show ?thesis by (intro sign [of k d f]) (auto simp: loggedAgent_def)
  qed (use assms(4) s refused in \<open>auto simp: loggedAgent_def logged_refuse_def\<close>)
  with s show "audited fp (wire (snd s)) out (wire (snd s')) out'" by simp
qed

lemma session_audited:
  assumes "lp_fp p = fp" "log_Enabled LevelInfo (fl_log fl)"
  shows "ok s \<Longrightarrow> session (loggedAgent tel p fl up) qs (s, out) = Some (s', out') \<Longrightarrow>
    ok s' \<and> audited fp (wire (snd s)) out (wire (snd s')) out'"
proof (induction qs arbitrary: s out)
  case (Cons q qs)
  then obtain s1 out1 where "serve (loggedAgent tel p fl up) q (s, out) = Some (s1, out1)"
    and rest: "session (loggedAgent tel p fl up) qs (s1, out1) = Some (s', out')" by (auto split: option.splits)
  with serve_audited [OF Cons.prems(1) assms] have "ok s1" "audited fp (wire (snd s)) out (wire (snd s1)) out1" by blast+
  with Cons.IH [OF _ rest] show ?case by (blast intro: audited_trans)
qed simp

end

section \<open>Which records a client can cause\<close>

text \<open>
  Every record of a session carries the attributes of the connection's logger, or at debug level
  those of the identity logger, and none is a record of the server itself.
\<close>

definition identity_logger :: "filter_log \<Rightarrow> logger" where
  "identity_logger fl = (case fl_identityLog fl of None \<Rightarrow> fl_log fl | Some l \<Rightarrow> l)"

definition agent_messages :: "string set" where
  "agent_messages = {''upstream list failed'', ''list identities'', ''upstream list failed during sign authorization'',
     ''sign refused: key not in group'', ''sign'', ''refused mutating request''}"

definition client_record :: "filter_log \<Rightarrow> log_record \<Rightarrow> bool" where
  "client_record fl r \<longleftrightarrow>
     (lr_level r \<noteq> LevelDebug \<and> lr_msg r \<in> agent_messages \<and> (\<exists>attrs. lr_attrs r = lg_attrs (fl_log fl) @ attrs)) \<or>
     (lr_level r = LevelDebug \<and> log_Enabled LevelDebug (identity_logger fl) \<and>
        (\<exists>m. lr_msg r = ''group identity '' @ m) \<and> (\<exists>attrs. lr_attrs r = lg_attrs (identity_logger fl) @ attrs))"

definition client_grows :: "filter_log \<Rightarrow> log_record list \<Rightarrow> log_record list \<Rightarrow> bool" where
  "client_grows fl out out' \<longleftrightarrow> (\<exists>recs. out' = out @ recs \<and> (\<forall>r \<in> set recs. client_record fl r))"

lemma client_grows_refl [simp]: "client_grows fl out out"
  by (simp add: client_grows_def)

lemma client_grows_trans: "client_grows fl out out' \<Longrightarrow> client_grows fl out' out'' \<Longrightarrow> client_grows fl out out''"
  unfolding client_grows_def by (elim exE conjE) (rename_tac x y, rule_tac x = "x @ y" in exI, auto)

lemma client_grows_log:
  "l \<noteq> LevelDebug \<Longrightarrow> m \<in> agent_messages \<Longrightarrow> client_grows fl out (log_at l m attrs (fl_log fl) out)"
  by (auto simp: client_grows_def log_at_def client_record_def)

lemma client_grows_identities:
  "client_grows fl out (group_identity_records p (identity_logger fl) i n ks out)"
proof (induction ks arbitrary: i out)
  case (Cons k ks)
  show ?case unfolding group_identity_records.simps
    by (rule client_grows_trans [OF _ Cons]) (auto simp: client_grows_def log_at_def client_record_def)
qed simp

lemma client_grows_List:
  assumes "logged_List tel p fl up (s, out) = Some (res, s', out')"
  shows "client_grows fl out out'"
proof -
  let ?info = "\<lambda>ks. log_Info ''list identities'' [(''count'', LogInt (int (length (ks :: agent_key list))))] (fl_log fl) out"
  have info: "client_grows fl out (?info ks)" for ks
    by (rule client_grows_log) (simp_all add: agent_messages_def)
  obtain a u where s: "s = (a, u)" by (cases s)
  from assms s obtain res1 a1 u1 where au: "authorization_list (lp_fp p) up (a, tel addListRequest u) = Some (res1, (a1, u1))"
    by (auto simp: logged_List_def Let_def bind_eq_Some_conv)
  show ?thesis
  proof (cases res1)
    case (Inl err)
    with assms s au show ?thesis
      by (auto simp: logged_List_def Let_def agent_messages_def intro!: client_grows_log)
  next
    case (Inr ks)
    with assms s au have "out' = (if log_Enabled LevelDebug (identity_logger fl)
        then group_identity_records p (identity_logger fl) 0 (length ks) ks (?info ks) else ?info ks)"
      by (auto simp: logged_List_def Let_def identity_logger_def)
    with client_grows_trans [OF info client_grows_identities] info show ?thesis by auto
  qed
qed

lemma client_grows_Sign:
  assumes "logged_SignWithFlags tel p fl up k d f (s, out) = Some (res, s', out')"
  shows "client_grows fl out out'"
proof -
  obtain a u where s: "s = (a, u)" by (cases s)
  from assms s obtain res1 a1 u1 where au: "authorize (lp_fp p) up k (a, tel addSignRequest u) = Some (res1, (a1, u1))"
    by (auto simp: logged_SignWithFlags_def Let_def bind_eq_Some_conv)
  show ?thesis
  proof (cases res1)
    case (Inl err)
    with assms s au show ?thesis
      by (auto simp: logged_SignWithFlags_def Let_def agent_messages_def intro!: client_grows_log)
  next
    case (Inr allowed)
    with assms s au show ?thesis
      by (cases allowed) (auto simp: logged_SignWithFlags_def Let_def bind_eq_Some_conv agent_messages_def
          intro!: client_grows_log)
  qed
qed

lemma client_grows_serve:
  "serve (loggedAgent tel p fl up) q (s, out) = Some (s', out') \<Longrightarrow> client_grows fl out out'"
  by (cases q) (auto simp: loggedAgent_def logged_refuse_def agent_messages_def
      intro!: client_grows_log dest: client_grows_List client_grows_Sign)

lemma client_grows_session:
  "session (loggedAgent tel p fl up) qs (s, out) = Some (s', out') \<Longrightarrow> client_grows fl out out'"
proof (induction qs arbitrary: s out)
  case (Cons q qs)
  then obtain s1 out1 where "serve (loggedAgent tel p fl up) q (s, out) = Some (s1, out1)"
    "session (loggedAgent tel p fl up) qs (s1, out1) = Some (s', out')" by (auto split: option.splits)
  with Cons.IH client_grows_serve show ?case by (blast intro: client_grows_trans)
qed simp

section \<open>The program's stack\<close>

definition logged_group_agent ::
  "list_params \<Rightarrow> filter_log \<Rightarrow> ((group_auth \<times> cache_core \<times> reconnect_client) \<times> log_record list) extended_agent" where
  "logged_group_agent p fl = loggedAgent stack_tel p fl upstream_stack"

text \<open>
  Property C3. No key is used silently. At any level that shows info records, whatever a client
  of a group sends: the signing requests that reach the upstream agent are, in their order,
  among the signatures the session's records tell, each with the fingerprint of its key; and
  writing the log changes nothing of what the session does.
\<close>

theorem signatures_audited:
  assumes "rc_run r" "log_Enabled LevelInfo (fl_log fl)"
    and "session (logged_group_agent p fl) qs (start_state ms ttl r, out) = Some (s', out')"
  shows "(\<exists>evs recs. group_wire s' = rc_wire r @ evs \<and> out' = out @ recs \<and>
      subseq (signed_fingerprints (lp_fp p) evs) (logged_fingerprints recs)) \<and>
    session (group_agent (lp_fp p)) qs (start_state ms ttl r) = Some s'"
proof -
  have "audited (lp_fp p) (stack_wire (snd (start_state ms ttl r))) out (stack_wire (snd s')) out'"
    using filtered.session_audited [OF refl assms(2) start_ok [OF assms(1)]] assms(3)
    unfolding logged_group_agent_def by blast
  moreover have "stack_wire (snd (start_state ms ttl r)) = rc_wire r" "stack_wire (snd s') = group_wire s'"
    by (auto simp: start_state_def stack_wire_def group_wire_def split: prod.splits)
  moreover have "session (group_agent (lp_fp p)) qs (start_state ms ttl r) = Some s'"
    using session_erase [of stack_tel p fl upstream_stack qs "start_state ms ttl r" out] assms(3)
    by (simp add: logged_group_agent_def group_agent_def)
  ultimately show ?thesis by (auto simp: audited_def)
qed

definition audit_params :: list_params where
  "audit_params = \<lparr>lp_pr = (\<lambda>_. True), lp_fp = group_fps, lp_key = (\<lambda>_. None)\<rparr>"

definition audit_log :: filter_log where
  "audit_log = \<lparr>fl_group = ''laptop'', fl_log = newLogger False, fl_identityLog = None\<rparr>"

definition audit_requests :: "request list" where
  "audit_requests = [ReqList, ReqSignWithFlags ''blob'' ''data'' 0, ReqRemoveAll]"

lemma sample_audit:
  "\<exists>s' out'. session (logged_group_agent audit_params audit_log) audit_requests (sample_start, []) = Some (s', out') \<and>
     requests (group_wire s') = [ReqList, ReqSignWithFlags ''blob'' ''data'' 0]"
proof -
  obtain s' where s': "session (group_agent group_fps) audit_requests sample_start = Some s'"
    "requests (group_wire s') = [ReqList, ReqSignWithFlags ''blob'' ''data'' 0]"
    using sample_session by (auto simp: audit_requests_def)
  with session_erase [of stack_tel audit_params audit_log upstream_stack audit_requests sample_start "[]"]
  show ?thesis by (auto simp: logged_group_agent_def group_agent_def audit_params_def)
qed

theorem signatures_audited_witness:
  "\<exists>s' out'. session (logged_group_agent audit_params audit_log) audit_requests (sample_start, []) = Some (s', out') \<and>
     subseq [''blob''] (logged_fingerprints out')"
proof -
  obtain s' out' where s: "session (logged_group_agent audit_params audit_log) audit_requests (sample_start, []) = Some (s', out')"
    "requests (group_wire s') = [ReqList, ReqSignWithFlags ''blob'' ''data'' 0]"
    using sample_audit by (elim exE conjE) (rule that)
  have "rc_run new_client" unfolding new_client_def by (rule run_new)
  from signatures_audited [OF this _ s(1) [unfolded sample_start_def]] obtain evs recs where
    e: "group_wire s' = rc_wire new_client @ evs" "out' = [] @ recs"
      "subseq (signed_fingerprints (lp_fp audit_params) evs) (logged_fingerprints recs)"
    by (auto simp: audit_log_def)
  have "rc_wire new_client = []" by (simp add: rc_wire_def sample_defs)
  then have "signed_fingerprints (lp_fp audit_params) evs = [''blob'']"
    using e(1) s(2) by (simp add: signed_fingerprints_def List.map_filter_def audit_params_def group_fps_def)
  with e s(1) show ?thesis by (intro exI conjI) auto
qed

end
