(* ===== verification/PeerCreds.thy ===== *)
theory PeerCreds
  imports GoErr GoStrings GoTime "HOL-Library.Word"
begin

text \<open>
  \<open>internal/peercreds\<close>: the credentials of the process at the other end of a Unix socket, as
  the kernel gives them on Linux (\<open>linux.go\<close>) and macOS (\<open>macos.go\<close>); on other systems there
  are none (\<open>other.go\<close>). What the kernel, the \<open>/proc\<close> file system and \<open>ps\<close> answer is an input.
\<close>

section \<open>Credentials\<close>

record peer_info =
  pi_PID :: "32 word"
  pi_UID :: "32 word"
  pi_Process :: string

definition zero_info :: peer_info where
  "zero_info = \<lparr>pi_PID = 0, pi_UID = 0, pi_Process = ''''\<rparr>"

text \<open>
  A connection and its kernel: whether it is a Unix connection, the errors of \<open>SyscallConn\<close> and
  of \<open>Control\<close>, and the answers to the socket options, to reading a file and to running a
  command within a second. A process identifier of Linux is an \<open>int32\<close>, the one macOS returns a
  Go \<open>int\<close>.
\<close>

record peer_kernel =
  pk_unix :: bool
  pk_SyscallConn :: "goerr option"
  pk_Control :: "goerr option"
  pk_Ucred :: "goerr + (32 word \<times> 32 word)"
  pk_ReadFile :: "string \<Rightarrow> goerr + string"
  pk_Xucred :: "goerr + 32 word"
  pk_PeerPID :: "goerr + int"
  pk_Output :: "string list \<Rightarrow> goerr + string"

definition MaxInt32 :: int where "MaxInt32 = 2147483647"

definition eof :: "goerr option" where "eof = Some (ErrSentinel IoEOF)"

section \<open>Linux\<close>

definition trim_right_nul :: "string \<Rightarrow> string" where
  "trim_right_nul s = rev (dropWhile (\<lambda>c. c = CHR 0x00) (rev s))"

fun index_byte :: "char \<Rightarrow> string \<Rightarrow> nat option" where
  "index_byte b [] = None"
| "index_byte b (c # s) = (if c = b then Some 0 else map_option Suc (index_byte b s))"

definition processName_linux :: "peer_kernel \<Rightarrow> 32 word \<Rightarrow> string" where
  "processName_linux k pid =
     (case pk_ReadFile k (''/proc/'' @ format_int (sint pid) @ ''/cmdline'') of
        Inl err \<Rightarrow> ''''
      | Inr data \<Rightarrow>
          (case index_byte (CHR 0x00) data of
             Some idx \<Rightarrow> take idx data
           | None \<Rightarrow> trim_right_nul data))"

definition get_linux :: "peer_kernel \<Rightarrow> peer_info \<times> goerr option" where
  "get_linux k =
     (if \<not> pk_unix k then (zero_info, eof)
      else case pk_SyscallConn k of
        Some err \<Rightarrow> (zero_info, Some err)
      | None \<Rightarrow>
          (case pk_Control k of
             Some err \<Rightarrow> (zero_info, Some err)
           | None \<Rightarrow>
               (case pk_Ucred k of
                  Inl socketErr \<Rightarrow> (zero_info, Some socketErr)
                | Inr (pid, uid) \<Rightarrow>
                    (let info = \<lparr>pi_PID = pid, pi_UID = uid, pi_Process = ''''\<rparr>;
                         info = (if 0 < sint pid then info\<lparr>pi_Process := processName_linux k pid\<rparr> else info)
                     in (info, None)))))"

section \<open>macOS\<close>

definition processName_darwin :: "peer_kernel \<Rightarrow> int \<Rightarrow> string" where
  "processName_darwin k pid =
     (case pk_Output k [''ps'', ''-o'', ''comm='', ''-p'', format_int pid] of
        Inl err \<Rightarrow> ''''
      | Inr out \<Rightarrow> trim_space out)"

definition get_darwin :: "peer_kernel \<Rightarrow> peer_info \<times> goerr option" where
  "get_darwin k =
     (if \<not> pk_unix k then (zero_info, eof)
      else case pk_SyscallConn k of
        Some err \<Rightarrow> (zero_info, Some err)
      | None \<Rightarrow>
          (case pk_Control k of
             Some err \<Rightarrow> (zero_info, Some err)
           | None \<Rightarrow>
               (case pk_Xucred k of
                  Inl credErr \<Rightarrow> (zero_info, Some credErr)
                | Inr uid \<Rightarrow>
                    (case pk_PeerPID k of
                       Inl pidErr \<Rightarrow> (zero_info\<lparr>pi_UID := uid\<rparr>, None)
                     | Inr pid \<Rightarrow>
                         if pid < 0 \<or> MaxInt32 < pid
                         then (zero_info\<lparr>pi_UID := uid\<rparr>,
                               Some (ErrText (''peer PID '' @ format_int pid @ '' is outside the supported range'')))
                         else (let info = \<lparr>pi_PID = word_of_int pid, pi_UID = uid, pi_Process = ''''\<rparr>;
                                   info = (if 0 < pid then info\<lparr>pi_Process := processName_darwin k pid\<rparr> else info)
                               in (info, None))))))"

section \<open>Every system\<close>

definition get_other :: "peer_kernel \<Rightarrow> peer_info \<times> goerr option" where
  "get_other k = (zero_info, eof)"

datatype goos = Linux | Darwin | OtherOS

fun peercreds_Get :: "goos \<Rightarrow> peer_kernel \<Rightarrow> peer_info \<times> goerr option" where
  "peercreds_Get Linux k = get_linux k"
| "peercreds_Get Darwin k = get_darwin k"
| "peercreds_Get OtherOS k = get_other k"

section \<open>What is reported\<close>

lemma index_byte_takeWhile:
  "(case index_byte b s of Some i \<Rightarrow> take i s | None \<Rightarrow> s) = takeWhile (\<lambda>c. c \<noteq> b) s"
  by (induction s) (auto split: option.splits)

lemma index_byte_None: "index_byte b s = None \<longleftrightarrow> b \<notin> set s"
  by (induction s) auto

lemma trim_right_nul_id: "CHR 0x00 \<notin> set s \<Longrightarrow> trim_right_nul s = s"
  unfolding trim_right_nul_def by (subst dropWhile_eq_self_iff [THEN iffD2]) (auto simp: hd_rev dest: last_in_set)

text \<open>The process name on Linux is the command line up to its first NUL byte.\<close>

lemma processName_linux_argv0:
  "processName_linux k pid =
     (case pk_ReadFile k (''/proc/'' @ format_int (sint pid) @ ''/cmdline'') of
        Inl err \<Rightarrow> '''' | Inr data \<Rightarrow> takeWhile (\<lambda>c. c \<noteq> CHR 0x00) data)"
proof (cases "pk_ReadFile k (''/proc/'' @ format_int (sint pid) @ ''/cmdline'')")
  case (Inr data)
  have "takeWhile (\<lambda>c. c \<noteq> CHR 0x00) data = trim_right_nul data" if "index_byte (CHR 0x00) data = None"
  proof -
    from that have n: "CHR 0x00 \<notin> set data" by (simp add: index_byte_None)
    then have "takeWhile (\<lambda>c. c \<noteq> CHR 0x00) data = data" by (auto simp: takeWhile_eq_all_conv)
    with n show ?thesis by (simp add: trim_right_nul_id)
  qed
  with Inr index_byte_takeWhile [of data "CHR 0x00"] show ?thesis
    by (auto simp: processName_linux_def split: option.splits)
qed (simp add: processName_linux_def)

lemma sint_in_range: "0 \<le> i \<Longrightarrow> i \<le> MaxInt32 \<Longrightarrow> sint (word_of_int i :: 32 word) = i"
  by (simp add: MaxInt32_def sint_uint word_of_int_inverse uint_word_of_int signed_take_bit_int_eq_self)

lemma get_linux_ok:
  "get_linux k = (info, None) \<Longrightarrow> \<exists>pid uid. pk_unix k \<and> pk_Ucred k = Inr (pid, uid) \<and> pi_PID info = pid \<and>
     pi_UID info = uid \<and> pi_Process info = (if 0 < sint pid then processName_linux k pid else '''')"
  by (auto simp: get_linux_def eof_def Let_def split: if_splits option.splits sum.splits prod.splits)

lemma get_darwin_ok:
  "get_darwin k = (info, None) \<Longrightarrow> \<exists>uid. pk_unix k \<and> pk_Xucred k = Inr uid \<and> pi_UID info = uid \<and>
     (case pk_PeerPID k of
        Inl e \<Rightarrow> pi_PID info = 0 \<and> pi_Process info = ''''
      | Inr pid \<Rightarrow> 0 \<le> pid \<and> pid \<le> MaxInt32 \<and> sint (pi_PID info) = pid \<and>
          pi_Process info = (if 0 < pid then processName_darwin k pid else ''''))"
  by (auto simp: get_darwin_def eof_def zero_info_def Let_def sint_in_range
      split: if_splits option.splits sum.splits)

text \<open>
  Credentials reported without an error are those of the kernel, at their full
  value: the user identifier is the one the kernel gave; the process identifier is the kernel's,
  never a truncation of it (macOS returns a wider integer), and 0 when macOS could not tell it;
  a process name is only looked up for a positive identifier, is empty when the lookup failed, on
  Linux is the command line up to its first NUL byte and on macOS what \<open>ps\<close> printed, trimmed. On
  other systems there are no credentials without an error.
\<close>

theorem peer_credentials_exact:
  assumes "peercreds_Get os k = (info, None)"
  shows "pk_unix k \<and> (pi_Process info \<noteq> '''' \<longrightarrow> 0 < sint (pi_PID info)) \<and>
    (case os of
       Linux \<Rightarrow> pk_Ucred k = Inr (pi_PID info, pi_UID info) \<and>
         (0 < sint (pi_PID info) \<longrightarrow> pi_Process info =
            (case pk_ReadFile k (''/proc/'' @ format_int (sint (pi_PID info)) @ ''/cmdline'') of
               Inl err \<Rightarrow> '''' | Inr data \<Rightarrow> takeWhile (\<lambda>c. c \<noteq> CHR 0x00) data))
     | Darwin \<Rightarrow> pk_Xucred k = Inr (pi_UID info) \<and>
         (case pk_PeerPID k of Inl e \<Rightarrow> pi_PID info = 0 | Inr pid \<Rightarrow> sint (pi_PID info) = pid) \<and>
         (0 < sint (pi_PID info) \<longrightarrow> pi_Process info =
            (case pk_Output k [''ps'', ''-o'', ''comm='', ''-p'', format_int (sint (pi_PID info))] of
               Inl err \<Rightarrow> '''' | Inr ps \<Rightarrow> trim_space ps))
     | OtherOS \<Rightarrow> False)"
proof (cases os)
  case Linux
  with get_linux_ok [of k info] assms show ?thesis by (auto simp: processName_linux_argv0)
next
  case Darwin
  with assms get_darwin_ok [of k info] show ?thesis
    by (cases "pk_PeerPID k") (auto simp: processName_darwin_def)
qed (use assms in \<open>simp add: get_other_def eof_def\<close>)

definition sample_kernel :: peer_kernel where
  "sample_kernel = \<lparr>pk_unix = True, pk_SyscallConn = None, pk_Control = None, pk_Ucred = Inr (42, 1000),
     pk_ReadFile = (\<lambda>p. Inr (''ssh'' @ [CHR 0x00] @ ''host'')), pk_Xucred = Inr 1000, pk_PeerPID = Inr 42,
     pk_Output = (\<lambda>args. Inr '' ssh'')\<rparr>"

lemma sample_get: "peercreds_Get Linux sample_kernel = (\<lparr>pi_PID = 42, pi_UID = 1000, pi_Process = ''ssh''\<rparr>, None)"
  by (simp add: get_linux_def sample_kernel_def Let_def processName_linux_def)

theorem peer_credentials_exact_witness:
  "peercreds_Get Linux sample_kernel = (\<lparr>pi_PID = 42, pi_UID = 1000, pi_Process = ''ssh''\<rparr>, None) \<and>
   pk_Ucred sample_kernel = Inr (42, 1000)"
  using peer_credentials_exact [OF sample_get] sample_get by simp

end
