(* ===== verification/GroupServing.thy ===== *)
theory GroupServing
  imports AuditLog Config PeerCreds
begin

text \<open>
  The serving side of \<open>internal/proxy/server.go\<close>: the startup listing that resolves every
  group at once, the handler of one client connection with the records it logs, and the requests
  of all clients of all groups over the one upstream stack they share. \<open>Server\<close> models when
  these parts run and how they end, \<open>Clients\<close> the goroutines of the handlers and where they wait.
\<close>

section \<open>The startup listing\<close>

record enriched_group =
  eg_g :: group
  eg_authorization :: group_auth
  eg_startup :: nat

definition enrich :: "group \<Rightarrow> enriched_group" where
  "enrich g =
     (let a = newGroupAuthorization (Matchers g);
          ((startup, _), a) = joinRefreshLocked ''startup'' a
      in \<lparr>eg_g = g, eg_authorization = a, eg_startup = startup\<rparr>)"

definition eg_visible :: "enriched_group \<Rightarrow> agent_key list" where
  "eg_visible eg = rf_visible (ga_refreshes (eg_authorization eg) ! eg_startup eg)"

definition finish_startup :: "fingerprints \<Rightarrow> goerr + agent_key list \<Rightarrow> enriched_group \<Rightarrow> enriched_group" where
  "finish_startup fp all eg =
     eg\<lparr>eg_authorization := finishRefresh fp (eg_startup eg) all (eg_authorization eg)\<rparr>"

text \<open>\<open>cancelled\<close>: whether the context has ended when the listing is logged.\<close>

definition resolveStartup ::
  "fingerprints \<Rightarrow> bool \<Rightarrow> logger \<Rightarrow> 'u extended_agent \<Rightarrow> enriched_group list \<times> 'u \<times> log_record list \<Rightarrow>
   (enriched_group list \<times> 'u \<times> log_record list) option" where
  "resolveStartup fp cancelled lg up = (\<lambda>(groups, u, out). do {
     (all, u) \<leftarrow> ag_List up u;
     let groups = map (finish_startup fp all) groups;
     let out =
       (if cancelled then out
        else case all of
          Inl err \<Rightarrow> log_Warn ''initial config key resolution failed; deferring until client request''
            [(''err'', LogErr err)] lg out
        | Inr ks \<Rightarrow> fold (\<lambda>eg. log_Info ''group keys resolved''
            [(''group'', LogStr (g_Name (eg_g eg))), (''keys'', LogInt (int (length (eg_visible eg))))] lg)
            groups out);
     Some (groups, u, out)
   })"

section \<open>One client connection\<close>

definition hex_digit :: "nat \<Rightarrow> char" where
  "hex_digit d = (if d < 10 then char_of (48 + d) else char_of (87 + d))"

fun hex_EncodeToString :: "string \<Rightarrow> string" where
  "hex_EncodeToString [] = []"
| "hex_EncodeToString (b # bs) =
     hex_digit (of_char b div 16) # hex_digit (of_char b mod 16) # hex_EncodeToString bs"



definition with_peer :: "peer_info \<Rightarrow> logger \<Rightarrow> logger" where
  "with_peer peer lg =
     (let lg = (if pi_UID peer \<noteq> 0 then log_With [(''uid'', LogInt (uint (pi_UID peer)))] lg else lg);
          lg = (if pi_PID peer \<noteq> 0 then log_With [(''pid'', LogInt (sint (pi_PID peer)))] lg else lg)
      in if pi_Process peer \<noteq> '''' then log_With [(''process'', LogStr (pi_Process peer))] lg else lg)"





section \<open>All clients of all groups\<close>

text \<open>
  A request reaches the server on a connection of group \<open>i\<close>; requests of different groups
  arrive in any order. The result tells for each request what it put on the shared wire. Here a
  request is served to its end before the next one; how goroutines interleave inside the layers
  is the subject of \<open>AuthorizationConc\<close>, \<open>CacheLaws\<close>, \<open>UpstreamConc\<close> and \<open>Clients\<close>.
\<close>

definition serve_at ::
  "fingerprints \<Rightarrow> nat \<Rightarrow> request \<Rightarrow> enriched_group list \<times> cache_core \<times> reconnect_client \<Rightarrow>
   (enriched_group list \<times> cache_core \<times> reconnect_client) option" where
  "serve_at fp i q = (\<lambda>(egs, u). if i < length egs then do {
       (a, u) \<leftarrow> serve (group_agent fp) q (eg_authorization (egs ! i), u);
       Some (egs[i := (egs ! i)\<lparr>eg_authorization := a\<rparr>], u)
     } else None)"

fun serve_all ::
  "fingerprints \<Rightarrow> (nat \<times> request) list \<Rightarrow> enriched_group list \<times> cache_core \<times> reconnect_client \<Rightarrow>
   ((nat \<times> wire_event list) list \<times> enriched_group list \<times> cache_core \<times> reconnect_client) option" where
  "serve_all fp [] s = Some ([], s)"
| "serve_all fp ((i, q) # rqs) s = do {
     t \<leftarrow> serve_at fp i q s;
     (trace, t') \<leftarrow> serve_all fp rqs t;
     Some ((i, drop (length (stack_wire (snd s))) (stack_wire (snd t))) # trace, t')
   }"

section \<open>Isolation of the groups\<close>

text \<open>Every group's state is sound for the shared wire, and its selectors are its own.\<close>

definition groups_ok :: "fingerprints \<Rightarrow> matcher list list \<Rightarrow> enriched_group list \<times> cache_core \<times> reconnect_client \<Rightarrow> bool" where
  "groups_ok fp mss = (\<lambda>(egs, u). stack_inv u \<and> map (ga_matchers \<circ> eg_authorization) egs = mss \<and>
     (\<forall>eg \<in> set egs. auth_inv fp (stack_wire u) (eg_authorization eg)))"

lemma groups_ok_at:
  assumes "groups_ok fp mss (egs, u)" "i < length egs"
  shows "filtered.ok fp (eg_authorization (egs ! i), u)" "ga_matchers (eg_authorization (egs ! i)) = mss ! i"
  using assms by (auto simp: groups_ok_def filtered.ok_def)

lemma permitted_growth_listings: "permitted_growth fp ms w w' \<Longrightarrow> listings w \<subseteq> listings w'"
  by (auto simp: permitted_growth_def)

lemma serve_at_grows:
  assumes "groups_ok fp mss s" "serve_at fp i q s = Some t"
  shows "groups_ok fp mss t \<and> permitted_growth fp (mss ! i) (stack_wire (snd s)) (stack_wire (snd t))"
proof -
  obtain egs u where s: "s = (egs, u)" by (cases s)
  with assms(2) obtain a u' where i: "i < length egs"
    and sv: "serve (group_agent fp) q (eg_authorization (egs ! i), u) = Some (a, u')"
    and t: "t = (egs[i := (egs ! i)\<lparr>eg_authorization := a\<rparr>], u')"
    by (auto simp: serve_at_def bind_eq_Some_conv split: if_splits)
  note ok = groups_ok_at [OF assms(1) [unfolded s] i]
  have g: "filtered.grows fp (eg_authorization (egs ! i), u) (a, u')"
    using filtered.serve_grows [OF ok(1) sv [unfolded group_agent_def]] .
  then have inv: "stack_inv u'" "auth_inv fp (stack_wire u') a" "ga_matchers a = mss ! i"
    and pg: "permitted_growth fp (mss ! i) (stack_wire u) (stack_wire u')"
    using ok(2) by (simp_all add: filtered.grows_def filtered.ok_def)
  have "auth_inv fp (stack_wire u') (eg_authorization eg)" if "eg \<in> set egs" for eg
    using that assms(1) auth_inv_mono [OF _ permitted_growth_listings [OF pg]] by (auto simp: s groups_ok_def)
  then have "\<forall>eg \<in> set (fst t). auth_inv fp (stack_wire u') (eg_authorization eg)"
    using set_update_subset_insert [of egs i "(egs ! i)\<lparr>eg_authorization := a\<rparr>"] inv(2) by (auto simp: t)
  moreover have "map (ga_matchers \<circ> eg_authorization) (fst t) = mss"
    using assms(1) inv(3) i by (auto simp: t s groups_ok_def map_update list_update_same_conv)
  ultimately show ?thesis using inv(1) pg by (simp add: groups_ok_def t s)
qed

lemma serve_all_grows:
  assumes "groups_ok fp mss s" "serve_all fp rqs s = Some (trace, t)"
  shows "groups_ok fp mss t \<and> map fst trace = map fst rqs \<and>
    stack_wire (snd t) = stack_wire (snd s) @ concat (map snd trace) \<and>
    (\<forall>(i, evs) \<in> set trace. \<forall>q \<in> set (requests evs). permitted fp (mss ! i) (stack_wire (snd t)) q)"
  using assms
proof (induction rqs arbitrary: s trace)
  case (Cons iq rqs)
  obtain i q where iq: "iq = (i, q)" by fastforce
  with Cons.prems(2) obtain s' trace' where s': "serve_at fp i q s = Some s'"
    and rest: "serve_all fp rqs s' = Some (trace', t)"
    and tr: "trace = (i, drop (length (stack_wire (snd s))) (stack_wire (snd s'))) # trace'"
    by (auto simp: bind_eq_Some_conv)
  from serve_at_grows [OF Cons.prems(1) s'] obtain evs where ok: "groups_ok fp mss s'"
    and evs: "stack_wire (snd s') = stack_wire (snd s) @ evs"
      "\<forall>q \<in> set (requests evs). permitted fp (mss ! i) (stack_wire (snd s')) q"
    by (auto simp: permitted_growth_def)
  note IH = Cons.IH [OF ok rest]
  from IH have w: "stack_wire (snd t) = stack_wire (snd s') @ concat (map snd trace')" by blast
  have "\<forall>q \<in> set (requests evs). permitted fp (mss ! i) (stack_wire (snd t)) q"
    unfolding w using evs(2) by (blast intro: permitted_mono)
  with IH evs tr iq show ?case by auto
qed simp

text \<open>The startup listing leaves every group sound, whatever it returned.\<close>

lemma enrich_sel:
  "ga_matchers (eg_authorization (enrich g)) = Matchers g" "ga_snapshot (eg_authorization (enrich g)) = None"
  by (simp_all add: enrich_def newGroupAuthorization_def join_idle)

lemma resolveStartup_ok:
  assumes "rc_run r"
    and "resolveStartup fp cancelled lg upstream_stack (map enrich gs, (newCachedAgent ttl, r), out) = Some (egs, u, out')"
  shows "groups_ok fp (map Matchers gs) (egs, u) \<and> list_only (rc_wire r) (stack_wire u)"
proof -
  let ?u = "(newCachedAgent ttl, r)"
  from assms(2) obtain all where l: "ag_List upstream_stack ?u = Some (all, u)"
    and egs: "egs = map (finish_startup fp all) (map enrich gs)"
    by (auto simp: resolveStartup_def bind_eq_Some_conv Let_def)
  have "filtered.ok fp (start_state [] ttl r)" using start_ok [OF assms(1)] .
  then have inv: "stack_inv ?u" by (simp add: filtered.ok_def start_state_def)
  have w: "list_only (rc_wire r) (stack_wire u)"
    using stack.list_wire [OF inv l] by (simp add: stack_wire_def)
  have "auth_inv fp (stack_wire u) (eg_authorization (finish_startup fp all (enrich g)))" for g
    using stack.list_listed [OF inv] l
    by (cases all) (auto simp: auth_inv_def finish_startup_def enrich_sel)
  then show ?thesis using stack.list_inv [OF inv l] w
    by (auto simp: groups_ok_def egs finish_startup_def enrich_sel)
qed

text \<open>
  Groups are isolated although they share one upstream connection and one cache:
  after the startup listing, and however the requests of the clients of all groups are
  interleaved, what a request of group \<open>i\<close> puts on the wire is list requests and signing
  requests for keys that a selector of group \<open>i\<close> itself matches in a listing of the upstream
  agent; every byte on the wire is caused by the startup listing or by one of those requests,
  and the startup sends list requests only.
\<close>

theorem groups_isolated:
  assumes "rc_run r"
    and "resolveStartup fp cancelled lg upstream_stack (map enrich gs, (newCachedAgent ttl, r), out) = Some (egs, u, out')"
    and "serve_all fp rqs (egs, u) = Some (trace, egs', u')"
  shows "set (requests (drop (length (rc_wire r)) (stack_wire u))) \<subseteq> {ReqList} \<and>
    stack_wire u' = stack_wire u @ concat (map snd trace) \<and> map fst trace = map fst rqs \<and>
    (\<forall>(i, evs) \<in> set trace. \<forall>q \<in> set (requests evs). q = ReqList \<or>
       (\<exists>k d f ks key m. q = ReqSignWithFlags k d f \<and> ks \<in> listings (stack_wire u') \<and> key \<in> set ks \<and>
          m \<in> set (map Matchers gs ! i) \<and> k_Blob key = k \<and> Matches fp m key))"
proof -
  from resolveStartup_ok [OF assms(1,2)] have ok: "groups_ok fp (map Matchers gs) (egs, u)"
    and w: "list_only (rc_wire r) (stack_wire u)" by auto
  have p: "q = ReqList \<or> (\<exists>k d f ks key m. q = ReqSignWithFlags k d f \<and> ks \<in> listings w \<and>
      key \<in> set ks \<and> m \<in> set ms \<and> k_Blob key = k \<and> Matches fp m key)" if "permitted fp ms w q" for q ms w
    using that by (cases q) (auto simp: in_group_def)
  note grown = serve_all_grows [OF ok assms(3)]
  show ?thesis
  proof (intro conjI)
    show "set (requests (drop (length (rc_wire r)) (stack_wire u))) \<subseteq> {ReqList}"
      using w by (auto simp: list_only_def)
    show "\<forall>(i, evs) \<in> set trace. \<forall>q \<in> set (requests evs). q = ReqList \<or>
       (\<exists>k d f ks key m. q = ReqSignWithFlags k d f \<and> ks \<in> listings (stack_wire u') \<and> key \<in> set ks \<and>
          m \<in> set (map Matchers gs ! i) \<and> k_Blob key = k \<and> Matches fp m key)"
    proof clarify
      fix i evs q
      assume "(i, evs) \<in> set trace" "q \<in> set (requests evs)" and not_sign: "\<not> (\<exists>k d f ks key m. q = ReqSignWithFlags k d f \<and>
        ks \<in> listings (stack_wire u') \<and> key \<in> set ks \<and> m \<in> set (map Matchers gs ! i) \<and> k_Blob key = k \<and> Matches fp m key)"
      with grown have "permitted fp (map Matchers gs ! i) (stack_wire u') q" by auto
      from p [OF this] not_sign show "q = ReqList" by blast
    qed
  qed (use grown in auto)
qed

text \<open>Two groups over one agent: one selects its key by comment, the other selects another key.\<close>

definition laptop_group :: group where
  "laptop_group = \<lparr>g_Name = ''laptop'', g_Enabled = None, g_Socket = ''/run/laptop.sock'', g_Keys = [],
     g_matchers = laptop_only\<rparr>"

definition other_group :: group where
  "other_group = laptop_group\<lparr>g_Name := ''other'',
     g_matchers := [\<lparr>m_Type = MatchComment, m_value = ''desktop''\<rparr>]\<rparr>"

definition sample_requests :: "(nat \<times> request) list" where
  "sample_requests = [(1, ReqSignWithFlags ''blob'' ''data'' 0), (0, ReqSignWithFlags ''blob'' ''data'' 0), (1, ReqLock ''pw'')]"

lemmas serving_samples = stack_ops stack_samples refuse_def go_simps laptop_group_def other_group_def
  resolveStartup_def enrich_def finish_startup_def serve_at_def sample_requests_def Matchers_def
  newLogger_def stack_wire_def log_at_def eg_visible_def

lemma sample_serving:
  "\<exists>egs u out' trace egs' u'.
     resolveStartup group_fps False (newLogger False) upstream_stack
       (map enrich [laptop_group, other_group], (newCachedAgent 10, new_client), []) = Some (egs, u, out') \<and>
     serve_all group_fps sample_requests (egs, u) = Some (trace, egs', u') \<and>
     map (requests \<circ> snd) trace = [[], [ReqSignWithFlags ''blob'' ''data'' 0], []]"
  by (simp add: serving_samples)

theorem groups_isolated_witness:
  "\<exists>egs u out' trace egs' u'.
     resolveStartup group_fps False (newLogger False) upstream_stack
       (map enrich [laptop_group, other_group], (newCachedAgent 10, new_client), []) = Some (egs, u, out') \<and>
     serve_all group_fps sample_requests (egs, u) = Some (trace, egs', u') \<and>
     map (requests \<circ> snd) trace = [[], [ReqSignWithFlags ''blob'' ''data'' 0], []] \<and>
     stack_wire u' = stack_wire u @ concat (map snd trace) \<and> map fst trace = [1, 0, 1]"
proof -
  obtain egs u out' trace egs' u' where s:
    "resolveStartup group_fps False (newLogger False) upstream_stack
       (map enrich [laptop_group, other_group], (newCachedAgent 10, new_client), []) = Some (egs, u, out')"
    "serve_all group_fps sample_requests (egs, u) = Some (trace, egs', u')"
    "map (requests \<circ> snd) trace = [[], [ReqSignWithFlags ''blob'' ''data'' 0], []]"
    using sample_serving by (elim exE conjE) (rule that)
  have "rc_run new_client" unfolding new_client_def by (rule run_new)
  from groups_isolated [OF this s(1,2)] s show ?thesis
    by (intro exI [of _ egs] exI [of _ u] exI [of _ out'] exI [of _ trace] exI [of _ egs'] exI [of _ u'])
      (simp add: sample_requests_def)
qed

section \<open>What is logged of a connection\<close>

text \<open>What is logged of the peer: what is known of it.\<close>

definition peer_attrs :: "peer_info \<Rightarrow> log_attrs" where
  "peer_attrs peer =
     (if pi_UID peer = 0 then [] else [(''uid'', LogInt (uint (pi_UID peer)))]) @
     (if pi_PID peer = 0 then [] else [(''pid'', LogInt (sint (pi_PID peer)))]) @
     (if pi_Process peer = '''' then [] else [(''process'', LogStr (pi_Process peer))])"

lemma with_peer_attrs [simp]:
  "lg_attrs (with_peer peer lg) = lg_attrs lg @ peer_attrs peer" "lg_level (with_peer peer lg) = lg_level lg"
  by (simp_all add: with_peer_def peer_attrs_def Let_def)

lemma log_Enabled_peer [simp]: "log_Enabled l (with_peer peer lg) = log_Enabled l lg"
  by (simp add: log_Enabled_def)

lemma length_hex: "length (hex_EncodeToString bs) = 2 * length bs"
  by (induction bs) auto













end
