(* ===== verification/RuntimeLaunch.thy ===== *)
theory RuntimeLaunch
  imports StepSystems RuntimeTelemetry Config Logging GoTime
begin

text \<open>
  \<open>internal/app/app.go\<close>: how \<open>Run\<close> prepares the process and how \<open>launchRuntime\<close> starts a
  runtime: the records it logs, and the two goroutines of a runtime with the ready channel, the
  cancellation of the telemetry loop and the done channel between them. \<open>Reload\<close> models the loop
  that drives a runtime; here is why what that loop takes from its channels can be relied on.
\<close>

section \<open>\<open>Run\<close>\<close>

definition maxProcs :: nat where "maxProcs = 2"

text \<open>The processor limit: \<open>chosen\<close> is what the Go runtime chose from the environment.\<close>

definition run_procs :: "string \<Rightarrow> nat \<Rightarrow> nat" where
  "run_procs gomaxprocs chosen = (let procs = chosen in if gomaxprocs = '''' then maxProcs else procs)"

text \<open>
  \<open>signal.Notify\<close> sends without blocking: a SIGHUP that finds the channel of capacity 1 full is
  dropped. \<open>pending\<close> is the number of signals in the channel.
\<close>

definition reload_capacity :: nat where "reload_capacity = 1"

definition notify_HUP :: "nat \<Rightarrow> nat" where
  "notify_HUP pending = (if pending < reload_capacity then pending + 1 else pending)"

definition take_HUP :: "nat \<Rightarrow> nat option" where
  "take_HUP pending = (if pending = 0 then None else Some (pending - 1))"

section \<open>The records of a start\<close>

record build_version =
  bv_Version :: string
  bv_Commit :: string
  bv_Date :: string

definition Version_String :: "build_version \<Rightarrow> string" where
  "Version_String v = ''ssh-agent-proxy '' @ bv_Version v @ '' (commit '' @ bv_Commit v @ '', built '' @ bv_Date v @ '')''"

definition time_Second :: int where "time_Second = 1000000000"
definition telemetrySampleInterval :: int where "telemetrySampleInterval = time_Second"
definition telemetryReportInterval :: int where "telemetryReportInterval = 10 * 60 * time_Second"

text \<open>\<open>cacheTTL\<close> is a duration in nanoseconds; Go's division truncates towards zero.\<close>

definition launch_records :: "string \<Rightarrow> config \<Rightarrow> int \<Rightarrow> build_version \<Rightarrow> logger \<Rightarrow> log_record list \<Rightarrow> log_record list" where
  "launch_records cfgPath cfg cacheTTL v lg out =
     (let out = log_Info ''ssh-agent-proxy'' [(''version'', LogStr (bv_Version v)), (''commit'', LogStr (bv_Commit v)),
                  (''built'', LogStr (bv_Date v))] lg out;
          out = log_Info ''configuration loaded'' [(''config'', LogStr cfgPath),
                  (''groups'', LogInt (int (length (c_Groups cfg))))] lg out
      in log_Info ''starting''
           [(''upstream'', LogStr (c_Upstream cfg)),
            (''cache_seconds'', LogInt (sgn cacheTTL * (\<bar>cacheTTL\<bar> div time_Second))),
            (''telemetry_sample'', LogStr (Duration_String telemetrySampleInterval)),
            (''telemetry_report'', LogStr (Duration_String telemetryReportInterval))] lg out)"

section \<open>The goroutines of a runtime\<close>

text \<open>
  \<open>main_pc\<close>: the goroutine of \<open>srv.Run\<close>. Inside \<open>Run\<close> the server calls the ready callback,
  which reports first when the configuration asks for telemetry and then marks the runtime ready;
  a server may call it any number of times. After \<open>Run\<close> the goroutine stops the telemetry loop,
  waits for it and sends the result. \<open>tel_pc\<close>: the telemetry loop, absent without debug.
\<close>

datatype main_pc =
    MainRun | MainReport | MainMark | MainStop "goerr option" | MainWait "goerr option"
  | MainSend "goerr option" | MainEnd

datatype tel_pc = TelOff | TelLoop | TelEnd

type_synonym rt_report = "runtime_values \<times> runtime_values \<times> runtime_counters"

text \<open>
  \<open>la_returned\<close> remembers what \<open>Run\<close> returned; \<open>la_done\<close> is the buffer of the done channel and
  \<open>la_received\<close> what the loop took from it. \<open>la_server_reports\<close> counts the reports of the server.
\<close>

record launch =
  la_ctx :: bool
  la_tctx :: bool
  la_main :: main_pc
  la_tel :: tel_pc
  la_once :: bool
  la_closes :: nat
  la_rt :: runtime_telemetry
  la_reports :: "rt_report list"
  la_server_reports :: nat
  la_done :: "goerr option list"
  la_received :: "goerr option option"
  la_returned :: "goerr option option"

definition launch_start :: "config \<Rightarrow> runtime_telemetry \<Rightarrow> launch" where
  "launch_start cfg rt =
     \<lparr>la_ctx = False, la_tctx = False, la_main = MainRun, la_tel = (if c_Debug cfg then TelLoop else TelOff),
      la_once = False, la_closes = 0, la_rt = rt, la_reports = [], la_server_reports = 0, la_done = [],
      la_received = None, la_returned = None\<rparr>"

definition logTelemetry :: "reading \<Rightarrow> launch \<Rightarrow> launch" where
  "logTelemetry rd s =
     (let (report, rt) = rt_logReport rd (la_rt s);
          s = s\<lparr>la_rt := rt, la_reports := la_reports s @ [report]\<rparr>
      in s\<lparr>la_server_reports := la_server_reports s + 1\<rparr>)"

definition ready_callback :: "launch \<Rightarrow> launch" where
  "ready_callback s = s\<lparr>la_main := (if la_tel s = TelOff then MainMark else MainReport)\<rparr>"

definition markReady :: "launch \<Rightarrow> launch" where
  "markReady s = (if la_once s then s else s\<lparr>la_once := True, la_closes := la_closes s + 1\<rparr>)"

inductive launch_step :: "launch \<Rightarrow> launch \<Rightarrow> bool" where
  la_ready: "la_main s = MainRun \<Longrightarrow> launch_step s (ready_callback s)"
| la_report: "la_main s = MainReport \<Longrightarrow> launch_step s ((logTelemetry rd s)\<lparr>la_main := MainMark\<rparr>)"
| la_mark: "la_main s = MainMark \<Longrightarrow> launch_step s ((markReady s)\<lparr>la_main := MainRun\<rparr>)"
| la_return: "la_main s = MainRun \<Longrightarrow> launch_step s (s\<lparr>la_main := MainStop err, la_returned := Some err\<rparr>)"
| la_stop: "la_main s = MainStop err \<Longrightarrow> launch_step s (s\<lparr>la_tctx := True, la_main := MainWait err\<rparr>)"
| la_wait: "la_main s = MainWait err \<Longrightarrow> la_tel s \<noteq> TelLoop \<Longrightarrow> launch_step s (s\<lparr>la_main := MainSend err\<rparr>)"
| la_send: "la_main s = MainSend err \<Longrightarrow> length (la_done s) < 1 \<Longrightarrow>
     launch_step s (s\<lparr>la_done := la_done s @ [err], la_main := MainEnd\<rparr>)"
| la_sample_tick: "la_tel s = TelLoop \<Longrightarrow> launch_step s (s\<lparr>la_rt := sample rd (la_rt s)\<rparr>)"
| la_report_tick: "la_tel s = TelLoop \<Longrightarrow> launch_step s (logTelemetry rd s)"
| la_tel_done: "la_tel s = TelLoop \<Longrightarrow> la_ctx s \<or> la_tctx s \<Longrightarrow> launch_step s (s\<lparr>la_tel := TelEnd\<rparr>)"
| la_cancel: "launch_step s (s\<lparr>la_ctx := True\<rparr>)"
| la_receive: "la_done s = err # rest \<Longrightarrow> launch_step s (s\<lparr>la_done := rest, la_received := Some err\<rparr>)"

definition launch_init :: "config \<Rightarrow> launch \<Rightarrow> bool" where
  "launch_init cfg s \<longleftrightarrow> (\<exists>rt. s = launch_start cfg rt)"

abbreviation launch_reach :: "config \<Rightarrow> launch \<Rightarrow> bool" where
  "launch_reach cfg \<equiv> reach (launch_init cfg) launch_step"

section \<open>The invariant\<close>

fun returned_of :: "main_pc \<Rightarrow> goerr option option" where
  "returned_of (MainStop err) = Some err"
| "returned_of (MainWait err) = Some err"
| "returned_of (MainSend err) = Some err"
| "returned_of _ = None"

definition launch_inv :: "config \<Rightarrow> launch \<Rightarrow> bool" where
  "launch_inv cfg s \<longleftrightarrow>
     la_closes s = (if la_once s then 1 else 0) \<and>
     (la_tel s = TelOff \<longleftrightarrow> \<not> c_Debug cfg) \<and>
     (la_main s \<notin> {MainRun, MainReport, MainMark} \<and> (\<forall>e. la_main s \<noteq> MainStop e) \<longrightarrow> la_tctx s) \<and>
     ((\<exists>e. la_main s = MainSend e) \<or> la_main s = MainEnd \<longrightarrow> la_tel s \<noteq> TelLoop) \<and>
     (la_main s = MainReport \<longrightarrow> c_Debug cfg) \<and>
     (\<not> c_Debug cfg \<longrightarrow> la_reports s = []) \<and>
     (c_Debug cfg \<and> (la_once s \<or> la_main s = MainMark) \<longrightarrow> la_reports s \<noteq> []) \<and>
     length (la_reports s) = la_server_reports s \<and>
     (if la_main s \<in> {MainRun, MainReport, MainMark} then la_returned s = None else la_returned s \<noteq> None) \<and>
     (returned_of (la_main s) \<noteq> None \<longrightarrow> la_returned s = returned_of (la_main s)) \<and>
     (if la_main s = MainEnd
      then (case la_received s of None \<Rightarrow> la_done s = [the (la_returned s)]
            | Some e \<Rightarrow> la_done s = [] \<and> la_returned s = Some e)
      else la_done s = [] \<and> la_received s = None)"

lemmas launch_ops = logTelemetry_def ready_callback_def markReady_def Let_def

lemma launch_step_inv: "launch_step s t \<Longrightarrow> launch_inv cfg s \<Longrightarrow> launch_inv cfg t"
proof (induction rule: launch_step.induct)
  case (la_receive s err rest)
  then show ?case by (auto simp: launch_inv_def split: if_splits option.splits)
qed (auto simp: launch_inv_def launch_ops split: prod.splits if_splits option.splits)

lemma launch_reach_inv: "launch_reach cfg s \<Longrightarrow> launch_inv cfg s"
proof (erule reach_invariant)
  fix s assume "launch_init cfg s"
  then obtain rt where "s = launch_start cfg rt" by (auto simp: launch_init_def)
  then show "launch_inv cfg s" by (simp add: launch_inv_def launch_start_def)
next
  fix s t assume "launch_inv cfg s" "launch_step s t"
  then show "launch_inv cfg t" by (rule launch_step_inv [rotated])
qed

section \<open>What the reload loop can rely on\<close>

lemma launch_invD:
  assumes "launch_inv cfg s"
  shows "la_closes s \<le> 1" "la_tel s = TelOff \<longleftrightarrow> \<not> c_Debug cfg" "\<not> c_Debug cfg \<Longrightarrow> la_reports s = []"
    "c_Debug cfg \<Longrightarrow> la_once s \<Longrightarrow> la_reports s \<noteq> []" "la_once s \<longleftrightarrow> la_closes s = 1"
    "la_done s \<noteq> [] \<or> la_received s \<noteq> None \<Longrightarrow> la_main s = MainEnd \<and> la_tel s \<noteq> TelLoop"
    "\<And>e. la_received s = Some e \<Longrightarrow> la_returned s = Some e" "la_main s = MainReport \<Longrightarrow> c_Debug cfg"
    "length (la_reports s) = la_server_reports s"
  using assms by (auto simp: launch_inv_def split: if_splits option.splits)

text \<open>Once the result is in the channel nothing reports and nothing becomes ready any more.\<close>

lemma launch_quiet:
  assumes "launch_step s t" "la_main s = MainEnd" "la_tel s \<noteq> TelLoop"
  shows "la_reports t = la_reports s \<and> la_server_reports t = la_server_reports s \<and> la_closes t = la_closes s \<and>
    la_main t = MainEnd \<and> la_tel t \<noteq> TelLoop"
  using assms by induction auto

text \<open>
  Property C20. A runtime hands over in order. However the server, the telemetry loop and
  cancellation interleave: the ready channel is closed at most once, and with debug never before
  a first report; without debug nothing is ever reported, and with it the process and the server
  always report together. When the done channel holds the result of \<open>Run\<close>, or it has been taken,
  the telemetry loop has ended and no later step reports, closes the ready channel or starts the
  loop again; the result taken is the one \<open>Run\<close> returned.
\<close>

theorem runtime_handed_over:
  assumes "launch_reach cfg s"
  shows "la_closes s \<le> 1 \<and> (c_Debug cfg \<and> la_closes s = 1 \<longrightarrow> la_reports s \<noteq> []) \<and>
    (\<not> c_Debug cfg \<longrightarrow> la_reports s = []) \<and> length (la_reports s) = la_server_reports s \<and>
    (\<forall>e. la_received s = Some e \<longrightarrow> la_returned s = Some e) \<and>
    (la_done s \<noteq> [] \<or> la_received s \<noteq> None \<longrightarrow> la_tel s \<noteq> TelLoop \<and>
      (\<forall>t. launch_step\<^sup>*\<^sup>* s t \<longrightarrow> la_reports t = la_reports s \<and> la_server_reports t = la_server_reports s \<and>
         la_closes t = la_closes s \<and> la_tel t \<noteq> TelLoop))"
proof -
  note i = launch_invD [OF launch_reach_inv [OF assms]]
  have quiet: "la_reports t = la_reports s \<and> la_server_reports t = la_server_reports s \<and> la_closes t = la_closes s \<and>
      la_main t = MainEnd \<and> la_tel t \<noteq> TelLoop"
    if "launch_step\<^sup>*\<^sup>* s t" "la_main s = MainEnd" "la_tel s \<noteq> TelLoop" for t
    using that by (induction rule: rtranclp_induct) (auto dest: launch_quiet)
  with i show ?thesis by blast
qed

text \<open>
  The steps that take a finished runtime apart: all but ticks of the telemetry loop and
  cancellations, which the code has no control of.
\<close>

inductive launch_progress :: "launch \<Rightarrow> launch \<Rightarrow> bool" where
  lp_stop: "la_main s = MainStop err \<Longrightarrow> launch_progress s (s\<lparr>la_tctx := True, la_main := MainWait err\<rparr>)"
| lp_wait: "la_main s = MainWait err \<Longrightarrow> la_tel s \<noteq> TelLoop \<Longrightarrow> launch_progress s (s\<lparr>la_main := MainSend err\<rparr>)"
| lp_send: "la_main s = MainSend err \<Longrightarrow> length (la_done s) < 1 \<Longrightarrow>
     launch_progress s (s\<lparr>la_done := la_done s @ [err], la_main := MainEnd\<rparr>)"
| lp_tel_done: "la_tel s = TelLoop \<Longrightarrow> la_ctx s \<or> la_tctx s \<Longrightarrow> launch_progress s (s\<lparr>la_tel := TelEnd\<rparr>)"
| lp_receive: "la_done s = err # rest \<Longrightarrow> launch_progress s (s\<lparr>la_done := rest, la_received := Some err\<rparr>)"

fun main_work :: "main_pc \<Rightarrow> nat" where
  "main_work (MainStop err) = 4"
| "main_work (MainWait err) = 3"
| "main_work (MainSend err) = 2"
| "main_work MainEnd = 0"
| "main_work _ = 5"

definition launch_work :: "launch \<Rightarrow> nat" where
  "launch_work s = main_work (la_main s) + (if la_tel s = TelLoop then 1 else 0) + length (la_done s)"

lemma send_empty:
  assumes "la_main s = MainSend err" "la_done s = []"
  shows "launch_step s (s\<lparr>la_done := [err], la_main := MainEnd\<rparr>)"
    "launch_progress s (s\<lparr>la_done := [err], la_main := MainEnd\<rparr>)"
  using la_send [of s err] lp_send [of s err] assms by simp_all

lemma launch_progress_step: "launch_progress s t \<Longrightarrow> launch_step s t"
  by (induction rule: launch_progress.induct) (auto intro: launch_step.intros send_empty)

lemma launch_progress_work: "launch_progress s t \<Longrightarrow> launch_work t < launch_work s"
  by (induction rule: launch_progress.induct) (auto simp: launch_work_def)

lemma launch_step_work:
  "launch_step s t \<Longrightarrow> la_returned s \<noteq> None \<Longrightarrow> launch_inv cfg s \<Longrightarrow>
     la_returned t = la_returned s \<and> (launch_progress s t \<or> launch_work t = launch_work s)"
  by (induction rule: launch_step.induct)
    (auto simp: launch_work_def launch_inv_def logTelemetry_def Let_def split: prod.splits if_splits
      intro: launch_progress.intros send_empty)

lemma launch_can_move:
  assumes "launch_inv cfg s" "la_returned s \<noteq> None" "la_received s = None"
  shows "\<exists>t. launch_progress s t"
proof (cases "la_main s")
  case (MainWait err)
  with assms(1) show ?thesis
    by (cases "la_tel s = TelLoop") (auto simp: launch_inv_def intro: lp_wait lp_tel_done)
next
  case MainEnd
  with assms show ?thesis by (auto simp: launch_inv_def intro: lp_receive)
qed (use assms in \<open>auto simp: launch_inv_def split: if_splits intro: lp_stop lp_send\<close>)

text \<open>
  Property C21. Stopping a runtime terminates: from any reachable state in which \<open>Run\<close> has
  returned and its result has not been taken, some step takes the runtime further apart, whatever
  the telemetry loop is doing; every step either is such a step, which lowers the remaining work
  of at most five, or is a tick or a cancellation, which adds none; and when no such step is left,
  the result has been taken and is the one \<open>Run\<close> returned.
\<close>

theorem runtime_stop_terminates:
  assumes "launch_reach cfg s" "la_returned s = Some err"
  shows "launch_work s \<le> 5 \<and> wfP (\<lambda>t s. launch_progress s t) \<and>
    (\<forall>t. launch_step s t \<longrightarrow> la_returned t = Some err \<and>
       (launch_progress s t \<and> launch_work t < launch_work s \<or> launch_work t = launch_work s)) \<and>
    ((\<exists>t. launch_progress s t \<and> launch_step s t) \<or> la_received s = Some err)"
proof -
  have inv: "launch_inv cfg s" by (rule launch_reach_inv [OF assms(1)])
  have "launch_work s \<le> 5" using inv assms(2)
    by (cases "la_main s") (auto simp: launch_work_def launch_inv_def split: option.splits)
  moreover have "wfP (\<lambda>t s. launch_progress s t)"
    by (rule wfp_if_convertible_to_nat [of _ launch_work]) (rule launch_progress_work)
  moreover have "la_received s = None \<or> la_received s = Some err"
    using launch_invD(7) [OF inv] assms(2) by (cases "la_received s") auto
  ultimately show ?thesis
    using launch_step_work [OF _ _ inv] launch_progress_work launch_can_move [OF inv] launch_progress_step assms(2)
    by (metis option.distinct(1))
qed

definition quiet_config :: config where
  "quiet_config = \<lparr>c_Upstream = ''/run/agent'', c_Debug = False, c_Groups = []\<rparr>"

definition quiet_end :: "runtime_telemetry \<Rightarrow> launch" where
  "quiet_end rt = (launch_start quiet_config rt)\<lparr>la_main := MainStop None, la_returned := Some None\<rparr>"

lemma quiet_end_reach: "launch_reach quiet_config (quiet_end rt)"
proof -
  have "launch_reach quiet_config (launch_start quiet_config rt)"
    by (rule reach_init) (auto simp: launch_init_def)
  then show ?thesis unfolding quiet_end_def by (rule reach_step) (rule la_return, simp add: launch_start_def)
qed

definition quiet_telemetry :: runtime_telemetry where
  "quiet_telemetry = newRuntimeTelemetry 0 (sample_reading 0 0)"

text \<open>A debug runtime that becomes ready, is cancelled, ends and hands over its result.\<close>

definition debug_config :: config where
  "debug_config = quiet_config\<lparr>c_Debug := True\<rparr>"

definition debug_ready :: "reading \<Rightarrow> runtime_telemetry \<Rightarrow> launch" where
  "debug_ready rd rt =
     (markReady ((logTelemetry rd (ready_callback (launch_start debug_config rt)))\<lparr>la_main := MainMark\<rparr>))\<lparr>la_main := MainRun\<rparr>"

definition debug_end :: "reading \<Rightarrow> runtime_telemetry \<Rightarrow> launch" where
  "debug_end rd rt = (debug_ready rd rt)\<lparr>la_ctx := True, la_returned := Some None, la_tctx := True,
     la_tel := TelEnd, la_main := MainEnd, la_received := Some None\<rparr>"

lemma launch_start_sel [simp]:
  "la_main (launch_start cfg rt) = MainRun" "la_tel (launch_start cfg rt) = (if c_Debug cfg then TelLoop else TelOff)"
  "la_done (launch_start cfg rt) = []" "la_once (launch_start cfg rt) = False" "la_closes (launch_start cfg rt) = 0"
  "la_reports (launch_start cfg rt) = []" "la_server_reports (launch_start cfg rt) = 0"
  by (simp_all add: launch_start_def)

lemma debug_ready_sel [simp]:
  "la_main (debug_ready rd rt) = MainRun" "la_tel (debug_ready rd rt) = TelLoop" "la_done (debug_ready rd rt) = []"
  "la_closes (debug_ready rd rt) = 1" "la_server_reports (debug_ready rd rt) = 1"
  by (simp_all add: debug_ready_def debug_config_def launch_ops split: prod.split)

lemma debug_ready_reach: "launch_reach debug_config (debug_ready rd rt)"
proof -
  let ?a = "ready_callback (launch_start debug_config rt)"
  have "launch_reach debug_config (launch_start debug_config rt)"
    by (rule reach_init) (auto simp: launch_init_def)
  then have "launch_reach debug_config ?a" by (rule reach_step) (rule la_ready, simp)
  then have "launch_reach debug_config ((logTelemetry rd ?a)\<lparr>la_main := MainMark\<rparr>)"
    by (rule reach_step) (rule la_report, simp add: ready_callback_def debug_config_def)
  then show ?thesis unfolding debug_ready_def by (rule reach_step) (rule la_mark, simp)
qed

lemma debug_end_reach: "launch_reach debug_config (debug_end rd rt)"
proof -
  let ?r = "debug_ready rd rt"
  let ?s = "?r\<lparr>la_ctx := True, la_main := MainStop None, la_returned := Some None\<rparr>"
  let ?w = "?s\<lparr>la_tctx := True, la_main := MainWait None\<rparr>"
  let ?e = "?w\<lparr>la_tel := TelEnd, la_main := MainSend None\<rparr>"
  have "launch_reach debug_config (?r\<lparr>la_ctx := True\<rparr>)"
    by (rule reach_step [OF debug_ready_reach]) (rule la_cancel)
  then have "launch_reach debug_config ?s" by (rule reach_step) (rule la_return, simp)
  then have "launch_reach debug_config ?w" by (rule reach_step) (rule la_stop, simp)
  then have "launch_reach debug_config (?w\<lparr>la_tel := TelEnd\<rparr>)"
    by (rule reach_step) (rule la_tel_done, simp_all)
  then have "launch_reach debug_config ?e" by (rule reach_step) (rule la_wait, simp_all)
  then have "launch_reach debug_config (?e\<lparr>la_done := [None], la_main := MainEnd\<rparr>)"
    by (rule reach_step) (rule send_empty, simp_all)
  then have "launch_reach debug_config ((?e\<lparr>la_done := [None], la_main := MainEnd\<rparr>)\<lparr>la_done := [], la_received := Some None\<rparr>)"
    by (rule reach_step) (rule la_receive, simp)
  also have "(?e\<lparr>la_done := [None], la_main := MainEnd\<rparr>)\<lparr>la_done := [], la_received := Some None\<rparr> = debug_end rd rt"
    by (rule launch.equality) (simp_all add: debug_end_def)
  finally show ?thesis .
qed

theorem runtime_handed_over_witness:
  "let s = debug_ready (sample_reading 0 0) quiet_telemetry; e = debug_end (sample_reading 0 0) quiet_telemetry
   in la_closes s = 1 \<and> la_reports s \<noteq> [] \<and> la_closes e = 1 \<and> la_server_reports e = 1 \<and>
      la_received e = Some None \<and> la_returned e = Some None \<and> la_tel e \<noteq> TelLoop \<and>
      la_reports (e\<lparr>la_ctx := True\<rparr>) = la_reports e"
proof -
  let ?s = "debug_ready (sample_reading 0 0) quiet_telemetry"
  let ?e = "debug_end (sample_reading 0 0) quiet_telemetry"
  note ready = runtime_handed_over [OF debug_ready_reach [of "sample_reading 0 0" quiet_telemetry]]
  note ended = runtime_handed_over [OF debug_end_reach [of "sample_reading 0 0" quiet_telemetry]]
  have debug: "c_Debug debug_config" by (simp add: debug_config_def)
  have e: "la_received ?e = Some None" "la_closes ?e = 1" "la_server_reports ?e = 1"
    by (simp_all add: debug_end_def)
  have "la_reports ?s \<noteq> []" using ready debug by (simp del: One_nat_def)
  moreover have "launch_step\<^sup>*\<^sup>* ?e (?e\<lparr>la_ctx := True\<rparr>)" by (rule r_into_rtranclp, rule la_cancel)
  with ended e have "la_returned ?e = Some None \<and> la_tel ?e \<noteq> TelLoop \<and> la_reports (?e\<lparr>la_ctx := True\<rparr>) = la_reports ?e"
    by blast
  ultimately show ?thesis using e unfolding Let_def by (simp only: debug_ready_sel simp_thms)
qed

theorem runtime_stop_terminates_witness:
  "launch_work (quiet_end quiet_telemetry) = 4 \<and> wfP (\<lambda>t s. launch_progress s t)"
proof -
  have "la_returned (quiet_end quiet_telemetry) = Some None" by (simp add: quiet_end_def)
  from runtime_stop_terminates [OF quiet_end_reach this] show ?thesis
    by (simp add: launch_work_def quiet_end_def launch_start_def quiet_config_def)
qed

end
