(* ===== verification/Answering.thy ===== *)
theory Answering
  imports FilterAgent UpstreamLaws
begin

text \<open>
  Every request of a client is answered. The contract \<open>answering_source\<close> extends
  \<open>agent_source\<close>: in a live state the list and sign calls return, in a live state again. The
  reconnecting client meets it because its watchdog is on, the cache over an answering source
  answers because no refresh is left in flight, and the agent of a group over an answering
  source answers every request, refused ones included.
\<close>

section \<open>The contract\<close>

locale answering_source = agent_source up wire uinv tel
  for up :: "'u extended_agent" and wire :: "'u \<Rightarrow> wire_event list" and uinv :: "'u \<Rightarrow> bool"
    and tel :: "(proxy_telemetry \<Rightarrow> proxy_telemetry) \<Rightarrow> 'u \<Rightarrow> 'u" +
  fixes live :: "'u \<Rightarrow> bool"
  assumes live_inv: "live u \<Longrightarrow> uinv u"
    and tel_live: "live u \<Longrightarrow> live (tel h u)"
    and list_answers: "live u \<Longrightarrow> ag_List up u \<noteq> None"
    and list_live: "live u \<Longrightarrow> ag_List up u = Some (res, u') \<Longrightarrow> live u'"
    and sign_answers: "live u \<Longrightarrow> ag_SignWithFlags up k d f u \<noteq> None"
    and sign_live: "live u \<Longrightarrow> ag_SignWithFlags up k d f u = Some (sig, u') \<Longrightarrow> live u'"
begin

lemma list_returns: "live u \<Longrightarrow> \<exists>res u'. ag_List up u = Some (res, u') \<and> live u'"
  using list_answers list_live by fastforce

lemma sign_returns: "live u \<Longrightarrow> \<exists>sig u'. ag_SignWithFlags up k d f u = Some (sig, u') \<and> live u'"
  using sign_answers sign_live by fastforce

end

section \<open>The cache\<close>

locale answering_cache = answering_source up wire uinv tel live + cached_source up wire uinv tel now
  for up :: "'u extended_agent" and wire :: "'u \<Rightarrow> wire_event list" and uinv :: "'u \<Rightarrow> bool"
    and tel :: "(proxy_telemetry \<Rightarrow> proxy_telemetry) \<Rightarrow> 'u \<Rightarrow> 'u" and live :: "'u \<Rightarrow> bool" and now :: "'u \<Rightarrow> nat"
begin

definition cached_live :: "cache_core \<times> 'u \<Rightarrow> bool" where
  "cached_live = (\<lambda>(c, u). cached_inv wire uinv (c, u) \<and> live u)"

lemma cached_list_returns:
  assumes "cached_live (c, u)"
  shows "\<exists>res c' u'. cached_List tel now up (c, u) = Some (res, (c', u')) \<and> live u'"
proof -
  from assms have l: "live u" and idle: "ca_inFlight c = None" by (simp_all add: cached_live_def cached_inv_def)
  from list_returns [OF tel_live [OF tel_live [OF l]]] obtain res u' where
    call: "ag_List up (tel addCacheRefresh (tel addCacheMiss u)) = Some (res, u')" "live u'" by blast
  obtain e c1 where en: "cache_enter (now u) c = (e, c1)" by fastforce
  show ?thesis
  proof (cases "ca_ttl c \<le> 0")
    case True
    with call show ?thesis by (simp add: cached_List_def)
  next
    case False
    from en show ?thesis
    proof (cases rule: cache_enter_cases)
      case hit
      with False en tel_live [OF l] show ?thesis by (simp add: cached_List_def)
    next
      case fetch
      with False en call show ?thesis by (simp add: cached_List_def split: prod.split)
    qed (use idle in simp)
  qed
qed

end

sublocale answering_cache \<subseteq> cached_answers: answering_source "cachedAgent tel now up" "\<lambda>(c, u). wire u"
  "cached_inv wire uinv" "\<lambda>f (c, u). (c, tel f u)" cached_live
proof unfold_locales
  fix x assume "cached_live x"
  then show "cached_inv wire uinv x" by (cases x) (simp add: cached_live_def)
next
  fix f and x :: "cache_core \<times> 'u" assume "cached_live x"
  then show "cached_live (case x of (c, u) \<Rightarrow> (c, tel f u))"
    by (cases x) (simp add: cached_live_def cached_inv_def tel_inv tel_live)
next
  fix x assume "cached_live x"
  then show "ag_List (cachedAgent tel now up) x \<noteq> None"
    using cached_list_returns by (cases x) fastforce
next
  fix x res x' assume a: "cached_live x" "ag_List (cachedAgent tel now up) x = Some (res, x')"
  obtain c u c' u' where x: "x = (c, u)" "x' = (c', u')" by fastforce
  with a have "cached_inv wire uinv (c', u')" using cached_List_spec by (auto simp: cached_live_def)
  moreover have "live u'" using cached_list_returns [of c u] a x by auto
  ultimately show "cached_live x'" by (simp add: cached_live_def x)
next
  fix x k d f assume "cached_live x"
  then obtain c u where x: "x = (c, u)" "live u" by (cases x) (simp add: cached_live_def)
  from sign_returns [OF x(2)] obtain sig u' where "ag_SignWithFlags up k d f u = Some (sig, u')" by blast
  with x(1) show "ag_SignWithFlags (cachedAgent tel now up) k d f x \<noteq> None" by (simp add: on_up_def)
next
  fix x k d f sig x' assume a: "cached_live x" "ag_SignWithFlags (cachedAgent tel now up) k d f x = Some (sig, x')"
  then have "cached_inv wire uinv x" by (cases x) (simp add: cached_live_def)
  from cached.sign_inv [OF this a(2)] have "cached_inv wire uinv x'" .
  moreover from a obtain c u u' where "x = (c, u)" "x' = (c, u')" "ag_SignWithFlags up k d f u = Some (sig, u')" "live u"
    by (cases x) (auto simp: cached_live_def on_up_def bind_eq_Some_conv)
  ultimately show "cached_live x'" using sign_live by (auto simp: cached_live_def)
qed

section \<open>The agent of a group\<close>

locale answering_filter = answering_source up wire uinv tel live + filtered_source up wire uinv tel fp
  for up :: "'u extended_agent" and wire :: "'u \<Rightarrow> wire_event list" and uinv :: "'u \<Rightarrow> bool"
    and tel :: "(proxy_telemetry \<Rightarrow> proxy_telemetry) \<Rightarrow> 'u \<Rightarrow> 'u" and live :: "'u \<Rightarrow> bool" and fp :: fingerprints
begin

text \<open>A refresh an idle group starts is completed before anyone looks at its result.\<close>

lemma own_refresh_returns:
  assumes "ga_inFlight a = None" "live u" "joinRefreshLocked trigger a = ((r, owner), a1)"
  shows "\<exists>a2 u2 refresh. owner \<and> runRefresh fp up r (a1, u) = Some (a2, u2) \<and> await_refresh r a2 = Some refresh \<and> live u2"
proof -
  from list_returns [OF assms(2)] obtain res u2 where l: "ag_List up u = Some (res, u2)" "live u2" by blast
  from assms(1,3) have "owner" "r < length (ga_refreshes a1)" by (auto simp: join_idle)
  with l show ?thesis by (auto simp: runRefresh_def await_refresh_def)
qed

lemma authorization_list_returns:
  assumes "ga_inFlight a = None" "live u"
  shows "\<exists>res a' u'. authorization_list fp up (a, u) = Some (res, (a', u')) \<and> live u'"
proof -
  obtain r owner a1 where j: "joinRefreshLocked ''client-list'' a = ((r, owner), a1)" by (metis surj_pair)
  from own_refresh_returns [OF assms j] j show ?thesis by (auto simp: authorization_list_def)
qed

lemma authorize_returns:
  assumes "ga_inFlight a = None" "live u"
  shows "\<exists>res a' u'. authorize fp up k (a, u) = Some (res, (a', u')) \<and> live u'"
proof (cases "allows a k")
  case True
  with assms show ?thesis by (simp add: authorize_def)
next
  case False
  obtain r owner a1 where j: "joinRefreshLocked ''sign-miss'' a = ((r, owner), a1)" by (metis surj_pair)
  from own_refresh_returns [OF assms j] j False show ?thesis by (auto simp: authorize_def recheck_or_join_def)
qed

lemma filter_List_returns:
  assumes "ga_inFlight a = None" "live u"
  shows "\<exists>res a' u'. filter_List tel fp up (a, u) = Some (res, (a', u')) \<and> live u'"
proof -
  from authorization_list_returns [OF assms(1) tel_live [OF assms(2)]] obtain res a' u' where
    "authorization_list fp up (a, tel addListRequest u) = Some (res, (a', u'))" "live u'" by blast
  then show ?thesis by (cases res) (auto simp: filter_List_def tel_live)
qed

lemma filter_Sign_returns:
  assumes "ga_inFlight a = None" "live u"
  shows "\<exists>res a' u'. filter_SignWithFlags tel fp up k d f (a, u) = Some (res, (a', u')) \<and> live u'"
proof -
  from authorize_returns [OF assms(1) tel_live [OF assms(2)]] obtain res a' u' where
    a: "authorize fp up k (a, tel addSignRequest u) = Some (res, (a', u'))" "live u'" by blast
  from sign_returns [OF a(2)] obtain sig u2 where s: "ag_SignWithFlags up k d f u' = Some (sig, u2)" "live u2" by blast
  show ?thesis
  proof (cases "res = Inr True")
    case True
    with a s show ?thesis by (cases sig) (auto simp: filter_SignWithFlags_def tel_live)
  next
    case False
    with a show ?thesis by (cases res) (auto simp: filter_SignWithFlags_def tel_live)
  qed
qed

lemma serve_returns:
  assumes "ok (a, u)" "live u"
  shows "\<exists>a' u'. serve (filterAgent tel fp up) q (a, u) = Some (a', u') \<and> live u'"
proof -
  from assms(1) have idle: "ga_inFlight a = None" by (simp add: ok_def auth_inv_def)
  note sign = filter_Sign_returns [OF idle assms(2)]
  show ?thesis
  proof (cases q)
    case ReqList
    with filter_List_returns [OF idle assms(2)] show ?thesis by (auto simp: filterAgent_def)
  next
    case (ReqSign k d)
    with sign [of k d 0] show ?thesis by (auto simp: filterAgent_def filter_Sign_def)
  next
    case (ReqSignWithFlags k d f)
    with sign [of k d f] show ?thesis by (auto simp: filterAgent_def)
  qed (use assms(2) in \<open>simp_all add: filterAgent_def refuse_def\<close>)
qed

end

section \<open>The program's stack\<close>

text \<open>The reconnecting client is live while its watchdog is on.\<close>

definition rc_live :: "reconnect_client \<Rightarrow> bool" where
  "rc_live r \<longleftrightarrow> rc_inv r \<and> 0 < rc_requestTimeout r"

lemma reconnect_agent_sel [simp]:
  "ag_List reconnect_agent = rc_List" "ag_SignWithFlags reconnect_agent = rc_SignWithFlags"
  by (simp_all add: reconnect_agent_def)

interpretation rc_answers: answering_cache reconnect_agent rc_wire rc_inv rc_tel rc_live rc_now
proof unfold_locales
  fix u assume "rc_live u"
  then show "rc_inv u" by (simp add: rc_live_def)
next
  fix h u assume "rc_live u"
  then show "rc_live (rc_tel h u)" by (simp add: rc_live_def)
next
  fix u assume "rc_live u"
  then show "ag_List reconnect_agent u \<noteq> None" by (simp add: rc_live_def rc_List_returns)
next
  fix u res u' assume "rc_live u" "ag_List reconnect_agent u = Some (res, u')"
  then show "rc_live u'" using rc_List_frame [of u res u'] by (auto simp: rc_live_def dest: frame_timeout)
next
  fix u k d f assume "rc_live u"
  then show "ag_SignWithFlags reconnect_agent k d f u \<noteq> None"
    by (simp add: rc_live_def rc_SignWithFlags_def rc_sign_returns)
next
  fix u k d f sig u' assume "rc_live u" "ag_SignWithFlags reconnect_agent k d f u = Some (sig, u')"
  then show "rc_live u'" using rc_sign_frame [of "ReqSignWithFlags k d f" u sig u']
    by (auto simp: rc_live_def rc_SignWithFlags_def dest: frame_timeout)
qed

definition stack_live :: "cache_core \<times> reconnect_client \<Rightarrow> bool" where
  "stack_live = rc_answers.cached_live"

interpretation stack_answers: answering_filter upstream_stack stack_wire stack_inv stack_tel stack_live fp for fp
  unfolding upstream_stack_def stack_wire_def stack_inv_def stack_tel_def stack_live_def
  by (intro answering_filter.intro filtered_source.intro rc_answers.cached_answers.answering_source_axioms
      chain.cached.agent_source_axioms)

lemma stack_live_new: "rc_live r \<Longrightarrow> stack_live (newCachedAgent ttl, r)"
  unfolding stack_live_def rc_answers.cached_live_def
  by (simp add: rc_live_def cached_inv_def core_inv_new) (simp add: newCachedAgent_def)

end
