(* ===== verification/Program.thy ===== *)
theory Program
  imports GroupServing Answering
begin

text \<open>
  The parts put together: a configuration \<open>Load\<close> accepted, the server \<open>NewServer\<close> makes for it
  (\<open>internal/proxy/server.go\<close>) over an upstream agent that may do anything, the startup listing,
  and the requests of the clients of every enabled group.
\<close>

section \<open>The server\<close>

definition dialTimeout :: int where "dialTimeout = 10 * 1000000000"
definition upstreamRequestTimeout :: int where "upstreamRequestTimeout = 60 * 1000000000"
definition socketProbeTimeout :: int where "socketProbeTimeout = 1000000000"

text \<open>The fields of \<open>Server\<close> that are not function values; \<open>Clients\<close> has the client fields.\<close>

record server =
  sv_upstream :: string
  sv_cacheTTL :: int
  sv_log :: logger
  sv_requestTimeout :: int
  sv_onReady :: bool
  sv_telemetry :: "proxy_telemetry option"

definition NewServer :: "string \<Rightarrow> int \<Rightarrow> logger \<Rightarrow> server" where
  "NewServer upstream cacheTTL lg =
     (let s = \<lparr>sv_upstream = upstream, sv_cacheTTL = cacheTTL, sv_log = lg, sv_requestTimeout = 0, sv_onReady = False,
               sv_telemetry = newProxyTelemetry (log_Enabled LevelDebug lg)\<rparr>
      in s\<lparr>sv_requestTimeout := upstreamRequestTimeout\<rparr>)"

definition SetReadyCallback :: "server \<Rightarrow> server" where
  "SetReadyCallback s = s\<lparr>sv_onReady := True\<rparr>"

definition LogTelemetry :: "server \<Rightarrow> u64 list option \<times> server" where
  "LogTelemetry s =
     (case sv_telemetry s of
        None \<Rightarrow> (None, s)
      | Some t \<Rightarrow> (let (vals, t) = logReport t in (Some vals, s\<lparr>sv_telemetry := Some t\<rparr>)))"

text \<open>
  What \<open>Run\<close> serves from: the client for the upstream socket with the server's request timeout,
  under a fresh cache. \<open>w\<close> is the upstream agent and the clock; the server's counters are its own.
\<close>

definition server_stack :: "server \<Rightarrow> world \<Rightarrow> cache_core \<times> reconnect_client" where
  "server_stack s w =
     (let rc = newReconnectClient 0 (w\<lparr>w_tel := sv_telemetry s\<rparr>);
          rc = rc\<lparr>rc_requestTimeout := sv_requestTimeout s\<rparr>
      in (newCachedAgent (sv_cacheTTL s), rc))"

definition start_serving ::
  "fingerprints \<Rightarrow> bool \<Rightarrow> server \<Rightarrow> group list \<Rightarrow> world \<Rightarrow> log_record list \<Rightarrow>
   (enriched_group list \<times> (cache_core \<times> reconnect_client) \<times> log_record list) option" where
  "start_serving fp cancelled s groups w out =
     (let enabledGroups = filter IsEnabled groups
      in resolveStartup fp cancelled (sv_log s) upstream_stack (map enrich enabledGroups, server_stack s w, out))"

section \<open>Where it starts\<close>

lemma server_stack_new:
  "server_stack s w = (newCachedAgent (sv_cacheTTL s), newReconnectClient (sv_requestTimeout s) (w\<lparr>w_tel := sv_telemetry s\<rparr>))"
  by (simp add: server_stack_def newReconnectClient_def)

lemma NewServer_sel [simp]:
  "sv_requestTimeout (NewServer up ttl lg) = upstreamRequestTimeout" "sv_cacheTTL (NewServer up ttl lg) = ttl"
  "sv_log (NewServer up ttl lg) = lg"
  by (simp_all add: NewServer_def)

lemma serve_at_length: "serve_at fp i q s = Some t \<Longrightarrow> length (fst t) = length (fst s) \<and> i < length (fst s)"
  by (auto simp: serve_at_def bind_eq_Some_conv split: prod.splits if_splits)

lemma serve_all_index:
  "serve_all fp rqs s = Some (trace, t) \<Longrightarrow> \<forall>(i, evs) \<in> set trace. i < length (fst s)"
proof (induction rqs arbitrary: s trace)
  case (Cons iq rqs)
  obtain i q where iq: "iq = (i, q)" by fastforce
  with Cons.prems obtain s' trace' where s': "serve_at fp i q s = Some s'" "serve_all fp rqs s' = Some (trace', t)"
    and tr: "trace = (i, drop (length (stack_wire (snd s))) (stack_wire (snd s'))) # trace'"
    by (auto simp: bind_eq_Some_conv)
  from Cons.IH [OF s'(2)] serve_at_length [OF s'(1)] show ?case by (auto simp: tr)
qed simp

lemma start_serving_ok:
  assumes "start_serving fp cancelled s groups w out = Some (egs, u, out')"
  shows "groups_ok fp (map Matchers (filter IsEnabled groups)) (egs, u) \<and> list_only (rc_wire (snd (server_stack s w))) (stack_wire u) \<and>
    length egs = length (filter IsEnabled groups)"
proof -
  let ?r = "newReconnectClient (sv_requestTimeout s) (w\<lparr>w_tel := sv_telemetry s\<rparr>)"
  have "groups_ok fp (map Matchers (filter IsEnabled groups)) (egs, u) \<and> list_only (rc_wire ?r) (stack_wire u)"
    using assms by (intro resolveStartup_ok [OF run_new]) (simp add: start_serving_def server_stack_new)
  moreover from this have "length egs = length (filter IsEnabled groups)"
    unfolding groups_ok_def by (auto dest!: arg_cong [of _ _ length])
  ultimately show ?thesis by (simp add: server_stack_new)
qed

text \<open>The matchers of a loaded group are its key entries, compiled.\<close>

lemma loaded_matchers:
  assumes "Load readFile yamlDecode evalsym ulower path = Inr c" "g \<in> set (c_Groups c)" "m \<in> set (Matchers g)"
  shows "\<exists>ke \<in> set (g_Keys g). ke_matcher ulower ke = Inr m"
proof -
  from assms(1) obtain cfg where "config_valid evalsym ulower cfg" "c = resolved ulower cfg"
    by (auto simp: Load_def resolve_spec_lemma split: sum.splits)
  with assms(2) obtain g0 where g: "g = resolved_group ulower g0" "group_valid evalsym ulower g0"
    by (auto simp: resolved_def config_valid_def list_all_iff)
  with assms(3) obtain ke where "ke \<in> set (g_Keys g0)" "m = projr (ke_matcher ulower ke)"
    by (auto simp: Matchers_def resolved_group_def)
  with g show ?thesis by (intro bexI [of _ ke]) (auto simp: group_valid_def list_all_iff resolved_group_def is_ok_def)
qed

section \<open>Every request is answered\<close>

lemma serve_at_returns:
  assumes "groups_ok fp mss (egs, u)" "stack_live u" "i < length egs"
  shows "\<exists>egs' u'. serve_at fp i q (egs, u) = Some (egs', u') \<and> stack_live u'"
  using stack_answers.serve_returns [OF groups_ok_at(1) [OF assms(1,3)] assms(2), of q] assms(3)
  by (fastforce simp: serve_at_def group_agent_def)

lemma serve_all_returns:
  assumes "groups_ok fp mss (egs, u)" "stack_live u" "\<forall>(i, q) \<in> set rqs. i < length egs"
  shows "\<exists>trace s. serve_all fp rqs (egs, u) = Some (trace, s) \<and> length trace = length rqs"
  using assms
proof (induction rqs arbitrary: egs u)
  case (Cons iq rqs)
  obtain i q where iq: "iq = (i, q)" by fastforce
  with Cons.prems(3) have i: "i < length egs" by simp
  from serve_at_returns [OF Cons.prems(1,2) i, of q] obtain egs' u' where
    s: "serve_at fp i q (egs, u) = Some (egs', u')" "stack_live u'" by blast
  from serve_at_grows [OF Cons.prems(1) s(1)] have ok: "groups_ok fp mss (egs', u')" by simp
  from serve_at_length [OF s(1)] Cons.prems(3) have "\<forall>(i, q) \<in> set rqs. i < length egs'" by simp
  from Cons.IH [OF ok s(2) this] s iq show ?case by auto
qed simp

lemma start_serving_returns:
  assumes "0 < sv_requestTimeout s"
  shows "\<exists>egs u out'. start_serving fp cancelled s groups w out = Some (egs, u, out') \<and> stack_live u"
proof -
  have "rc_live (newReconnectClient (sv_requestTimeout s) (w\<lparr>w_tel := sv_telemetry s\<rparr>))"
    using assms rc_run_inv [OF run_new] by (simp add: rc_live_def) (simp add: newReconnectClient_def)
  then have "stack_live (server_stack s w)" unfolding server_stack_new by (rule stack_live_new)
  from stack_answers.list_returns [OF this] show ?thesis
    by (auto simp: start_serving_def resolveStartup_def Let_def)
qed

section \<open>What the whole program promises\<close>

text \<open>
  Property C1. The configuration decides which keys are used. For a configuration \<open>Load\<close>
  accepted, and the requests of the clients of all its enabled groups, served one after another
  in any order: what a request on the socket of a group causes upstream is list requests, and signing requests for a key that
  the upstream agent listed and that an entry of this very group in the configuration selects;
  nothing else than the startup listing and these requests is ever written to the agent.
\<close>

theorem configured_keys_only:
  assumes "Load readFile yamlDecode evalsym ulower path = Inr c"
    and "start_serving fp cancelled (NewServer (c_Upstream c) ttl lg) (c_Groups c) w out = Some (egs, u, out')"
    and "serve_all fp rqs (egs, u) = Some (trace, egs', u')"
  shows "set (requests (drop (length (w_wire w)) (stack_wire u))) \<subseteq> {ReqList} \<and>
    stack_wire u' = stack_wire u @ concat (map snd trace) \<and> map fst trace = map fst rqs \<and>
    (\<forall>(i, evs) \<in> set trace. \<forall>q \<in> set (requests evs). q = ReqList \<or>
       (\<exists>g ke m k d f ks key. g = filter IsEnabled (c_Groups c) ! i \<and> ke \<in> set (g_Keys g) \<and> ke_matcher ulower ke = Inr m \<and>
          q = ReqSignWithFlags k d f \<and> ks \<in> listings (stack_wire u') \<and> key \<in> set ks \<and> k_Blob key = k \<and> Matches fp m key))"
proof -
  let ?gs = "filter IsEnabled (c_Groups c)"
  from start_serving_ok [OF assms(2)] have ok: "groups_ok fp (map Matchers ?gs) (egs, u)"
    and w: "list_only (w_wire w) (stack_wire u)" and len: "length egs = length ?gs"
    by (auto simp: server_stack_def newReconnectClient_def rc_wire_def)
  note grown = serve_all_grows [OF ok assms(3)]
  have "q = ReqList \<or> (\<exists>g ke m k d f ks key. g = ?gs ! i \<and> ke \<in> set (g_Keys g) \<and> ke_matcher ulower ke = Inr m \<and>
      q = ReqSignWithFlags k d f \<and> ks \<in> listings (stack_wire u') \<and> key \<in> set ks \<and> k_Blob key = k \<and> Matches fp m key)"
    if "(i, evs) \<in> set trace" "q \<in> set (requests evs)" for i evs q
  proof -
    from that grown have p: "permitted fp (map Matchers ?gs ! i) (stack_wire u') q" by auto
    from serve_all_index [OF assms(3)] that(1) len have i: "i < length ?gs" by auto
    then have "?gs ! i \<in> set (c_Groups c)" by (metis filter_is_subset nth_mem subsetD)
    with p i loaded_matchers [OF assms(1)] show ?thesis by (cases q) (fastforce simp: in_group_def)+
  qed
  with grown w show ?thesis by (auto simp: list_only_def)
qed

text \<open>
  Property C2. Every request is answered, even by an upstream agent that never answers, closes
  connections or fails at will: a server made by \<open>NewServer\<close> gets past its startup listing, and
  answers every request of every client of every enabled group, served one after another in
  whatever order they come. A request the agent leaves unanswered returns only because the
  watchdog has closed its connection.
\<close>

theorem requests_answered:
  assumes "\<forall>(i, q) \<in> set rqs. i < length (filter IsEnabled groups)"
  shows "\<exists>egs u out' trace s. start_serving fp cancelled (NewServer upstream ttl lg) groups w out = Some (egs, u, out') \<and>
    serve_all fp rqs (egs, u) = Some (trace, s) \<and> length trace = length rqs"
proof -
  have "0 < sv_requestTimeout (NewServer upstream ttl lg)" by (simp add: upstreamRequestTimeout_def)
  from start_serving_returns [OF this] obtain egs u out' where
    s: "start_serving fp cancelled (NewServer upstream ttl lg) groups w out = Some (egs, u, out')" "stack_live u" by blast
  note ok = start_serving_ok [OF s(1)]
  with assms have "\<forall>(i, q) \<in> set rqs. i < length egs" by simp
  with serve_all_returns [OF conjunct1 [OF ok] s(2)] s(1) show ?thesis by blast
qed

section \<open>A configuration and its clients\<close>

text \<open>The sample configuration over an agent that lists one key, which both groups select.\<close>

definition served_config :: config where
  "served_config = resolved id sample_config"

lemma served_config_loaded: "Load (\<lambda>p. Inr []) (\<lambda>d. Inr sample_config) no_files id ''cfg'' = Inr served_config"
  by (simp add: Load_def resolve_spec_lemma sample_config_valid served_config_def)

lemma served_groups: "filter IsEnabled (c_Groups served_config) = map (resolved_group id) [sample_group ''w'' ''/w/../x'', sample_group ''p'' ''/p'']"
proof -
  have "IsEnabled (sample_group n s)" for n s by (simp add: IsEnabled_def sample_group_def)
  then show ?thesis by (simp add: served_config_def resolved_def sample_config_def)
qed

lemma served_matchers: "Matchers (resolved_group id (sample_group n s)) = laptop_only"
  by (simp add: Matchers_def resolved_group_def sample_group_def ke_matcher_def NewMatcher_def laptop_only_def match_type_defs)

lemma served_sample:
  "\<exists>egs u out' trace egs' u'.
     start_serving group_fps False (NewServer (c_Upstream served_config) 10 (newLogger False)) (c_Groups served_config)
       (rc_world new_client) [] = Some (egs, u, out') \<and>
     serve_all group_fps sample_requests (egs, u) = Some (trace, egs', u') \<and>
     map (requests \<circ> snd) trace =
       [[ReqSignWithFlags ''blob'' ''data'' 0], [ReqSignWithFlags ''blob'' ''data'' 0], []]"
  using served_matchers [unfolded Matchers_def]
  by (simp add: start_serving_def served_groups NewServer_def server_stack_def upstreamRequestTimeout_def serving_samples
      newProxyTelemetry_def)

theorem configured_keys_only_witness:
  "\<exists>egs u out' trace egs' u'.
     start_serving group_fps False (NewServer (c_Upstream served_config) 10 (newLogger False)) (c_Groups served_config)
       (rc_world new_client) [] = Some (egs, u, out') \<and>
     serve_all group_fps sample_requests (egs, u) = Some (trace, egs', u') \<and>
     map (requests \<circ> snd) trace =
       [[ReqSignWithFlags ''blob'' ''data'' 0], [ReqSignWithFlags ''blob'' ''data'' 0], []] \<and>
     stack_wire u' = stack_wire u @ concat (map snd trace)"
proof -
  obtain egs u out' trace egs' u' where s:
    "start_serving group_fps False (NewServer (c_Upstream served_config) 10 (newLogger False)) (c_Groups served_config)
       (rc_world new_client) [] = Some (egs, u, out')"
    "serve_all group_fps sample_requests (egs, u) = Some (trace, egs', u')"
    "map (requests \<circ> snd) trace =
       [[ReqSignWithFlags ''blob'' ''data'' 0], [ReqSignWithFlags ''blob'' ''data'' 0], []]"
    using served_sample by (elim exE conjE) (rule that)
  from configured_keys_only [OF served_config_loaded s(1,2)] s show ?thesis
    by (intro exI [of _ egs] exI [of _ u] exI [of _ out'] exI [of _ trace] exI [of _ egs'] exI [of _ u']) simp
qed

theorem requests_answered_witness:
  "\<exists>egs u out' trace s. start_serving group_fps False (NewServer ''/agent'' 0 (newLogger False)) (c_Groups served_config)
       (rc_world new_client) [] = Some (egs, u, out') \<and>
     serve_all group_fps sample_requests (egs, u) = Some (trace, s) \<and> length trace = length sample_requests"
  by (rule requests_answered) (simp add: sample_requests_def served_groups)

end
