(* ===== verification/Spec2Isabelle.thy ===== *)
theory Spec2Isabelle
  imports Config FilterAgent AuthorizationLaws CacheLaws UpstreamLaws Telemetry SocketLock SocketFiles
    ReloadLaws Server ClientsLive Service Launchd Diag RuntimeTelemetry ListKeys MainCLI UpstreamConc
    UpstreamLog AuditLog GroupServing RuntimeLaunch PeerCreds Logging Program
begin

text \<open>
  A verification development for \<open>ssh-agent-proxy\<close>, a filtering proxy in front of an SSH
  agent: for each configured group it serves a Unix socket on which only the keys of the
  group are visible and usable, over one shared connection to the upstream agent.

  \<^bold>\<open>The program and the theories.\<close> Sources are named relative to \<open>src/internal\<close>.

  \<^item> \<open>config/config.go\<close>, theory \<open>Config\<close>: a configuration file decoded to records is checked
    and completed by \<open>resolve\<close>; no two enabled groups share a socket after \<open>canonicalSocketPath\<close>.
    \<open>keys/keys.go\<close>, theory \<open>Keys\<close>: selectors, the filter of a key list and the allow set.

  \<^item> A client's connection is served by \<open>filterAgent\<close> (\<open>proxy/agent.go\<close>, theory \<open>FilterAgent\<close>).
    It asks the group's authorization state (\<open>proxy/authorization.go\<close>, theories
    \<open>Authorization\<close>, \<open>AuthorizationConc\<close>, \<open>AuthorizationLaws\<close>) for the visible keys, which lists
    through the identity cache (\<open>proxy/cache.go\<close>, theories \<open>Cache\<close>, \<open>CacheLaws\<close>), which lists
    through the reconnecting client (\<open>proxy/upstream.go\<close>, theories \<open>Upstream\<close>, \<open>UpstreamLaws\<close>, and
    \<open>UpstreamConc\<close> for its connection pointer under concurrency). Each layer is an \<open>extended_agent\<close>
    record of operations (\<open>AgentIface\<close>); the contract between a layer and the next is the locale
    \<open>agent_source\<close>, extended by \<open>cached_source\<close> and \<open>filtered_source\<close>, and by \<open>answering_source\<close>,
    \<open>answering_cache\<close> and \<open>answering_filter\<close> (theory \<open>Answering\<close>) for calls that return; all are
    interpreted on the layers of the program. \<open>proxy/telemetry.go\<close> is theory \<open>Telemetry\<close>.

  \<^item> \<open>proxy/server.go\<close>: the life of \<open>Run\<close> and the accept loop (\<open>Server\<close>), the goroutines of the
    client handlers with their bookkeeping and the refreshes, fetches and upstream requests they
    wait for (\<open>Clients\<close>, and \<open>ClientsLive\<close> for the end of the teardown), the startup listing, the
    handler of a connection and the requests of all groups (\<open>GroupServing\<close>), construction of a
    server (\<open>Program\<close>), the socket files with \<open>listener.go\<close> (\<open>SocketFiles\<close>), the socket locks of
    \<open>socketlock.go\<close> and \<open>socketlock_unix.go\<close> (\<open>SocketLock\<close>), and the listing \<open>-list\<close> prints
    (\<open>ListKeys\<close>; what YAML makes of it: \<open>YamlScalar\<close>). \<open>peercreds\<close> is \<open>PeerCreds\<close>.

  \<^item> \<open>logging/logging.go\<close> and the loggers of \<open>log/slog\<close> are \<open>Logging\<close>. The records that matter to an
    operator are modelled where they are written: what a client did (\<open>AuditLog\<close>, whose agent is
    shown to be \<open>FilterAgent\<close>'s with a log), who connected (\<open>GroupServing\<close>), what was sent upstream
    (\<open>UpstreamLog\<close>), how a runtime started (\<open>RuntimeLaunch\<close>).

  \<^item> \<open>app/app.go\<close>: \<open>Reload\<close> and \<open>ReloadLaws\<close> have the loop that runs one server at a time, reloads on
    SIGHUP and restores the last good configuration; \<open>RuntimeLaunch\<close> the goroutines and channels of
    one runtime. \<open>app/telemetry.go\<close> is \<open>RuntimeTelemetry\<close>.

  \<^item> \<open>service\<close>: \<open>Host\<close> is the machine a service manager works on (files, commands, signals);
    \<open>ServiceDefs\<close> and \<open>LaunchdDefs\<close> are \<open>definitions.go\<close>, the systemd unit and the launchd property
    list with the readers of both; \<open>Service\<close> is \<open>service.go\<close> with \<open>service_linux.go\<close> and
    \<open>reload_unix.go\<close>, \<open>Launchd\<close> is \<open>service_darwin.go\<close>. The managers meet the locale
    \<open>unit_manager\<close>. \<open>diag/diag.go\<close> is \<open>Diag\<close>, \<open>main.go\<close> is \<open>MainCLI\<close>.

  \<open>Prelude\<close>, \<open>GoErr\<close>, \<open>GoStrings\<close>, \<open>GoPath\<close>, \<open>GoTime\<close>, \<open>GoQuote\<close>, \<open>GoXml\<close> model what the program uses of
  Go: errors and \<open>errors.Is\<close>, strings as byte lists, \<open>path/filepath\<close>, durations and decimals,
  \<open>strconv.Quote\<close> and its inverse, the escaping, reading and writing of \<open>encoding/xml\<close>.
  \<open>StepSystems\<close> holds the reachable states of a step relation, the locale \<open>simulation\<close>, and the
  single-flight protocol that the cache and the authorization state are shown to refine.

  \<^bold>\<open>What the groups of lemmas show.\<close>

  \<^item> From the configuration to the wire (\<open>Program\<close>, over \<open>GroupServing\<close>, \<open>Answering\<close> and the layers):
    a loaded configuration alone decides which keys a group's clients can use, groups that share a
    connection are isolated, and every request is answered: one the agent leaves unanswered
    because the watchdog closes its connection, not by assumption. These theorems serve whole
    requests one after another; the interleavings inside the layers are the next group's.
  \<^item> Concurrency: single flight of refreshes, lock-free reads that stay justified, a connection
    pointer that leaks nothing, a shutdown that drains its clients and does not wait
    for one that cannot move, a runtime that hands over its result after its last report. The
    cache theorems are about a cache that is used, with a positive time to live. The steps of each relation are the critical sections, atomic
    operations and channel operations of the code; invariants go by rule induction.
  \<^item> Resources: locks, socket files and connections are released on every path, and what another
    process owns is left alone. The theorems of \<open>SocketFiles\<close> assume (\<open>alone\<close>) that nobody else
    changes the file system between the system calls of one operation.
  \<^item> Texts the program writes and reads back: units, property lists, quoted strings, key listings
    (of which one kind of entry does not survive: a comment that is not UTF-8).
  \<^item> Observability: no counter loses or doubles an event between reports, each signature upstream has its record,
    and the records of upstream calls do not depend on payloads or passphrases.

  \<^bold>\<open>Conventions.\<close> A method is a function from its arguments and its state to its result and the
  new state; a pair of a value and an error is a sum. \<open>None\<close> stands for a call that never
  returns. What the outside decides (the kernel, the agent, other processes, the clock, the
  arm that \<open>select\<close> picks) is a parameter. Goroutines are step systems, their steps the mutex
  sections and channel operations of the code. Error texts keep their fixed words and leave out
  what \<open>%q\<close> prints.

  \<^bold>\<open>Bounds and fuel.\<close> Only \<open>runWithServers\<close> (the number of loop iterations looked at) and
  \<open>acceptLoop\<close> (the accept outcomes consumed) cut an endless loop off; what is proved of them holds
  for every cut. All other loops are structural or have a measure: the climb of
  \<open>canonicalSocketPath\<close> and the search of \<open>stableExecutable\<close> the length of the path, the text readers
  the length of the rest. The steps that drain a server's clients lower a pair of numbers, the
  fetches of the cache left to begin and the steps left to take. Counters of telemetry are 64-bit words that wrap, process identifiers
  and signature flags 32-bit words; durations and Go \<open>int\<close>s are unbounded integers, which the
  checked ranges (a cache of at most 60 seconds, delays of at most one second) keep far from
  their width.

  \<^bold>\<open>Not modelled.\<close> The code of \<open>x/crypto\<close> (the agent protocol on the wire, fingerprints, key
  parsing), YAML decoding and flag parsing are parameters. The JSON rendering of a record is
  \<open>log/slog\<close>'s. Records of the layers that are not named above (the cache's warning, debug records
  of the authorization state, the server's own start and stop) are left out or are entries of a
  trace without attributes. Of YAML only double-quoted scalars are described, as a hypothesis on the
  decoder. XML documents and \<open>launchctl\<close> outputs the program does not write are
  read by a parameter beyond what the expressions of \<open>definitions.go\<close> match. \<open>testutil\<close> holds helpers
  of the test suite.
\<close>

end
